(* ===== verification/Prelude.thy ===== *)
theory Prelude
  imports Main "HOL-Library.Word" "HOL-Library.Multiset"
begin

text \<open>
  Shared vocabulary of the development: the machine integer types, the fact
  collections, and the generic lemmas on lists that several components use.
\<close>

type_synonym i32 = "32 word"
type_synonym u32 = "32 word"
type_synonym i64 = "64 word"
type_synonym u64 = "64 word"
type_synonym size_t = "64 word"
type_synonym bytes = "8 word list"

named_theorems proto_simps \<open>field-wise behaviour of message operations\<close>
named_theorems queue_simps \<open>behaviour of the blocking queue\<close>
named_theorems sched_simps \<open>behaviour of the scheduler operations\<close>
named_theorems backend_simps \<open>behaviour of backend construction and lookup\<close>
named_theorems manager_simps \<open>behaviour of the model manager operations\<close>

text \<open>An \<open>int32_t\<close> converted to an unsigned 64-bit type is sign extended.\<close>

lemma scast_i32_eq_0 [simp]: "(scast (x :: 32 word) :: 64 word) = 0 \<longleftrightarrow> x = 0"
proof
  assume "(scast x :: 64 word) = 0"
  then have "(scast (scast x :: 64 word) :: 32 word) = 0"
    by simp
  then show "x = 0"
    by (simp add: scast_down_scast_id is_down)
qed simp

lemma unat_scast_i32:
  assumes "0 \<le> sint (x :: i32)"
  shows "unat (scast x :: 64 word) = nat (sint x)"
proof -
  have le: "sint x < 2 ^ 31"
    using sint_lt [of x] by simp
  have "uint (scast x :: 64 word) = sint x mod 2 ^ 64"
    unfolding scast_eq uint_word_of_int by simp
  also have "\<dots> = sint x"
    using assms le by (intro mod_pos_pos_trivial) simp_all
  finally show ?thesis
    by (simp only: unat_eq_nat_uint)
qed

lemma unat_scast_i32_neg:
  assumes "sint (x :: i32) < 0"
  shows "2 ^ 63 \<le> unat (scast x :: 64 word)"
proof -
  have ge: "- (2 ^ 31) \<le> sint x"
    using sint_ge [of x] by simp
  have "uint (scast x :: 64 word) = sint x mod 2 ^ 64"
    unfolding scast_eq uint_word_of_int by simp
  also have "\<dots> = (sint x + 2 ^ 64) mod 2 ^ 64"
    by (simp only: mod_add_self2)
  also have "\<dots> = sint x + 2 ^ 64"
    using assms ge by (intro mod_pos_pos_trivial) simp_all
  finally have "uint (scast x :: 64 word) = sint x + 2 ^ 64" .
  moreover have "(2::int) ^ 63 \<le> sint x + 2 ^ 64"
    using ge by simp
  ultimately have "(2::int) ^ 63 \<le> uint (scast x :: 64 word)"
    by (simp only:)
  then have "nat (2 ^ 63) \<le> nat (uint (scast x :: 64 word))"
    by (rule nat_mono)
  then show ?thesis
    by simp
qed
lemma sint_scast_i32 [simp]: "sint (scast (x :: i32) :: 64 word) = sint x"
  by (rule sint_up_scast) (simp add: is_up)

lemma scast_i32_inj [simp]: "(scast (a :: i32) :: 64 word) = scast b \<longleftrightarrow> a = b"
  by (metis sint_scast_i32 word_eq_iff_signed)

lemma ucast_ucast_u32 [simp]: "(ucast (ucast (d :: u32) :: 64 word) :: u32) = d"
  by (simp add: ucast_up_ucast_id is_up)

lemma sint_of_nat_i32: "n < 2 ^ 31 \<Longrightarrow> sint (word_of_nat n :: i32) = int n"
  by (simp add: signed_of_nat signed_take_bit_int_eq_self)

lemma sint_i32_range: "- (2 ^ 31) \<le> sint (x :: i32)" "sint (x :: i32) < 2 ^ 31"
  using sint_ge [of x] sint_lt [of x] by simp_all

lemma of_nat_sint_i32: "0 \<le> sint (x :: i32) \<Longrightarrow> word_of_nat (nat (sint x)) = x"
  by simp

lemma unat_below_i32: "0 \<le> sint (x :: i32) \<Longrightarrow> unat x < 2 ^ 31"
proof -
  assume x: "0 \<le> sint x"
  then have "x = word_of_nat (nat (sint x))" "nat (sint x) < 2 ^ 31"
    using of_nat_sint_i32 [OF x] sint_i32_range(2) [of x] by simp_all
  then show ?thesis
    by (metis le_less_trans unat_of_nat mod_less_eq_dividend)
qed

text \<open>Counting the positions of a list that satisfy a predicate, under update.\<close>

definition count_if :: "('a \<Rightarrow> bool) \<Rightarrow> 'a list \<Rightarrow> nat" where
  "count_if P xs = length (filter P xs)"

lemma count_if_simps [simp]:
  "count_if P [] = 0"
  "count_if P (x # xs) = (if P x then 1 else 0) + count_if P xs"
  by (simp_all add: count_if_def)

lemma count_if_update:
  "i < length xs \<Longrightarrow>
   count_if P (xs[i := y]) + (if P (xs ! i) then 1 else 0) =
   count_if P xs + (if P y then 1 else 0)"
proof (induction xs arbitrary: i)
  case Nil
  then show ?case by simp
next
  case (Cons x xs)
  then show ?case by (cases i) force+
qed

lemma count_if_pos: "i < length xs \<Longrightarrow> P (xs ! i) \<Longrightarrow> 0 < count_if P xs"
  by (auto simp: count_if_def filter_empty_conv intro!: nth_mem)

lemma count_if_zero_iff: "count_if P xs = 0 \<longleftrightarrow> (\<forall>x \<in> set xs. \<not> P x)"
  by (simp add: count_if_def filter_empty_conv)

lemma count_if_pos_iff: "0 < count_if P xs \<longleftrightarrow> (\<exists>x \<in> set xs. P x)"
  by (simp add: count_if_def filter_empty_conv)

lemma count_if_update_same:
  "i < length xs \<Longrightarrow> P (xs ! i) = P y \<Longrightarrow> count_if P (xs[i := y]) = count_if P xs"
  using count_if_update [of i xs P y] by simp

text \<open>The multiset a list of optional values holds, under update.\<close>

definition somes :: "('a \<Rightarrow> 'b option) \<Rightarrow> 'a list \<Rightarrow> 'b multiset" where
  "somes f xs = mset (List.map_filter f xs)"

abbreviation opt_mset :: "'a option \<Rightarrow> 'a multiset" where
  "opt_mset ov \<equiv> (case ov of None \<Rightarrow> {#} | Some v \<Rightarrow> {#v#})"

lemma somes_simps [simp]:
  "somes f [] = {#}"
  "somes f (x # xs) = opt_mset (f x) + somes f xs"
  by (simp_all add: somes_def List.map_filter_def split: option.split)

lemma somes_append [simp]: "somes f (xs @ ys) = somes f xs + somes f ys"
  by (induction xs) (simp_all add: ac_simps)

lemma somes_update:
  "i < length xs \<Longrightarrow>
   somes f (xs[i := y]) + opt_mset (f (xs ! i)) = somes f xs + opt_mset (f y)"
proof (induction xs arbitrary: i)
  case Nil
  then show ?case by simp
next
  case (Cons x xs)
  then show ?case by (cases i) (auto simp: ac_simps)
qed

lemma somes_update_None:
  "i < length xs \<Longrightarrow> f (xs ! i) = None \<Longrightarrow> somes f (xs[i := y]) = somes f xs + opt_mset (f y)"
  using somes_update [of i xs f y] by simp

lemma somes_update_same:
  "i < length xs \<Longrightarrow> f (xs ! i) = f y \<Longrightarrow> somes f (xs[i := y]) = somes f xs"
  using somes_update [of i xs f y] by simp

lemma somes_update_Some:
  "i < length xs \<Longrightarrow> f (xs ! i) = Some v \<Longrightarrow> f y = None \<Longrightarrow>
   add_mset v (somes f (xs[i := y])) = somes f xs"
  using somes_update [of i xs f y] by simp

lemma somes_replicate_None [simp]: "f x = None \<Longrightarrow> somes f (replicate n x) = {#}"
  by (induction n) simp_all

lemma somes_empty: "\<forall>x \<in> set xs. f x = None \<Longrightarrow> somes f xs = {#}"
  by (induction xs) simp_all

lemma somes_mem: "x \<in> set xs \<Longrightarrow> f x = Some v \<Longrightarrow> v \<in># somes f xs"
  by (induction xs) auto

lemma sum_list_update_less:
  fixes g :: "'a \<Rightarrow> nat"
  shows "i < length xs \<Longrightarrow> g y < g (xs ! i) \<Longrightarrow> sum_list (map g (xs[i := y])) < sum_list (map g xs)"
proof (induction xs arbitrary: i)
  case Nil
  then show ?case by simp
next
  case (Cons x xs)
  then show ?case by (cases i) auto
qed

end
