(* ===== verification/Cxx_Std.thy ===== *)
theory Cxx_Std
  imports Prelude
begin

text \<open>
  The parts of the C++ standard library the server relies on: the text of a C
  string, \<open>std::to_string\<close>, \<open>std::stoll\<close>, and \<open>std::unordered_map\<close>.
  The interface of the map is the locale \<open>kv_map\<close>; the association-list model
  below is its interpretation, and its clients (the tensor maps of a backend, the
  model map of the manager) use the facts of that interpretation.
\<close>

section \<open>Characters and C strings\<close>

definition c_str :: "string \<Rightarrow> string" where
  "c_str s = takeWhile (\<lambda>c. c \<noteq> CHR 0x00) s"

lemma c_str_idem [simp]: "c_str (c_str s) = c_str s"
  unfolding c_str_def by (auto simp: takeWhile_eq_all_conv dest: set_takeWhileD)

text \<open>\<open>strcmp(a.c_str(), b) == 0\<close> for a literal \<open>b\<close>: equality up to the first NUL.\<close>

definition strcmp_eq :: "string \<Rightarrow> string \<Rightarrow> bool" where
  "strcmp_eq a b \<longleftrightarrow> c_str a = c_str b"

definition is_digit :: "char \<Rightarrow> bool" where
  "is_digit c \<longleftrightarrow> 48 \<le> (of_char c :: nat) \<and> (of_char c :: nat) \<le> 57"

definition digit_val :: "char \<Rightarrow> nat" where
  "digit_val c = of_char c - 48"

definition digit_char :: "nat \<Rightarrow> char" where
  "digit_char n = char_of (48 + n)"

definition is_space :: "char \<Rightarrow> bool" where
  "is_space c \<longleftrightarrow> c = CHR '' '' \<or> 9 \<le> (of_char c :: nat) \<and> (of_char c :: nat) \<le> 13"

lemma of_char_digit_char: "n < 10 \<Longrightarrow> (of_char (digit_char n) :: nat) = 48 + n"
  by (simp add: digit_char_def)

lemma digit_char_props [simp]:
  assumes "n < 10"
  shows "is_digit (digit_char n)" "digit_val (digit_char n) = n"
    "\<not> is_space (digit_char n)" "digit_char n \<noteq> CHR ''-''" "digit_char n \<noteq> CHR ''+''"
    "digit_char n \<noteq> CHR ''_''"
proof -
  note oc = of_char_digit_char [OF assms]
  show "is_digit (digit_char n)" "digit_val (digit_char n) = n"
    using assms by (simp_all add: is_digit_def digit_val_def oc)
  have "\<And>c. digit_char n = c \<Longrightarrow> 48 \<le> (of_char c :: nat) \<and> (of_char c :: nat) \<le> 57"
    using oc assms by auto
  then show "\<not> is_space (digit_char n)" "digit_char n \<noteq> CHR ''-''" "digit_char n \<noteq> CHR ''+''"
    "digit_char n \<noteq> CHR ''_''"
    using oc by (fastforce simp: is_space_def)+
qed

section \<open>Decimal output: \<open>std::to_string\<close> and stream insertion of an unsigned\<close>

fun show_nat :: "nat \<Rightarrow> string" where
  "show_nat n = (if n < 10 then [digit_char n] else show_nat (n div 10) @ [digit_char (n mod 10)])"

declare show_nat.simps [simp del]

definition to_string :: "int \<Rightarrow> string" where
  "to_string i = (if i < 0 then CHR ''-'' # show_nat (nat (- i)) else show_nat (nat i))"

definition digits_val :: "string \<Rightarrow> nat" where
  "digits_val ds = foldl (\<lambda>n c. n * 10 + digit_val c) 0 ds"

lemma show_nat_digits: "\<forall>c \<in> set (show_nat n). is_digit c \<and> \<not> is_space c \<and> c \<noteq> CHR ''_''"
proof (induction n rule: show_nat.induct)
  case (1 n)
  then show ?case
    by (subst (1) show_nat.simps) (auto split: if_splits)
qed

lemma show_nat_not_Nil [simp]: "show_nat n \<noteq> []"
  by (subst show_nat.simps) simp

lemma show_nat_hd: "is_digit (hd (show_nat n))" "\<not> is_space (hd (show_nat n))"
  using bspec [OF show_nat_digits hd_in_set [OF show_nat_not_Nil]] by blast+

lemma digits_val_snoc: "digits_val (ds @ [c]) = digits_val ds * 10 + digit_val c"
  by (simp add: digits_val_def)

lemma digits_val_show_nat: "digits_val (show_nat n) = n"
proof (induction n rule: show_nat.induct)
  case (1 n)
  show ?case
  proof (cases "n < 10")
    case True
    then show ?thesis
      by (subst show_nat.simps) (simp add: digits_val_def)
  next
    case False
    then have "show_nat n = show_nat (n div 10) @ [digit_char (n mod 10)]"
      by (subst show_nat.simps) simp
    then show ?thesis
      using "1.IH" False by (simp add: digits_val_snoc)
  qed
qed

lemma show_nat_inj: "show_nat m = show_nat n \<Longrightarrow> m = n"
  by (metis digits_val_show_nat)

section \<open>Parsing: \<open>std::stoll\<close>\<close>

datatype conv_error = Invalid_argument | Out_of_range

text \<open>
  \<open>strtoll\<close> in base 10: leading white space, one optional sign, then the longest run
  of digits; what follows the digits is ignored. \<open>std::stoll\<close> throws
  \<open>invalid_argument\<close> when there is no digit and \<open>out_of_range\<close> when the value is no
  \<open>long long\<close>.
\<close>

definition stoll_sign :: "string \<Rightarrow> bool \<times> string" where
  "stoll_sign s = (case s of
      [] \<Rightarrow> (False, [])
    | c # cs \<Rightarrow> if c = CHR ''-'' then (True, cs) else if c = CHR ''+'' then (False, cs) else (False, s))"

definition in_i64 :: "int \<Rightarrow> bool" where
  "in_i64 i \<longleftrightarrow> - (2 ^ 63) \<le> i \<and> i < 2 ^ 63"

definition stoll :: "string \<Rightarrow> conv_error + int" where
  "stoll s =
     (let (neg, rest) = stoll_sign (dropWhile is_space s);
          ds = takeWhile is_digit rest;
          v = (if neg then - int (digits_val ds) else int (digits_val ds))
      in if ds = [] then Inl Invalid_argument
         else if in_i64 v then Inr v else Inl Out_of_range)"

lemma stoll_range: "stoll s = Inr v \<Longrightarrow> in_i64 v"
  unfolding stoll_def Let_def by (simp split: prod.splits if_splits)

lemma dropWhile_space_digit: "is_digit c \<Longrightarrow> \<not> is_space c"
  by (auto simp: is_digit_def is_space_def)

lemma takeWhile_show_nat:
  assumes "\<And>c cs. rest = c # cs \<Longrightarrow> \<not> is_digit c"
  shows "takeWhile is_digit (show_nat n @ rest) = show_nat n"
proof -
  have "takeWhile is_digit rest = []"
    using assms by (cases rest) auto
  moreover have "takeWhile is_digit (show_nat n @ rest) = show_nat n @ takeWhile is_digit rest"
    using show_nat_digits by (intro takeWhile_append2) blast
  ultimately show ?thesis by simp
qed

lemma stoll_sign_digit: "is_digit c \<Longrightarrow> stoll_sign (c # cs) = (False, c # cs)"
  by (auto simp: stoll_sign_def is_digit_def)

text \<open>
  Parsing what \<open>to_string\<close> printed, followed by anything that is no digit: the
  suffix of a directory name such as \<open>3_old\<close> does not change the value read.
\<close>

lemma stoll_to_string_append:
  assumes "in_i64 i" "\<And>c cs. rest = c # cs \<Longrightarrow> \<not> is_digit c"
  shows "stoll (to_string i @ rest) = Inr i"
proof (cases "i < 0")
  case True
  have neg: "\<not> is_space CHR ''-''"
    by (simp add: is_space_def)
  have "takeWhile is_digit (show_nat (nat (- i)) @ rest) = show_nat (nat (- i))"
    using assms(2) by (rule takeWhile_show_nat)
  then show ?thesis
    using True assms(1)
    by (simp add: to_string_def stoll_def Let_def neg stoll_sign_def digits_val_show_nat)
next
  case False
  obtain c cs where c: "show_nat (nat i) = c # cs" "is_digit c" "\<not> is_space c"
    using show_nat_hd [of "nat i"] by (cases "show_nat (nat i)") auto
  have "takeWhile is_digit (show_nat (nat i) @ rest) = show_nat (nat i)"
    using assms(2) by (rule takeWhile_show_nat)
  moreover have "dropWhile is_space (show_nat (nat i) @ rest) = show_nat (nat i) @ rest"
    using c by simp
  moreover have "stoll_sign (show_nat (nat i) @ rest) = (False, show_nat (nat i) @ rest)"
    using c by (simp add: stoll_sign_digit)
  ultimately show ?thesis
    using False assms(1)
    by (simp add: to_string_def stoll_def Let_def digits_val_show_nat)
qed

lemma stoll_to_string: "in_i64 i \<Longrightarrow> stoll (to_string i) = Inr i"
  using stoll_to_string_append [of i "[]"] by simp

section \<open>\<open>std::unordered_map\<close>\<close>

text \<open>
  What its users rely on: \<open>find\<close> after \<open>insert\<close> (which keeps an existing entry),
  after assignment through \<open>operator[]\<close> (which overwrites it) and after \<open>erase\<close>.
\<close>

locale kv_map =
  fixes find :: "'m \<Rightarrow> 'k \<Rightarrow> 'v option"
    and insert :: "'k \<Rightarrow> 'v \<Rightarrow> 'm \<Rightarrow> 'm"
    and assign :: "'k \<Rightarrow> 'v \<Rightarrow> 'm \<Rightarrow> 'm"
    and erase :: "'k \<Rightarrow> 'm \<Rightarrow> 'm"
    and wf :: "'m \<Rightarrow> bool"
  assumes find_insert: "wf m \<Longrightarrow> find (insert k v m) j =
      (if j = k \<and> find m k = None then Some v else find m j)"
    and find_assign: "wf m \<Longrightarrow> find (assign k v m) j = (if j = k then Some v else find m j)"
    and find_erase: "wf m \<Longrightarrow> find (erase k m) j = (if j = k then None else find m j)"
    and wf_insert: "wf m \<Longrightarrow> wf (insert k v m)"
    and wf_assign: "wf m \<Longrightarrow> wf (assign k v m)"
    and wf_erase: "wf m \<Longrightarrow> wf (erase k m)"
begin

lemma wf_insert_all: "wf m \<Longrightarrow> wf (fold (\<lambda>(k, v). insert k v) kvs m)"
  by (induction kvs arbitrary: m) (auto simp: wf_insert)

lemma find_insert_all:
  "wf m \<Longrightarrow> find (fold (\<lambda>(k, v). insert k v) kvs m) j =
     (case find m j of Some v \<Rightarrow> Some v | None \<Rightarrow> map_of kvs j)"
proof (induction kvs arbitrary: m)
  case Nil
  then show ?case by (simp split: option.split)
next
  case (Cons kv kvs)
  then show ?case
    by (cases kv) (auto simp: wf_insert find_insert split: option.split)
qed

lemma wf_erase_all: "wf m \<Longrightarrow> wf (fold erase ks m)"
  by (induction ks arbitrary: m) (auto simp: wf_erase)

lemma find_erase_all:
  "wf m \<Longrightarrow> find (fold erase ks m) j = (if j \<in> set ks then None else find m j)"
  by (induction ks arbitrary: m) (auto simp: wf_erase find_erase)

lemma insert_present: "wf m \<Longrightarrow> find m k = Some w \<Longrightarrow> find (insert k v m) = find m"
  by (auto simp: find_insert)

lemma assign_overrides_insert: "wf m \<Longrightarrow> find (assign k v (insert k w m)) = find (assign k v m)"
  by (auto simp: find_insert find_assign wf_insert)

end

text \<open>
  The model: an association list with distinct keys; the order of the list is the
  iteration order, which the standard leaves open.
\<close>

type_synonym ('k, 'v) umap = "('k \<times> 'v) list"

definition um_find :: "('k, 'v) umap \<Rightarrow> 'k \<Rightarrow> 'v option" where
  "um_find m k = map_of m k"

definition um_insert :: "'k \<Rightarrow> 'v \<Rightarrow> ('k, 'v) umap \<Rightarrow> ('k, 'v) umap" where
  "um_insert k v m = (case um_find m k of None \<Rightarrow> m @ [(k, v)] | Some _ \<Rightarrow> m)"

definition um_assign :: "'k \<Rightarrow> 'v \<Rightarrow> ('k, 'v) umap \<Rightarrow> ('k, 'v) umap" where
  "um_assign k v m = (case um_find m k of
      None \<Rightarrow> m @ [(k, v)]
    | Some _ \<Rightarrow> map (\<lambda>(j, w). if j = k then (j, v) else (j, w)) m)"

definition um_erase :: "'k \<Rightarrow> ('k, 'v) umap \<Rightarrow> ('k, 'v) umap" where
  "um_erase k m = filter (\<lambda>(j, _). j \<noteq> k) m"

definition um_keys :: "('k, 'v) umap \<Rightarrow> 'k list" where
  "um_keys m = map fst m"

definition um_wf :: "('k, 'v) umap \<Rightarrow> bool" where
  "um_wf m \<longleftrightarrow> distinct (map fst m)"

lemma um_find_None: "um_find m k = None \<longleftrightarrow> k \<notin> set (um_keys m)"
  by (simp add: um_find_def um_keys_def map_of_eq_None_iff)

lemma um_find_Nil [simp]: "um_find [] k = None"
  by (simp add: um_find_def)

lemma um_wf_Nil [simp]: "um_wf []"
  by (simp add: um_wf_def)

lemma map_of_update_all:
  "map_of (map (\<lambda>(j, w). if j = k then (j, v) else (j, w)) m) i =
   (if i = k \<and> map_of m k \<noteq> None then Some v else map_of m i)"
  by (induction m) auto

lemma map_of_erase: "map_of (filter (\<lambda>(j, _). j \<noteq> k) m) i = (if i = k then None else map_of m i)"
  by (induction m) auto

lemma keys_update_all: "map fst (map (\<lambda>(j, w). if j = k then (j, v) else (j, w)) m) = map fst m"
  by (induction m) auto

lemma um_keys_assign: "set (um_keys (um_assign k v m)) = insert k (set (um_keys m))"
proof (cases "um_find m k")
  case None
  then show ?thesis
    by (simp add: um_assign_def um_keys_def)
next
  case (Some w)
  then have "k \<in> set (map fst m)"
    by (force simp: um_find_def dest: map_of_SomeD)
  then show ?thesis
    by (simp add: um_assign_def um_keys_def Some keys_update_all insert_absorb del: map_map set_map)
qed

lemma um_keys_insert: "set (um_keys (um_insert k v m)) = insert k (set (um_keys m))"
proof (cases "um_find m k")
  case None
  then show ?thesis
    by (simp add: um_insert_def um_keys_def)
next
  case (Some w)
  then have "k \<in> set (map fst m)"
    by (force simp: um_find_def dest: map_of_SomeD)
  then show ?thesis
    by (simp add: um_insert_def um_keys_def Some insert_absorb del: set_map)
qed

lemma um_find_set: "um_wf m \<Longrightarrow> um_find m k = Some v \<longleftrightarrow> (k, v) \<in> set m"
  by (simp add: um_find_def um_wf_def)

interpretation um: kv_map um_find um_insert um_assign um_erase um_wf
proof unfold_locales
  fix m :: "('k, 'v) umap" and k j v
  show "um_find (um_insert k v m) j = (if j = k \<and> um_find m k = None then Some v else um_find m j)"
    by (auto simp: um_insert_def um_find_def map_add_def split: option.split)
  show "um_find (um_assign k v m) j = (if j = k then Some v else um_find m j)"
    by (auto simp: um_assign_def um_find_def map_of_update_all map_add_def split: option.split)
  show "um_find (um_erase k m) j = (if j = k then None else um_find m j)"
    by (simp add: um_erase_def um_find_def map_of_erase)
  show "um_wf m \<Longrightarrow> um_wf (um_insert k v m)"
    by (auto simp: um_insert_def um_wf_def um_find_def map_of_eq_None_iff split: option.split)
  show "um_wf m \<Longrightarrow> um_wf (um_assign k v m)"
    by (auto simp: um_assign_def um_wf_def um_find_def map_of_eq_None_iff keys_update_all
        simp del: map_map split: option.split)
  show "um_wf m \<Longrightarrow> um_wf (um_erase k m)"
    by (auto simp: um_wf_def um_erase_def distinct_map inj_on_def)
qed

lemmas um_facts [simp] =
  um.find_insert um.find_assign um.find_erase um.wf_insert um.wf_assign um.wf_erase

end
