(* ===== verification/Status_Codes.thy ===== *)
theory Status_Codes
  imports Cxx_Std
begin

text \<open>
  \<open>src/core/status.h\<close>: the status enumeration with its numeric codes, its stream
  output (the text a client sees in an error response), and the error macros.
\<close>

datatype status =
    Success
  | Failed_Generic
  | Failed_Invalid_Server_Config
  | Faield_Rpc_Already_Running
  | Failed_Rpc_Not_Running
  | Failed_Model_Repo_Path_Not_Exist
  | Failed_Model_Config_Invalid
  | Failed_Model_Config_IO_Not_Found
  | Failed_Model_Config_Platform_Unknown
  | Faield_ModelManager_Already_Running
  | Faield_ModelManager_Not_Running
  | Failed_Scheduler_Not_Running
  | Failed_Scheduler_Already_Running
  | Failed_Infer_No_Scheduler_Configured
  | Failed_Infer_No_Backend_Found
  | Failed_Model_Warmup
  | Failed_Model_Load

fun status_code :: "status \<Rightarrow> nat" where
  "status_code Success = 0"
| "status_code Failed_Generic = 1"
| "status_code Failed_Invalid_Server_Config = 2"
| "status_code Faield_Rpc_Already_Running = 3"
| "status_code Failed_Rpc_Not_Running = 4"
| "status_code Failed_Model_Repo_Path_Not_Exist = 100"
| "status_code Failed_Model_Config_Invalid = 101"
| "status_code Failed_Model_Config_IO_Not_Found = 102"
| "status_code Failed_Model_Config_Platform_Unknown = 103"
| "status_code Faield_ModelManager_Already_Running = 104"
| "status_code Faield_ModelManager_Not_Running = 105"
| "status_code Failed_Scheduler_Not_Running = 200"
| "status_code Failed_Scheduler_Already_Running = 201"
| "status_code Failed_Infer_No_Scheduler_Configured = 300"
| "status_code Failed_Infer_No_Backend_Found = 301"
| "status_code Failed_Model_Warmup = 400"
| "status_code Failed_Model_Load = 401"

lemma status_code_inj [simp]: "status_code a = status_code b \<longleftrightarrow> a = b"
  by (cases a; cases b) simp_all

lemma status_code_u32: "status_code st < 2 ^ 32"
  by (cases st) simp_all

text \<open>The enumerators are ordered as their codes.\<close>

instantiation status :: linorder
begin

definition less_eq_status :: "status \<Rightarrow> status \<Rightarrow> bool" where
  "less_eq_status a b \<longleftrightarrow> status_code a \<le> status_code b"

definition less_status :: "status \<Rightarrow> status \<Rightarrow> bool" where
  "less_status a b \<longleftrightarrow> status_code a < status_code b"

instance
  by standard (auto simp: less_eq_status_def less_status_def)

end

lemma Success_least: "Success \<le> st"
  by (simp add: less_eq_status_def)

section \<open>Stream output\<close>

definition show_status :: "status \<Rightarrow> string" where
  "show_status st = ''Status = '' @ show_nat (status_code st)"

lemma show_status_inj: "show_status a = show_status b \<Longrightarrow> a = b"
  using show_nat_inj by (fastforce simp: show_status_def)

lemma show_status_not_Nil: "show_status st \<noteq> []"
  by (simp add: show_status_def)

lemma stoll_show_status: "stoll (drop 9 (show_status st)) = Inr (int (status_code st))"
proof -
  have "in_i64 (int (status_code st))"
    using status_code_u32 [of st] by (simp add: in_i64_def)
  from stoll_to_string [OF this] show ?thesis
    by (simp add: show_status_def to_string_def)
qed

section \<open>The macros\<close>

text \<open>
  \<open>RETURN_IF_ERROR\<close> and \<open>CHECK_RETURN_ERROR\<close> leave the enclosing function with a
  status; \<open>rest\<close> is what follows the macro. \<open>THROW_ERROR\<close> raises
  \<open>std::runtime_error\<close>, a value of the exception type below.
\<close>

datatype exn =
    Runtime_error string
  | Invalid_arg string
  | Length_error
  | Filesystem_error string
  | Yaml_error

definition RETURN_IF_ERROR :: "status \<Rightarrow> status \<Rightarrow> status" where
  "RETURN_IF_ERROR result rest = (if result \<noteq> Success then result else rest)"

definition CHECK_RETURN_ERROR :: "bool \<Rightarrow> status \<Rightarrow> status \<Rightarrow> status" where
  "CHECK_RETURN_ERROR condition result rest = (if \<not> condition then result else rest)"

definition THROW_ERROR :: "string \<Rightarrow> exn + 'a" where
  "THROW_ERROR message = Inl (Runtime_error message)"

lemma RETURN_IF_ERROR_Success: "RETURN_IF_ERROR st rest = Success \<longleftrightarrow> st = Success \<and> rest = Success"
  by (auto simp: RETURN_IF_ERROR_def)

lemma RETURN_IF_ERROR_assoc:
  "RETURN_IF_ERROR (RETURN_IF_ERROR a b) c = RETURN_IF_ERROR a (RETURN_IF_ERROR b c)"
  by (auto simp: RETURN_IF_ERROR_def)

end
