(* ===== verification/Rpc_Handler.thy ===== *)
theory Rpc_Handler
  imports Status_Codes
begin

text \<open>
  The template \<open>Handler\<close> of \<open>src/core/server/grpc_server.cc\<close>: per service method one
  thread that owns a completion queue and a heap of call states, whose addresses are the
  tags of the queue. The gRPC side of the queue is documented behaviour: a requested call
  arrives or, once the server shuts down, is cancelled; a finished call gives one event;
  \<open>Server::Shutdown\<close> returns when every call has been answered.
\<close>

section \<open>Call steps\<close>

datatype call_step = START | PROCESS | FINISH

fun call_step_code :: "call_step \<Rightarrow> nat" where
  "call_step_code START = 1"
| "call_step_code PROCESS = 2"
| "call_step_code FINISH = 3"

lemma call_step_code_inj [simp]: "call_step_code a = call_step_code b \<longleftrightarrow> a = b"
  by (cases a; cases b) simp_all

instantiation call_step :: linorder
begin

definition less_eq_call_step :: "call_step \<Rightarrow> call_step \<Rightarrow> bool" where
  "less_eq_call_step a b \<longleftrightarrow> call_step_code a \<le> call_step_code b"

definition less_call_step :: "call_step \<Rightarrow> call_step \<Rightarrow> bool" where
  "less_call_step a b \<longleftrightarrow> call_step_code a < call_step_code b"

instance
  by standard (auto simp: less_eq_call_step_def less_call_step_def)

end

section \<open>State\<close>

type_synonym tag = nat

record ('req, 'resp) handler_state =
  hs_unique_id :: nat
  hs_request :: 'req
  hs_response :: 'resp
  hs_step :: call_step

text \<open>The thread: not created, created, in the loop, returned.\<close>

datatype event_loop = No_Thread | Entering | Looping | Returned

text \<open>
  \<open>h_cleared\<close> holds the cleared messages of the two template arguments; \<open>h_states\<close> is the
  heap of call states. The \<open>cq_\<close> fields are the completion queue: calls requested,
  answers being sent, events ready for \<open>Next\<close>, the two shutdown flags, and whether work
  was ever added after the queue was shut down, which gRPC forbids. \<open>h_answers\<close> records
  what \<open>Finish\<close> was called with.
\<close>

record ('req, 'resp) handler =
  h_cleared :: "'req \<times> 'resp"
  h_thread :: event_loop
  h_states :: "tag \<Rightarrow> ('req, 'resp) handler_state option"
  h_next :: tag
  cq_requested :: "tag list"
  cq_finishing :: "tag list"
  cq_events :: "(tag \<times> bool) list"
  srv_shut :: bool
  cq_shut :: bool
  cq_late :: bool
  h_answers :: "(tag \<times> 'resp) list"

definition new_handler :: "'req \<times> 'resp \<Rightarrow> ('req, 'resp) handler" where
  "new_handler cleared =
     \<lparr>h_cleared = cleared, h_thread = No_Thread, h_states = (\<lambda>_. None), h_next = 0,
      cq_requested = [], cq_finishing = [], cq_events = [], srv_shut = False, cq_shut = False,
      cq_late = False, h_answers = []\<rparr>"

section \<open>Operations\<close>

definition Reset :: "'req \<times> 'resp \<Rightarrow> call_step \<Rightarrow> ('req, 'resp) handler_state" where
  "Reset cleared step =
     \<lparr>hs_unique_id = 0, hs_request = fst cleared, hs_response = snd cleared, hs_step = step\<rparr>"

definition StateNew :: "call_step \<Rightarrow> ('req, 'resp) handler \<Rightarrow> tag \<times> ('req, 'resp) handler" where
  "StateNew step h =
     (h_next h,
      h\<lparr>h_states := (h_states h)(h_next h := Some (Reset (h_cleared h) step)),
        h_next := Suc (h_next h)\<rparr>)"

definition StateRelease :: "tag \<Rightarrow> ('req, 'resp) handler \<Rightarrow> ('req, 'resp) handler" where
  "StateRelease t h = h\<lparr>h_states := (h_states h)(t := None)\<rparr>"

definition upd_state ::
  "tag \<Rightarrow> (('req, 'resp) handler_state \<Rightarrow> ('req, 'resp) handler_state) \<Rightarrow>
   ('req, 'resp) handler \<Rightarrow> ('req, 'resp) handler" where
  "upd_state t f h = h\<lparr>h_states := (h_states h)(t := map_option f (h_states h t))\<rparr>"

definition set_step :: "tag \<Rightarrow> call_step \<Rightarrow> ('req, 'resp) handler \<Rightarrow> ('req, 'resp) handler" where
  "set_step t step = upd_state t (hs_step_update (\<lambda>_. step))"

definition set_response :: "tag \<Rightarrow> 'resp \<Rightarrow> ('req, 'resp) handler \<Rightarrow> ('req, 'resp) handler" where
  "set_response t resp = upd_state t (hs_response_update (\<lambda>_. resp))"

text \<open>\<open>StartNewRequest\<close> of every handler: a fresh state whose address is the tag.\<close>

definition StartNewRequest :: "('req, 'resp) handler \<Rightarrow> ('req, 'resp) handler" where
  "StartNewRequest h =
     (let (t, h1) = StateNew START h;
          h2 = h1\<lparr>cq_requested := cq_requested h1 @ [t], cq_late := (cq_late h1 \<or> cq_shut h1)\<rparr>
      in set_step t START h2)"

definition OnCompleted :: "tag \<Rightarrow> ('req, 'resp) handler \<Rightarrow> ('req, 'resp) handler" where
  "OnCompleted t h =
     (let h1 = set_step t FINISH h
      in h1\<lparr>cq_finishing := cq_finishing h1 @ [t], cq_late := (cq_late h1 \<or> cq_shut h1),
            h_answers := h_answers h1 @
              (case h_states h1 t of Some st \<Rightarrow> [(t, hs_response st)] | None \<Rightarrow> [])\<rparr>)"

text \<open>
  A call returns, blocks, ends the process with an exception that nobody catches, or uses
  the address of an object that was freed.
  \<open>act\<close> is the virtual method \<open>TakeAction\<close>, which also changes the server behind it.
\<close>

datatype 'a call_result = Returns 'a | Blocks | Aborts exn | Dangling

definition Process ::
  "(tag \<Rightarrow> 's \<times> ('req, 'resp) handler \<Rightarrow> ('s \<times> ('req, 'resp) handler) call_result) \<Rightarrow>
   tag \<Rightarrow> bool \<Rightarrow> 's \<times> ('req, 'resp) handler \<Rightarrow> ('s \<times> ('req, 'resp) handler) call_result" where
  "Process act t rpc_ok sh =
     (let (s, h) = sh in
      case h_states h t of
        None \<Rightarrow> Dangling
      | Some st \<Rightarrow>
          (let shutdown = (\<not> rpc_ok \<and> hs_step st = START);
               step = (if shutdown then FINISH else hs_step st);
               h1 = set_step t step h
           in case step of
                START \<Rightarrow> act t (s, set_step t PROCESS (StartNewRequest h1))
              | FINISH \<Rightarrow> Returns (s, StateRelease t h1)
              | PROCESS \<Rightarrow> Returns (s, h1)))"

definition Handler_Start :: "('req, 'resp) handler \<Rightarrow> ('req, 'resp) handler" where
  "Handler_Start h = h\<lparr>h_thread := Entering\<rparr>"

text \<open>\<open>Stop\<close> joins the thread if it is joinable; \<open>None\<close> is waiting for it to return.\<close>

definition Handler_Stop :: "('req, 'resp) handler \<Rightarrow> ('req, 'resp) handler option" where
  "Handler_Stop h =
     (case h_thread h of
        No_Thread \<Rightarrow> Some h
      | Returned \<Rightarrow> Some (h\<lparr>h_thread := No_Thread\<rparr>)
      | _ \<Rightarrow> None)"

definition step_of :: "('req, 'resp) handler \<Rightarrow> tag \<Rightarrow> call_step option" where
  "step_of h t = map_option hs_step (h_states h t)"

section \<open>Steps of \<open>HandleEvents\<close> and of gRPC\<close>

text \<open>
  \<open>queue_step\<close> has the steps of the loop, of gRPC and of the shutdown; \<open>next_event\<close> is one
  turn of the loop. \<open>handler_step\<close> adds what other threads do: \<open>callback\<close> is the completion of
  a call that \<open>TakeAction\<close> handed over, \<open>other\<close> any change behind the handler.
\<close>

inductive queue_step ::
  "(tag \<Rightarrow> 's \<times> ('req, 'resp) handler \<Rightarrow> ('s \<times> ('req, 'resp) handler) call_result) \<Rightarrow>
   's \<times> ('req, 'resp) handler \<Rightarrow> 's \<times> ('req, 'resp) handler \<Rightarrow> bool" for act where
  enter: "h_thread h = Entering \<Longrightarrow>
    queue_step act (s, h) (s, StartNewRequest (h\<lparr>h_thread := Looping\<rparr>))"
| arrive: "t \<in> set (cq_requested h) \<Longrightarrow> \<not> srv_shut h \<Longrightarrow>
    queue_step act (s, h) (s, upd_state t (hs_request_update (\<lambda>_. req))
      (h\<lparr>cq_requested := remove1 t (cq_requested h), cq_events := cq_events h @ [(t, True)]\<rparr>))"
| cancel: "t \<in> set (cq_requested h) \<Longrightarrow> srv_shut h \<Longrightarrow>
    queue_step act (s, h) (s, h\<lparr>cq_requested := remove1 t (cq_requested h),
      cq_events := cq_events h @ [(t, False)]\<rparr>)"
| sent: "t \<in> set (cq_finishing h) \<Longrightarrow>
    queue_step act (s, h) (s, h\<lparr>cq_finishing := remove1 t (cq_finishing h),
      cq_events := cq_events h @ [(t, ok)]\<rparr>)"
| next_event: "h_thread h = Looping \<Longrightarrow> cq_events h = (t, ok) # es \<Longrightarrow>
    Process act t ok (s, h\<lparr>cq_events := es\<rparr>) = Returns sh' \<Longrightarrow>
    queue_step act (s, h) sh'"
| server_shutdown: "queue_step act (s, h) (s, h\<lparr>srv_shut := True\<rparr>)"
| queue_shutdown: "srv_shut h \<Longrightarrow> \<forall>t. step_of h t \<noteq> Some PROCESS \<Longrightarrow> cq_finishing h = [] \<Longrightarrow>
    \<forall>t. (t, True) \<in> set (cq_events h) \<longrightarrow> step_of h t \<noteq> Some START \<Longrightarrow>
    queue_step act (s, h) (s, h\<lparr>cq_shut := True\<rparr>)"
| drained: "h_thread h = Looping \<Longrightarrow> cq_shut h \<Longrightarrow> cq_requested h = [] \<Longrightarrow>
    cq_finishing h = [] \<Longrightarrow> cq_events h = [] \<Longrightarrow>
    queue_step act (s, h) (s, h\<lparr>h_thread := Returned\<rparr>)"

inductive handler_step ::
  "(tag \<Rightarrow> 's \<times> ('req, 'resp) handler \<Rightarrow> ('s \<times> ('req, 'resp) handler) call_result) \<Rightarrow>
   's \<times> ('req, 'resp) handler \<Rightarrow> 's \<times> ('req, 'resp) handler \<Rightarrow> bool" for act where
  queue: "queue_step act sh sh' \<Longrightarrow> handler_step act sh sh'"
| callback: "step_of h t = Some PROCESS \<Longrightarrow>
    handler_step act (s, h) (s, OnCompleted t (set_response t resp h))"
| other: "handler_step act (s, h) (s', h)"

inductive handler_reachable ::
  "(tag \<Rightarrow> 's \<times> ('req, 'resp) handler \<Rightarrow> ('s \<times> ('req, 'resp) handler) call_result) \<Rightarrow>
   'req \<times> 'resp \<Rightarrow> 's \<times> ('req, 'resp) handler \<Rightarrow> bool" for act cleared where
  started: "handler_reachable act cleared (s, Handler_Start (new_handler cleared))"
| step: "handler_reachable act cleared sh \<Longrightarrow> handler_step act sh sh' \<Longrightarrow>
    handler_reachable act cleared sh'"

section \<open>Invariant\<close>

text \<open>
  Every tag gRPC knows is a live state at the step its event expects, every live state is
  awaited exactly once, at most one call is requested at a time, no call is answered
  twice, and once the queue is shut down no call is left that will add work to it.
\<close>

definition cq_tags :: "('req, 'resp) handler \<Rightarrow> tag list" where
  "cq_tags h = cq_requested h @ cq_finishing h @ map fst (cq_events h)"

definition tags_ok :: "('req, 'resp) handler \<Rightarrow> bool" where
  "tags_ok h \<longleftrightarrow> distinct (cq_tags h) \<and>
     (\<forall>t \<in> set (cq_requested h). step_of h t = Some START) \<and>
     (\<forall>t \<in> set (cq_finishing h). step_of h t = Some FINISH) \<and>
     (\<forall>t. step_of h t = Some START \<longrightarrow> t \<in> set (cq_requested h) \<union> fst ` set (cq_events h)) \<and>
     (\<forall>t. step_of h t = Some FINISH \<longrightarrow> t \<in> set (cq_finishing h) \<union> fst ` set (cq_events h)) \<and>
     (\<forall>e \<in> set (cq_events h). step_of h (fst e) \<in> {Some START, Some FINISH}) \<and>
     (\<forall>t. h_next h \<le> t \<longrightarrow> step_of h t = None)"

definition answered :: "('req, 'resp) handler \<Rightarrow> tag list" where
  "answered h = map fst (h_answers h)"

definition answers_ok :: "('req, 'resp) handler \<Rightarrow> bool" where
  "answers_ok h \<longleftrightarrow> distinct (answered h) \<and>
     (\<forall>t \<in> set (answered h). t < h_next h \<and> step_of h t \<in> {None, Some FINISH}) \<and>
     (\<forall>t. step_of h t = Some FINISH \<longrightarrow>
        t \<in> set (answered h)) \<and>
     (\<forall>t < h_next h. step_of h t = None \<longrightarrow> t \<in> set (answered h) \<or> srv_shut h)"

definition one_request :: "('req, 'resp) handler \<Rightarrow> bool" where
  "one_request h \<longleftrightarrow>
     (\<forall>t u. step_of h t = Some START \<longrightarrow> step_of h u = Some START \<longrightarrow> t = u) \<and>
     (h_thread h = Looping \<longrightarrow> \<not> srv_shut h \<longrightarrow> (\<exists>t. step_of h t = Some START)) \<and>
     (h_thread h \<in> {No_Thread, Entering} \<longrightarrow> (\<forall>t. step_of h t = None)) \<and>
     (\<forall>t. (t, False) \<in> set (cq_events h) \<longrightarrow> step_of h t = Some START \<longrightarrow> srv_shut h)"

definition shutdown_ok :: "('req, 'resp) handler \<Rightarrow> bool" where
  "shutdown_ok h \<longleftrightarrow>
     (h_thread h = Returned \<longrightarrow> cq_shut h \<and> (\<forall>t. step_of h t = None)) \<and>
     (cq_shut h \<longrightarrow> srv_shut h \<and> (\<forall>t. step_of h t \<noteq> Some PROCESS) \<and> cq_finishing h = [] \<and>
        (\<forall>t. (t, True) \<in> set (cq_events h) \<longrightarrow> step_of h t \<noteq> Some START))"

definition handler_ok :: "('req, 'resp) handler \<Rightarrow> bool" where
  "handler_ok h \<longleftrightarrow> tags_ok h \<and> answers_ok h \<and> one_request h \<and> shutdown_ok h"

text \<open>What \<open>TakeAction\<close> of every handler keeps: it answers the call or hands it over.\<close>

locale handler_action =
  fixes act :: "tag \<Rightarrow> 's \<times> ('req, 'resp) handler \<Rightarrow> ('s \<times> ('req, 'resp) handler) call_result"
  assumes act_live: "step_of h t = Some PROCESS \<Longrightarrow> act t (s, h) \<noteq> Dangling"
    and act_effect: "step_of h t = Some PROCESS \<Longrightarrow> act t (s, h) = Returns (s', h') \<Longrightarrow>
      \<exists>resp. h' = set_response t resp h \<or> h' = OnCompleted t (set_response t resp h)"

section \<open>The fields after an operation\<close>

lemma upd_state_sel [simp]:
  "h_thread (upd_state t f h) = h_thread h" "h_next (upd_state t f h) = h_next h"
  "cq_requested (upd_state t f h) = cq_requested h" "cq_finishing (upd_state t f h) = cq_finishing h"
  "cq_events (upd_state t f h) = cq_events h" "srv_shut (upd_state t f h) = srv_shut h"
  "cq_shut (upd_state t f h) = cq_shut h" "cq_late (upd_state t f h) = cq_late h"
  "h_answers (upd_state t f h) = h_answers h" "h_cleared (upd_state t f h) = h_cleared h"
  by (simp_all add: upd_state_def)

lemma step_of_upd_request [simp]: "step_of (upd_state t (hs_request_update f) h) u = step_of h u"
  by (simp add: step_of_def upd_state_def option.map_comp o_def)

lemma step_of_set_response [simp]: "step_of (set_response t resp h) u = step_of h u"
  by (simp add: step_of_def set_response_def upd_state_def option.map_comp o_def)

lemma step_of_set_step [simp]:
  "step_of (set_step t st h) u = (if u = t \<and> step_of h t \<noteq> None then Some st else step_of h u)"
  by (auto simp: step_of_def set_step_def upd_state_def)

lemma set_sel [simp]:
  "h_thread (set_step t st h) = h_thread h" "h_next (set_step t st h) = h_next h"
  "cq_requested (set_step t st h) = cq_requested h" "cq_finishing (set_step t st h) = cq_finishing h"
  "cq_events (set_step t st h) = cq_events h" "srv_shut (set_step t st h) = srv_shut h"
  "cq_shut (set_step t st h) = cq_shut h" "cq_late (set_step t st h) = cq_late h"
  "h_answers (set_step t st h) = h_answers h"
  "h_thread (set_response t r h) = h_thread h" "h_next (set_response t r h) = h_next h"
  "cq_requested (set_response t r h) = cq_requested h"
  "cq_finishing (set_response t r h) = cq_finishing h"
  "cq_events (set_response t r h) = cq_events h" "srv_shut (set_response t r h) = srv_shut h"
  "cq_shut (set_response t r h) = cq_shut h" "cq_late (set_response t r h) = cq_late h"
  "h_answers (set_response t r h) = h_answers h"
  by (simp_all add: set_step_def set_response_def)

lemma step_of_fields [simp]:
  "step_of (h\<lparr>cq_requested := a\<rparr>) t = step_of h t" "step_of (h\<lparr>cq_finishing := a\<rparr>) t = step_of h t"
  "step_of (h\<lparr>cq_events := b\<rparr>) t = step_of h t" "step_of (h\<lparr>srv_shut := c\<rparr>) t = step_of h t"
  "step_of (h\<lparr>cq_shut := c\<rparr>) t = step_of h t" "step_of (h\<lparr>cq_late := c\<rparr>) t = step_of h t"
  "step_of (h\<lparr>h_thread := d\<rparr>) t = step_of h t" "step_of (h\<lparr>h_answers := e\<rparr>) t = step_of h t"
  by (simp_all add: step_of_def)

lemma StateRelease_sel [simp]:
  "step_of (StateRelease t h) u = (if u = t then None else step_of h u)"
  "h_thread (StateRelease t h) = h_thread h" "h_next (StateRelease t h) = h_next h"
  "cq_requested (StateRelease t h) = cq_requested h" "cq_finishing (StateRelease t h) = cq_finishing h"
  "cq_events (StateRelease t h) = cq_events h" "srv_shut (StateRelease t h) = srv_shut h"
  "cq_shut (StateRelease t h) = cq_shut h" "cq_late (StateRelease t h) = cq_late h"
  "h_answers (StateRelease t h) = h_answers h"
  by (simp_all add: StateRelease_def step_of_def)

lemma StartNewRequest_sel [simp]:
  "step_of (StartNewRequest h) u = (if u = h_next h then Some START else step_of h u)"
  "h_thread (StartNewRequest h) = h_thread h" "h_next (StartNewRequest h) = Suc (h_next h)"
  "cq_requested (StartNewRequest h) = cq_requested h @ [h_next h]"
  "cq_finishing (StartNewRequest h) = cq_finishing h"
  "cq_events (StartNewRequest h) = cq_events h" "srv_shut (StartNewRequest h) = srv_shut h"
  "cq_shut (StartNewRequest h) = cq_shut h"
  "cq_late (StartNewRequest h) = (cq_late h \<or> cq_shut h)"
  "h_answers (StartNewRequest h) = h_answers h"
  by (simp_all add: StartNewRequest_def StateNew_def Let_def Reset_def step_of_def
      set_step_def upd_state_def)

lemma OnCompleted_sel [simp]:
  "step_of (OnCompleted t h) u = (if u = t \<and> step_of h t \<noteq> None then Some FINISH else step_of h u)"
  "h_thread (OnCompleted t h) = h_thread h" "h_next (OnCompleted t h) = h_next h"
  "cq_requested (OnCompleted t h) = cq_requested h"
  "cq_finishing (OnCompleted t h) = cq_finishing h @ [t]"
  "cq_events (OnCompleted t h) = cq_events h" "srv_shut (OnCompleted t h) = srv_shut h"
  "cq_shut (OnCompleted t h) = cq_shut h"
  "cq_late (OnCompleted t h) = (cq_late h \<or> cq_shut h)"
  "answered (OnCompleted t h) = answered h @ (if step_of h t = None then [] else [t])"
  by (cases "h_states h t";
      simp add: OnCompleted_def Let_def answered_def set_step_def upd_state_def step_of_def)+

lemma answered_simps [simp]:
  "answered (set_step t st h) = answered h" "answered (set_response t r h) = answered h"
  "answered (StartNewRequest h) = answered h" "answered (StateRelease t h) = answered h"
  "answered (upd_state t f h) = answered h"
  "answered (h\<lparr>cq_requested := a\<rparr>) = answered h" "answered (h\<lparr>cq_finishing := a\<rparr>) = answered h"
  "answered (h\<lparr>cq_events := b\<rparr>) = answered h" "answered (h\<lparr>srv_shut := c\<rparr>) = answered h"
  "answered (h\<lparr>cq_shut := c\<rparr>) = answered h" "answered (h\<lparr>h_thread := d\<rparr>) = answered h"
  by (simp_all add: answered_def)

section \<open>The invariant is kept\<close>

lemmas handler_ok_defs = handler_ok_def tags_ok_def answers_ok_def one_request_def shutdown_ok_def
  cq_tags_def

lemma handler_ok_init: "handler_ok (Handler_Start (new_handler cleared))"
  by (simp add: handler_ok_defs Handler_Start_def new_handler_def step_of_def answered_def)

lemma tags_live:
  assumes "handler_ok h" "t \<in> set (cq_tags h)"
  shows "step_of h t = Some START \<or> step_of h t = Some FINISH" "t < h_next h"
proof -
  show st: "step_of h t = Some START \<or> step_of h t = Some FINISH"
    using assms by (auto simp: handler_ok_def tags_ok_def cq_tags_def)
  show "t < h_next h"
    using assms(1) st by (cases "h_next h \<le> t") (auto simp: handler_ok_def tags_ok_def)
qed

lemma enter_ok:
  assumes "handler_ok h" "h_thread h = Entering"
  shows "handler_ok (StartNewRequest (h\<lparr>h_thread := Looping\<rparr>))"
proof -
  have none: "step_of h t = None" for t
    using assms by (simp add: handler_ok_def one_request_def)
  have "cq_tags h = []"
    using tags_live [OF assms(1), of "hd (cq_tags h)"] none by (cases "cq_tags h") auto
  then have nil: "cq_requested h = []" "cq_finishing h = []" "cq_events h = []"
    by (auto simp: cq_tags_def)
  have "\<forall>t \<in> set (answered h). t < h_next h" "distinct (answered h)" "cq_shut h \<longrightarrow> srv_shut h"
    "\<forall>t < h_next h. t \<in> set (answered h) \<or> srv_shut h"
    using assms(1) none by (auto simp: handler_ok_def answers_ok_def shutdown_ok_def)
  then show ?thesis
    using assms(2) nil none by (auto simp: handler_ok_defs less_Suc_eq)
qed

lemma begin_call_ok:
  assumes "handler_ok h" "cq_events h = (t, True) # es" "step_of h t = Some START"
  defines "h' \<equiv> set_step t PROCESS (StartNewRequest (set_step t START (h\<lparr>cq_events := es\<rparr>)))"
  shows "handler_ok h'" "step_of h' t = Some PROCESS"
proof -
  have t: "t < h_next h"
    using tags_live [OF assms(1), of t] assms(2) by (simp add: cq_tags_def)
  have only: "step_of h u = Some START \<longleftrightarrow> u = t" for u
    using assms(1,3) unfolding handler_ok_def one_request_def by blast
  have new: "step_of h (h_next h) = None" "h_next h \<notin> set (cq_tags h)"
    using assms(1) tags_live [OF assms(1), of "h_next h"] by (auto simp: handler_ok_def tags_ok_def)
  have open1: "\<not> cq_shut h" "h_thread h \<noteq> Returned" "h_thread h \<noteq> No_Thread" "h_thread h \<noteq> Entering"
    using assms(1-3) by (auto simp: handler_ok_def shutdown_ok_def one_request_def)
  have st: "step_of h' u = (if u = h_next h then Some START else if u = t then Some PROCESS
      else step_of h u)" for u
    using t new assms(3) by (auto simp: h'_def)
  have f: "cq_requested h' = cq_requested h @ [h_next h]" "cq_finishing h' = cq_finishing h"
    "cq_events h' = es" "h_next h' = Suc (h_next h)" "answered h' = answered h"
    "srv_shut h' = srv_shut h" "cq_shut h' = cq_shut h" "h_thread h' = h_thread h"
    by (simp_all add: h'_def)
  show "step_of h' t = Some PROCESS"
    using st t by simp
  have dist: "distinct (cq_tags h)" and tg: "tags_ok h"
    using assms(1) by (auto simp: handler_ok_def tags_ok_def)
  have tn: "t \<notin> set (cq_requested h)" "t \<notin> set (cq_finishing h)" "t \<notin> fst ` set es"
    "h_next h \<notin> fst ` set es" "(h_next h, False) \<notin> set es"
    using dist new assms(2) by (auto simp: cq_tags_def image_iff)
  have nil: "cq_requested h = []"
    using tg only tn(1) unfolding tags_ok_def by (metis list.set_intros(1) list.exhaust)
  have "tags_ok h'"
    unfolding tags_ok_def cq_tags_def f st
  proof (intro conjI)
    show "distinct ((cq_requested h @ [h_next h]) @ cq_finishing h @ map fst es)"
      using dist new assms(2) by (auto simp: cq_tags_def)
    show "\<forall>e \<in> set es. (if fst e = h_next h then Some START else if fst e = t then Some PROCESS
        else step_of h (fst e)) \<in> {Some START, Some FINISH}"
      using tg assms(2) tn by (auto simp: tags_ok_def)
    show "\<forall>u. (if u = h_next h then Some START else if u = t then Some PROCESS
        else step_of h u) = Some FINISH \<longrightarrow> u \<in> set (cq_finishing h) \<union> fst ` set es"
      using tg assms(2) by (auto simp: tags_ok_def)
    show "\<forall>u. Suc (h_next h) \<le> u \<longrightarrow> (if u = h_next h then Some START else if u = t then Some PROCESS
        else step_of h u) = None"
      using tg t by (auto simp: tags_ok_def)
    show "\<forall>u \<in> set (cq_finishing h). (if u = h_next h then Some START else if u = t then Some PROCESS
        else step_of h u) = Some FINISH"
      using tg tn new by (auto simp: tags_ok_def cq_tags_def)
  qed (use nil only in auto)
  moreover have "answers_ok h'"
    using assms(1,3) new(1) unfolding handler_ok_def answers_ok_def f st
    by (auto simp: less_Suc_eq)
  moreover have "one_request h'"
    using assms(1,2) only tn t open1 unfolding handler_ok_def one_request_def f st
    by (auto split: if_splits intro!: exI [of _ "h_next h"])
  moreover have "shutdown_ok h'"
    using open1 by (simp add: shutdown_ok_def f)
  ultimately show "handler_ok h'"
    by (simp add: handler_ok_def)
qed

lemma set_response_ok: "handler_ok h \<Longrightarrow> handler_ok (set_response t resp h)"
  by (simp add: handler_ok_defs)

lemma complete_ok:
  assumes "handler_ok h" "step_of h t = Some PROCESS"
  shows "handler_ok (OnCompleted t h)"
proof -
  have tg: "tags_ok h" and dist: "distinct (cq_tags h)" and t: "t < h_next h"
    using assms by (auto simp: handler_ok_def tags_ok_def not_le [symmetric])
  have tn: "t \<notin> set (cq_tags h)"
    using tags_live [OF assms(1), of t] assms(2) by auto
  have open1: "\<not> cq_shut h" "h_thread h \<noteq> Returned" "h_thread h \<noteq> No_Thread" "h_thread h \<noteq> Entering"
    using assms by (auto simp: handler_ok_def shutdown_ok_def one_request_def)
  have st: "step_of (OnCompleted t h) u = (if u = t then Some FINISH else step_of h u)" for u
    using assms(2) by simp
  have "tags_ok (OnCompleted t h)"
    using tg dist tn t unfolding tags_ok_def st by (auto simp: cq_tags_def)
  moreover have "answers_ok (OnCompleted t h)"
    using assms t unfolding handler_ok_def answers_ok_def st by auto
  moreover have "one_request (OnCompleted t h)"
    using assms open1 unfolding handler_ok_def one_request_def st
    by auto (metis call_step.distinct(1) option.inject)
  moreover have "shutdown_ok (OnCompleted t h)"
    using open1 by (simp add: shutdown_ok_def)
  ultimately show ?thesis
    by (simp add: handler_ok_def)
qed

lemma release_ok:
  assumes "handler_ok h" "h_thread h = Looping" "cq_events h = (t, ok) # es"
    "step_of h t = Some FINISH \<or> (step_of h t = Some START \<and> \<not> ok)"
  shows "handler_ok (StateRelease t (set_step t FINISH (h\<lparr>cq_events := es\<rparr>)))" (is "handler_ok ?h")
proof -
  have st: "step_of ?h u = (if u = t then None else step_of h u)" for u
    by simp
  have tg: "tags_ok h" and dist: "distinct (cq_tags h)"
    using assms by (auto simp: handler_ok_def tags_ok_def)
  have tn: "t \<notin> set (cq_requested h)" "t \<notin> set (cq_finishing h)" "t \<notin> fst ` set es"
    using dist assms(3) by (auto simp: cq_tags_def)
  have shut: "step_of h t = Some START \<Longrightarrow> srv_shut h"
    using assms unfolding handler_ok_def one_request_def by auto
  have "tags_ok ?h"
    using tg dist tn assms(3) unfolding tags_ok_def st by (auto simp: cq_tags_def)
  moreover have "answers_ok ?h"
    using assms(1,4) shut unfolding handler_ok_def answers_ok_def st by auto
  moreover have "one_request ?h"
    using assms(1-4) shut unfolding handler_ok_def one_request_def st
    by auto (metis call_step.distinct(3) option.inject)
  moreover have "shutdown_ok ?h"
    using assms(1-3) unfolding handler_ok_def shutdown_ok_def st by auto
  ultimately show ?thesis
    by (simp add: handler_ok_def)
qed

text \<open>What gRPC does to the queue.\<close>

lemma move_tag:
  assumes "distinct (a @ b @ c)" "t \<in> set a"
  shows "distinct (remove1 t a @ b @ c @ [t])" "set (remove1 t a) = set a - {t}"
  using assms by auto

lemma arrive_ok:
  assumes "handler_ok h" "t \<in> set (cq_requested h)" "ok \<longleftrightarrow> \<not> srv_shut h"
  shows "handler_ok (h\<lparr>cq_requested := remove1 t (cq_requested h),
    cq_events := cq_events h @ [(t, ok)]\<rparr>)"
proof -
  have "distinct (cq_requested h @ cq_finishing h @ map fst (cq_events h))"
    using assms(1) by (simp add: handler_ok_def tags_ok_def cq_tags_def)
  from move_tag [OF this assms(2)] show ?thesis
    using assms unfolding handler_ok_defs by auto
qed

lemma sent_ok:
  assumes "handler_ok h" "t \<in> set (cq_finishing h)"
  shows "handler_ok (h\<lparr>cq_finishing := remove1 t (cq_finishing h),
    cq_events := cq_events h @ [(t, ok)]\<rparr>)"
proof -
  have "distinct (cq_finishing h @ cq_requested h @ map fst (cq_events h))"
    using assms(1) by (auto simp: handler_ok_def tags_ok_def cq_tags_def)
  from move_tag [OF this assms(2)] show ?thesis
    using assms unfolding handler_ok_defs by auto
qed

lemma request_ok: "handler_ok h \<Longrightarrow> handler_ok (upd_state t (hs_request_update f) h)"
  by (simp add: handler_ok_defs)

lemma server_shutdown_ok: "handler_ok h \<Longrightarrow> handler_ok (h\<lparr>srv_shut := True\<rparr>)"
  by (auto simp: handler_ok_defs)

lemma queue_shutdown_ok:
  "handler_ok h \<Longrightarrow> srv_shut h \<Longrightarrow> \<forall>t. step_of h t \<noteq> Some PROCESS \<Longrightarrow> cq_finishing h = [] \<Longrightarrow>
   \<forall>t. (t, True) \<in> set (cq_events h) \<longrightarrow> step_of h t \<noteq> Some START \<Longrightarrow> handler_ok (h\<lparr>cq_shut := True\<rparr>)"
  by (simp add: handler_ok_defs)

lemma drained_ok:
  assumes "handler_ok h" "cq_shut h" "cq_requested h = []" "cq_finishing h = []" "cq_events h = []"
  shows "handler_ok (h\<lparr>h_thread := Returned\<rparr>)"
proof -
  have "step_of h t = None" for t
    using assms by (cases "step_of h t"; cases "the (step_of h t)") (auto simp: handler_ok_defs)
  then show ?thesis
    using assms by (simp add: handler_ok_defs)
qed

context handler_action
begin

text \<open>An event never uses a freed state, and \<open>Process\<close> keeps the invariant.\<close>

lemma process_live:
  assumes "handler_ok h" "cq_events h = (t, ok) # es"
  shows "Process act t ok (s, h\<lparr>cq_events := es\<rparr>) \<noteq> Dangling"
proof -
  from tags_live(1) [OF assms(1), of t] assms(2) obtain st where st: "h_states h t = Some st"
    by (auto simp: cq_tags_def step_of_def)
  have "ok \<and> hs_step st = START \<Longrightarrow>
      act t (s, set_step t PROCESS (StartNewRequest (set_step t START (h\<lparr>cq_events := es\<rparr>)))) \<noteq> Dangling"
    using begin_call_ok(2) [OF assms(1), of t es] assms(2) st act_live by (simp add: step_of_def)
  then show ?thesis
    using st by (auto simp: Process_def Let_def split: call_step.split)
qed

lemma process_ok:
  assumes "handler_ok h" "h_thread h = Looping" "cq_events h = (t, ok) # es"
    "Process act t ok (s, h\<lparr>cq_events := es\<rparr>) = Returns (s', h')"
  shows "handler_ok h'"
proof -
  from tags_live(1) [OF assms(1), of t] assms(3) obtain st where st: "h_states h t = Some st"
    "hs_step st = START \<or> hs_step st = FINISH"
    by (auto simp: cq_tags_def step_of_def)
  let ?h = "set_step t PROCESS (StartNewRequest (set_step t START (h\<lparr>cq_events := es\<rparr>)))"
  show ?thesis
  proof (cases "ok \<and> hs_step st = START")
    case True
    then have new: "handler_ok ?h" "step_of ?h t = Some PROCESS"
      using begin_call_ok [OF assms(1), of t es] assms(3) st by (simp_all add: step_of_def)
    have "act t (s, ?h) = Returns (s', h')"
      using assms(4) True st by (simp add: Process_def Let_def)
    from act_effect [OF new(2) this] obtain resp where
      "h' = set_response t resp ?h \<or> h' = OnCompleted t (set_response t resp ?h)"
      by blast
    then show ?thesis
      using set_response_ok [OF new(1), of t resp] complete_ok [of "set_response t resp ?h" t] new(2)
      by auto
  next
    case False
    then have "h' = StateRelease t (set_step t FINISH (h\<lparr>cq_events := es\<rparr>))"
      using assms(4) st by (auto simp: Process_def Let_def)
    then show ?thesis
      using release_ok [OF assms(1-3)] False st by (auto simp: step_of_def)
  qed
qed

text \<open>An answer is never taken back.\<close>

lemma process_answered:
  assumes "Process act t ok (s, h) = Returns (s', h')"
  shows "set (answered h) \<subseteq> set (answered h')"
proof -
  obtain st where st: "h_states h t = Some st"
    using assms by (cases "h_states h t") (simp_all add: Process_def)
  let ?h = "set_step t PROCESS (StartNewRequest (set_step t START h))"
  show ?thesis
  proof (cases "ok \<and> hs_step st = START")
    case True
    then have "act t (s, ?h) = Returns (s', h')"
      using assms st by (simp add: Process_def Let_def)
    moreover have "step_of ?h t = Some PROCESS"
      using st by (simp add: step_of_def [of h])
    ultimately show ?thesis
      using act_effect by fastforce
  next
    case False
    then show ?thesis
      using assms st by (cases "hs_step st") (auto simp: Process_def Let_def split: if_splits)
  qed
qed

lemma queue_step_answered:
  assumes "queue_step act (s, h) (s', h')"
  shows "set (answered h) \<subseteq> set (answered h')"
  using assms by cases (use process_answered in fastforce)+

lemma queue_step_ok:
  assumes "queue_step act (s, h) (s', h')" "handler_ok h"
  shows "handler_ok h'"
  using assms(1)
proof cases
  case enter
  then show ?thesis
    using enter_ok [OF assms(2)] by simp
next
  case (next_event t ok es)
  then show ?thesis
    using process_ok [OF assms(2)] by simp
next
  case (arrive t req)
  then show ?thesis
    using request_ok [OF arrive_ok [OF assms(2), of t True]] by simp
next
  case (cancel t)
  then show ?thesis
    using arrive_ok [OF assms(2), of t False] by simp
next
  case (sent t ok)
  then show ?thesis
    using sent_ok [OF assms(2)] by simp
next
  case server_shutdown
  then show ?thesis
    using server_shutdown_ok [OF assms(2)] by simp
next
  case queue_shutdown
  then show ?thesis
    using queue_shutdown_ok [OF assms(2)] by simp
next
  case drained
  then show ?thesis
    using drained_ok [OF assms(2)] by simp
qed

lemma step_ok:
  assumes "handler_step act (s, h) (s', h')" "handler_ok h"
  shows "handler_ok h'"
  using assms(1)
proof cases
  case queue
  then show ?thesis
    using queue_step_ok assms(2) by blast
next
  case (callback t resp)
  then show ?thesis
    using complete_ok [of "set_response t resp h" t] set_response_ok [OF assms(2)] by simp
next
  case other
  then show ?thesis
    using assms(2) by simp
qed

lemma reachable_ok: "handler_reachable act cleared (s, h) \<Longrightarrow> handler_ok h"
proof (induction "(s, h)" arbitrary: s h rule: handler_reachable.induct)
  case started
  show ?case
    by (rule handler_ok_init)
next
  case (step sh)
  then show ?case
    using step_ok by (cases sh) auto
qed

text \<open>Work added to a queue that is shut down: only by a thread that had not started.\<close>

lemma queue_step_not_late:
  assumes "queue_step act (s, h) (s', h')" "handler_ok h"
    "\<not> cq_late h" "h_thread h \<in> {Looping, Returned}"
  shows "\<not> cq_late h' \<and> h_thread h' \<in> {Looping, Returned}"
  using assms(1)
proof cases
  case (next_event t ok es)
  from tags_live(1) [OF assms(2), of t] next_event(2) obtain st where st: "h_states h t = Some st"
    by (auto simp: cq_tags_def step_of_def)
  let ?h = "set_step t PROCESS (StartNewRequest (set_step t START (h\<lparr>cq_events := es\<rparr>)))"
  show ?thesis
  proof (cases "ok \<and> hs_step st = START")
    case True
    then have new: "step_of ?h t = Some PROCESS" "\<not> cq_shut h"
      using begin_call_ok(2) [OF assms(2), of t es] next_event(2) st assms(2)
      by (auto simp: step_of_def handler_ok_def shutdown_ok_def)
    have "act t (s, ?h) = Returns (s', h')"
      using next_event(3) True st by (simp add: Process_def Let_def)
    from act_effect [OF new(1) this] show ?thesis
      using assms(3,4) new(2) by auto
  next
    case False
    then show ?thesis
      using next_event(3) st assms(3,4)
      by (cases "hs_step st") (auto simp: Process_def Let_def)
  qed
qed (use assms(3,4) in auto)

lemma step_not_late:
  assumes "handler_step act (s, h) (s', h')" "handler_ok h"
    "\<not> cq_late h" "h_thread h \<in> {Looping, Returned}"
  shows "\<not> cq_late h' \<and> h_thread h' \<in> {Looping, Returned}"
  using assms(1)
proof cases
  case queue
  then show ?thesis
    using queue_step_not_late assms(2-4) by blast
next
  case (callback t resp)
  then have "\<not> cq_shut h"
    using assms(2) by (auto simp: handler_ok_def shutdown_ok_def)
  then show ?thesis
    using callback assms(3,4) by simp
qed (use assms(3,4) in auto)

lemma step_late_shut:
  assumes "handler_step act (s, h) (s', h')" "handler_ok h" "cq_late h \<longrightarrow> cq_shut h"
  shows "(cq_late h' \<longrightarrow> cq_shut h') \<and> (cq_shut h \<longrightarrow> cq_shut h')"
  using assms(1)
proof cases
  case queue
  then show ?thesis
  proof cases
    case (next_event t ok es)
    from tags_live(1) [OF assms(2), of t] next_event(2) obtain st where st: "h_states h t = Some st"
      by (auto simp: cq_tags_def step_of_def)
    let ?h = "set_step t PROCESS (StartNewRequest (set_step t START (h\<lparr>cq_events := es\<rparr>)))"
    show ?thesis
    proof (cases "ok \<and> hs_step st = START")
      case True
      then have new: "step_of ?h t = Some PROCESS"
        using begin_call_ok(2) [OF assms(2), of t es] next_event(2) st by (simp add: step_of_def)
      have "act t (s, ?h) = Returns (s', h')"
        using next_event(3) True st by (simp add: Process_def Let_def)
      from act_effect [OF new this] show ?thesis
        using assms(3) by auto
    next
      case False
      then show ?thesis
        using next_event(3) st assms(3)
        by (cases "hs_step st") (auto simp: Process_def Let_def)
    qed
  qed (use assms(3) in auto)
qed (use assms(3) in auto)

lemma reachable_late_shut:
  "handler_reachable act cleared sh \<Longrightarrow> cq_late (snd sh) \<longrightarrow> cq_shut (snd sh)"
proof (induction rule: handler_reachable.induct)
  case (started s)
  show ?case
    by (simp add: Handler_Start_def new_handler_def)
next
  case (step sh sh')
  then show ?case
    using step_late_shut [of "fst sh" "snd sh" "fst sh'" "snd sh'"]
      reachable_ok [of cleared "fst sh" "snd sh"] by simp
qed

lemma steps_not_late:
  assumes "(handler_step act)\<^sup>*\<^sup>* sh sh'" "handler_ok (snd sh)"
    "\<not> cq_late (snd sh)" "h_thread (snd sh) \<in> {Looping, Returned}"
  shows "handler_ok (snd sh') \<and> \<not> cq_late (snd sh') \<and> h_thread (snd sh') \<in> {Looping, Returned}"
  using assms
proof (induction rule: rtranclp_induct)
  case (step b c)
  then show ?case
    using step_ok [of "fst b" "snd b" "fst c" "snd c"] step_not_late [of "fst b" "snd b" "fst c" "snd c"]
    by simp
qed simp

text \<open>A queue that is shut down drains, the thread returns, and no state is left.\<close>

lemma drains:
  assumes "handler_ok h" "cq_shut h" "h_thread h = Looping"
  shows "\<exists>h'. (queue_step act)\<^sup>*\<^sup>* (s, h) (s, h') \<and> h_thread h' = Returned \<and>
     (\<forall>t. h_states h' t = None)"
  using assms
proof (induction "2 * length (cq_requested h) + length (cq_events h)" arbitrary: h rule: less_induct)
  case less
  have fin: "cq_finishing h = []" "srv_shut h" "\<And>t. step_of h t \<noteq> Some PROCESS"
    "\<And>t. (t, True) \<in> set (cq_events h) \<Longrightarrow> step_of h t \<noteq> Some START"
    using less.prems by (auto simp: handler_ok_def shutdown_ok_def)
  have via: ?case if "queue_step act (s, h) (s, h1)" "cq_shut h1" "h_thread h1 = Looping"
    "2 * length (cq_requested h1) + length (cq_events h1) <
     2 * length (cq_requested h) + length (cq_events h)" for h1
    using less.hyps [OF that(4) queue_step_ok [OF that(1) less.prems(1)] that(2,3)] that(1)
    by (meson converse_rtranclp_into_rtranclp)
  show ?case
  proof (cases "cq_requested h")
    case (Cons t ts)
    then show ?thesis
      using fin less.prems
      by (intro via [OF queue_step.cancel [of t h]]) auto
  next
    case Nil
    show ?thesis
    proof (cases "cq_events h")
      case Nil
      have d: "queue_step act (s, h) (s, h\<lparr>h_thread := Returned\<rparr>)"
        using \<open>cq_requested h = []\<close> Nil fin(1) less.prems by (intro queue_step.drained) auto
      have "\<forall>t. h_states (h\<lparr>h_thread := Returned\<rparr>) t = None"
        using queue_step_ok [OF d less.prems(1)] by (simp add: handler_ok_def shutdown_ok_def step_of_def)
      then show ?thesis
        using d by (intro exI [of _ "h\<lparr>h_thread := Returned\<rparr>"]) auto
    next
      case (Cons e es)
      obtain t ok where e: "e = (t, ok)" by (cases e)
      from tags_live(1) [OF less.prems(1), of t] Cons e obtain st where
        st: "h_states h t = Some st" "hs_step st = FINISH \<or> \<not> ok \<and> hs_step st = START"
        using fin(4) [of t] by (cases ok) (auto simp: cq_tags_def step_of_def)
      let ?h1 = "StateRelease t (set_step t FINISH (h\<lparr>cq_events := es\<rparr>))"
      have "Process act t ok (s, h\<lparr>cq_events := es\<rparr>) = Returns (s, ?h1)"
        using st by (auto simp: Process_def Let_def)
      then have "queue_step act (s, h) (s, ?h1)"
        using Cons e less.prems by (intro queue_step.next_event) auto
      then show ?thesis
        using Cons less.prems by (intro via [of ?h1]) auto
    qed
  qed
qed

end

end
