(* ===== verification/Rpc_Progress.thy ===== *)
theory Rpc_Progress
  imports Rpc_Handler
begin

text \<open>
  Progress of the template \<open>Handler\<close>: the steps of its loop and of gRPC without the two
  shutdowns, what they leave alone, that a handler which answers at once settles its
  calls, and that the loop of a queue that is shut down comes to its end.
\<close>

section \<open>Steps that are not a shutdown\<close>

definition same_flags :: "('req, 'resp) handler \<Rightarrow> ('req, 'resp) handler \<Rightarrow> bool" where
  "same_flags h h' \<longleftrightarrow> srv_shut h' = srv_shut h \<and> cq_shut h' = cq_shut h"

definition loop_step ::
  "(tag \<Rightarrow> 's \<times> ('req, 'resp) handler \<Rightarrow> ('s \<times> ('req, 'resp) handler) call_result) \<Rightarrow>
   's \<times> ('req, 'resp) handler \<Rightarrow> 's \<times> ('req, 'resp) handler \<Rightarrow> bool" where
  "loop_step act sh sh' \<longleftrightarrow> queue_step act sh sh' \<and> same_flags (snd sh) (snd sh')"

text \<open>
  What \<open>Server::Shutdown\<close> waits for: no call is in progress, none is being answered, and
  none has arrived that the loop has not seen.
\<close>

definition calls_over :: "('req, 'resp) handler \<Rightarrow> bool" where
  "calls_over h \<longleftrightarrow> (\<forall>t. step_of h t \<noteq> Some PROCESS) \<and> cq_finishing h = [] \<and>
     (\<forall>t. (t, True) \<in> set (cq_events h) \<longrightarrow> step_of h t \<noteq> Some START)"

definition no_process :: "('req, 'resp) handler \<Rightarrow> bool" where
  "no_process h \<longleftrightarrow> (\<forall>t. step_of h t \<noteq> Some PROCESS)"

lemma shut_calls_over: "handler_ok h \<Longrightarrow> cq_shut h \<Longrightarrow> calls_over h"
  by (simp add: handler_ok_def shutdown_ok_def calls_over_def)

text \<open>While the queue is open the loop is at its start or runs.\<close>

lemma open_thread:
  assumes "handler_ok h" "\<not> cq_shut h" "h_thread h \<noteq> No_Thread"
  shows "h_thread h \<in> {Entering, Looping}"
  using assms by (cases "h_thread h") (auto simp: handler_ok_def shutdown_ok_def)

lemma enter_loop_step:
  "h_thread h = Entering \<Longrightarrow> loop_step act (s, h) (s, StartNewRequest (h\<lparr>h_thread := Looping\<rparr>))"
  by (simp add: loop_step_def same_flags_def queue_step.enter)

lemma sent_loop_step:
  "t \<in> set (cq_finishing h) \<Longrightarrow>
   loop_step act (s, h) (s, h\<lparr>cq_finishing := remove1 t (cq_finishing h),
     cq_events := cq_events h @ [(t, ok)]\<rparr>)"
  by (simp add: loop_step_def same_flags_def queue_step.sent)

context handler_action
begin

lemma process_frame:
  assumes "handler_ok h" "cq_events h = (t, ok) # es"
    "Process act t ok (s, h\<lparr>cq_events := es\<rparr>) = Returns (s', h')"
  shows "same_flags h h' \<and> h_thread h' = h_thread h \<and> cq_events h' = es"
proof -
  from tags_live(1) [OF assms(1), of t] assms(2) obtain st where st: "h_states h t = Some st"
    by (auto simp: cq_tags_def step_of_def)
  let ?h = "set_step t PROCESS (StartNewRequest (set_step t START (h\<lparr>cq_events := es\<rparr>)))"
  show ?thesis
  proof (cases "ok \<and> hs_step st = START")
    case True
    then have "act t (s, ?h) = Returns (s', h')" "step_of ?h t = Some PROCESS"
      using begin_call_ok(2) [OF assms(1), of t es] assms(2,3) st
      by (simp_all add: Process_def Let_def step_of_def)
    from act_effect [OF this(2,1)] show ?thesis
      by (auto simp: same_flags_def)
  next
    case False
    then show ?thesis
      using assms(3) st by (cases "hs_step st") (auto simp: Process_def Let_def same_flags_def)
  qed
qed

lemma next_loop_step:
  assumes "handler_ok h" "h_thread h = Looping" "cq_events h = (t, ok) # es"
    "Process act t ok (s, h\<lparr>cq_events := es\<rparr>) = Returns (s', h')"
  shows "loop_step act (s, h) (s', h')" "handler_ok h'" "h_thread h' = Looping" "cq_events h' = es"
    "same_flags h h'"
  using process_frame [OF assms(1,3,4)] process_ok [OF assms] queue_step.next_event [OF assms(2-4)] assms(2)
  by (simp_all add: loop_step_def)

lemma loop_step_thread:
  assumes "loop_step act (s, h) (s', h')" "handler_ok h" "h_thread h \<noteq> No_Thread"
  shows "h_thread h' \<noteq> No_Thread"
proof -
  from assms(1) have "queue_step act (s, h) (s', h')"
    by (simp add: loop_step_def)
  then show ?thesis
  proof cases
    case (next_event t ok es)
    then show ?thesis
      using process_frame [OF assms(2)] assms(3) by metis
  qed (use assms(3) in auto)
qed

text \<open>When the loop has seen every event and no call is in progress, gRPC sends the answers.\<close>

lemma send_answers:
  assumes "handler_ok h" "no_process h" "h_thread h = Looping" "\<forall>e \<in> set (cq_events h). step_of h (fst e) = Some FINISH"
  shows "\<exists>h'. (loop_step act)\<^sup>*\<^sup>* (s, h) (s, h') \<and> handler_ok h' \<and> calls_over h' \<and>
     h_thread h' = Looping \<and> same_flags h h'"
  using assms
proof (induction "length (cq_finishing h)" arbitrary: h)
  case 0
  then show ?case
    by (intro exI [of _ h]) (auto simp: calls_over_def no_process_def same_flags_def)
next
  case (Suc n)
  then obtain t ts where fin: "cq_finishing h = t # ts"
    by (cases "cq_finishing h") auto
  let ?h = "h\<lparr>cq_finishing := remove1 t (cq_finishing h), cq_events := cq_events h @ [(t, True)]\<rparr>"
  have step: "loop_step act (s, h) (s, ?h)"
    using fin by (intro sent_loop_step) simp
  have t: "step_of h t = Some FINISH"
    using Suc.prems(1) fin by (simp add: handler_ok_def tags_ok_def)
  have "n = length (cq_finishing ?h)" "handler_ok ?h" "no_process ?h" "h_thread ?h = Looping"
    "\<forall>e \<in> set (cq_events ?h). step_of ?h (fst e) = Some FINISH"
    using Suc.hyps(2) Suc.prems fin t sent_ok [OF Suc.prems(1), of t True] by (auto simp: no_process_def)
  from Suc.hyps(1) [OF this] obtain h' where h': "(loop_step act)\<^sup>*\<^sup>* (s, ?h) (s, h')"
    "handler_ok h'" "calls_over h'" "h_thread h' = Looping" "same_flags ?h h'"
    by blast
  then show ?case
    using converse_rtranclp_into_rtranclp [of "loop_step act", OF step h'(1)]
    by (intro exI [of _ h']) (simp add: same_flags_def)
qed

text \<open>The drain of a queue that is shut down, by steps that leave the flags.\<close>

lemma queue_step_flags:
  assumes "queue_step act (s, h) (s', h')" "handler_ok h" "cq_shut h"
  shows "same_flags h h'"
  using assms(1)
proof cases
  case (next_event t ok es)
  then show ?thesis
    using process_frame [OF assms(2)] by blast
next
  case server_shutdown
  then show ?thesis
    using assms(2,3) by (simp add: same_flags_def handler_ok_def shutdown_ok_def)
next
  case queue_shutdown
  then show ?thesis
    using assms(3) by (simp add: same_flags_def)
qed (auto simp: same_flags_def)

lemma drains_by_loop:
  assumes ok: "handler_ok h" and shut: "cq_shut h" and thr: "h_thread h \<in> {Looping, Returned}"
  shows "\<exists>h'. (loop_step act)\<^sup>*\<^sup>* (s, h) (s, h') \<and> h_thread h' = Returned \<and> (\<forall>t. h_states h' t = None)"
proof (cases "h_thread h = Returned")
  case True
  then have "\<forall>t. h_states h t = None"
    using ok by (auto simp: handler_ok_def shutdown_ok_def step_of_def)
  then show ?thesis
    using True by blast
next
  case False
  then have "h_thread h = Looping"
    using thr by simp
  from drains [OF ok shut this, of s] obtain h' where
    h': "(queue_step act)\<^sup>*\<^sup>* (s, h) (s, h')" "h_thread h' = Returned" "\<forall>t. h_states h' t = None"
    by blast
  have "(loop_step act)\<^sup>*\<^sup>* (s, h) x \<and> handler_ok (snd x) \<and> cq_shut (snd x)"
    if "(queue_step act)\<^sup>*\<^sup>* (s, h) x" for x
    using that
  proof (induction rule: rtranclp_induct)
    case base
    then show ?case
      using ok shut by simp
  next
    case (step y z)
    have f: "same_flags (snd y) (snd z)" "handler_ok (snd z)"
      using queue_step_flags [of "fst y" "snd y" "fst z" "snd z"]
        queue_step_ok [of "fst y" "snd y" "fst z" "snd z"] step by simp_all
    then have "loop_step act y z"
      using step.hyps(2) by (simp add: loop_step_def)
    then show ?case
      using step.IH f by (auto simp: same_flags_def)
  qed
  then show ?thesis
    using h' by blast
qed

end

section \<open>Handlers that answer at once\<close>

text \<open>
  What the status and the health handler promise: their action answers the call with a
  response that is \<open>good\<close>, and leaves the server behind it. This gives the contract
  \<open>handler_action\<close>.
\<close>

locale handler_sync =
  fixes act :: "tag \<Rightarrow> 's \<times> ('req, 'resp) handler \<Rightarrow> ('s \<times> ('req, 'resp) handler) call_result"
    and good :: "'resp \<Rightarrow> bool"
  assumes act_answers: "step_of h t = Some PROCESS \<Longrightarrow>
    \<exists>resp. good resp \<and> act t (s, h) = Returns (s, OnCompleted t (set_response t resp h))"

sublocale handler_sync \<subseteq> handler_action act
proof
  fix h :: "('req, 'resp) handler" and t and s :: 's
  assume "step_of h t = Some PROCESS"
  from act_answers [OF this] show "act t (s, h) \<noteq> Dangling"
    by (metis call_result.distinct(5))
next
  fix h h' :: "('req, 'resp) handler" and t and s s' :: 's
  assume "step_of h t = Some PROCESS" "act t (s, h) = Returns (s', h')"
  then show "\<exists>resp. h' = set_response t resp h \<or> h' = OnCompleted t (set_response t resp h)"
    using act_answers [of h t s] by auto
qed

definition all_answers :: "('resp \<Rightarrow> bool) \<Rightarrow> ('req, 'resp) handler \<Rightarrow> bool" where
  "all_answers P h \<longleftrightarrow> (\<forall>a \<in> set (h_answers h). P (snd a))"

lemma all_answers_simps [simp]:
  "all_answers P (StartNewRequest h) = all_answers P h" "all_answers P (set_step t st h) = all_answers P h"
  "all_answers P (StateRelease t h) = all_answers P h" "all_answers P (upd_state t f h) = all_answers P h"
  "all_answers P (h\<lparr>cq_requested := a\<rparr>) = all_answers P h" "all_answers P (h\<lparr>cq_finishing := a\<rparr>) = all_answers P h"
  "all_answers P (h\<lparr>cq_events := b\<rparr>) = all_answers P h" "all_answers P (h\<lparr>srv_shut := c\<rparr>) = all_answers P h"
  "all_answers P (h\<lparr>cq_shut := c\<rparr>) = all_answers P h" "all_answers P (h\<lparr>h_thread := d\<rparr>) = all_answers P h"
  by (simp_all add: all_answers_def)

lemma answer_sel:
  assumes "step_of h t \<noteq> None"
  shows "h_answers (OnCompleted t (set_response t resp h)) = h_answers h @ [(t, resp)]"
  using assms by (auto simp: OnCompleted_def Let_def set_response_def set_step_def upd_state_def step_of_def)

context handler_sync
begin

lemma process_answers:
  assumes "handler_ok h" "no_process h" "cq_events h = (t, ok) # es"
  shows "\<exists>h'. Process act t ok (s, h\<lparr>cq_events := es\<rparr>) = Returns (s, h') \<and> no_process h' \<and>
     (all_answers good h \<longrightarrow> all_answers good h')"
proof -
  from tags_live(1) [OF assms(1), of t] assms(3) obtain st where
    st: "h_states h t = Some st" "hs_step st = START \<or> hs_step st = FINISH"
    by (auto simp: cq_tags_def step_of_def)
  let ?h = "set_step t PROCESS (StartNewRequest (set_step t START (h\<lparr>cq_events := es\<rparr>)))"
  show ?thesis
  proof (cases "ok \<and> hs_step st = START")
    case True
    then have new: "step_of ?h t = Some PROCESS" "Process act t ok (s, h\<lparr>cq_events := es\<rparr>) = act t (s, ?h)"
      using begin_call_ok(2) [OF assms(1), of t es] assms(3) st
      by (simp_all add: Process_def Let_def step_of_def)
    obtain resp where resp: "good resp" "act t (s, ?h) = Returns (s, OnCompleted t (set_response t resp ?h))"
      using act_answers [OF new(1)] by blast
    have "all_answers good (OnCompleted t (set_response t resp ?h)) \<longleftrightarrow> all_answers good h"
      using answer_sel [of ?h t resp] new(1) resp(1) by (simp add: all_answers_def)
    moreover note resp(2)
    moreover have "no_process (OnCompleted t (set_response t resp ?h))"
      using assms(2) new(1) by (auto simp: no_process_def split: if_splits)
    ultimately show ?thesis
      using new(2) by auto
  next
    case False
    then show ?thesis
      using st assms(2) by (auto simp: Process_def Let_def no_process_def)
  qed
qed

lemma queue_step_sync:
  assumes "queue_step act (s, h) (s', h')" "handler_ok h" "no_process h"
  shows "s' = s \<and> no_process h' \<and> (all_answers good h \<longrightarrow> all_answers good h')"
  using assms(1)
proof cases
  case (next_event t ok es)
  then show ?thesis
    using process_answers [OF assms(2,3) next_event(2), of s] next_event(3) by auto
qed (use assms(3) in \<open>auto simp: no_process_def\<close>)

text \<open>The loop sees every event, and then every call has been answered.\<close>

lemma see_events:
  assumes "handler_ok h" "no_process h" "h_thread h = Looping"
  shows "\<exists>h'. (loop_step act)\<^sup>*\<^sup>* (s, h) (s, h') \<and> handler_ok h' \<and> no_process h' \<and>
     h_thread h' = Looping \<and> cq_events h' = [] \<and> same_flags h h'"
  using assms
proof (induction "cq_events h" arbitrary: h)
  case Nil
  then show ?case
    by (intro exI [of _ h]) (simp add: same_flags_def)
next
  case (Cons e es)
  obtain t ok where e: "cq_events h = (t, ok) # es"
    using Cons.hyps(2) by (metis prod.exhaust)
  from process_answers [OF Cons.prems(1,2) e] obtain h1 where
    h1: "Process act t ok (s, h\<lparr>cq_events := es\<rparr>) = Returns (s, h1)" "no_process h1"
    by blast
  note step = next_loop_step [OF Cons.prems(1,3) e h1(1)]
  from Cons.hyps(1) [OF step(4) [symmetric] step(2) h1(2) step(3)] obtain h' where
    "(loop_step act)\<^sup>*\<^sup>* (s, h1) (s, h')" "handler_ok h'" "no_process h'" "h_thread h' = Looping"
    "cq_events h' = []" "same_flags h1 h'"
    by blast
  then show ?case
    using converse_rtranclp_into_rtranclp [of "loop_step act", OF step(1)] step(5)
    by (intro exI [of _ h']) (simp add: same_flags_def)
qed

lemma settles:
  assumes "handler_ok h" "no_process h" "h_thread h \<in> {Entering, Looping}"
  shows "\<exists>h'. (loop_step act)\<^sup>*\<^sup>* (s, h) (s, h') \<and> handler_ok h' \<and> calls_over h' \<and>
     h_thread h' = Looping \<and> same_flags h h'"
proof -
  have loop: ?thesis if ok: "handler_ok h1" "no_process h1" "h_thread h1 = Looping"
    and steps: "(loop_step act)\<^sup>*\<^sup>* (s, h) (s, h1)" "same_flags h h1" for h1
  proof -
    from see_events [OF ok, of s] obtain h2 where h2: "(loop_step act)\<^sup>*\<^sup>* (s, h1) (s, h2)"
      "handler_ok h2" "no_process h2" "h_thread h2 = Looping" "cq_events h2 = []" "same_flags h1 h2"
      by blast
    from send_answers [OF h2(2-4), of s] h2(5) obtain h3 where h3: "(loop_step act)\<^sup>*\<^sup>* (s, h2) (s, h3)"
      "handler_ok h3" "calls_over h3" "h_thread h3 = Looping" "same_flags h2 h3"
      by auto
    show ?thesis
      using rtranclp_trans [OF rtranclp_trans [OF steps(1) h2(1)] h3(1)] steps(2) h2(6) h3(2-5)
      by (intro exI [of _ h3]) (simp add: same_flags_def)
  qed
  show ?thesis
  proof (cases "h_thread h = Looping")
    case True
    then show ?thesis
      using loop [of h] assms by (simp add: same_flags_def)
  next
    case False
    then have e: "h_thread h = Entering"
      using assms(3) by simp
    show ?thesis
      by (rule loop [of "StartNewRequest (h\<lparr>h_thread := Looping\<rparr>)"])
        (use e enter_ok [OF assms(1) e] enter_loop_step [OF e, of act s] assms(2) in
          \<open>auto simp: no_process_def same_flags_def\<close>)
  qed
qed

end

end
