(* ===== verification/Blocking_Queue.thy ===== *)
theory Blocking_Queue
  imports Prelude "HOL-Library.Sublist"
begin

text \<open>
  The class template \<open>BlockingQueue\<close> of \<open>src/core/scheduler/simple_scheduler.h\<close>. Each
  operation is one critical section of the queue's mutex; an operation whose wait
  predicate does not hold yet is \<open>None\<close>. The contract is the locale \<open>fifo_queue\<close>.
  Blocking, the two condition variables and their notifications are modelled in
  \<open>Queue_Monitor\<close>.
\<close>

section \<open>State and operations\<close>

record 'a blocking_queue =
  bq_buffer :: "'a list"
  bq_broken :: bool
  bq_capacity :: size_t

definition BlockingQueue :: "size_t \<Rightarrow> 'a blocking_queue" where
  "BlockingQueue capacity = \<lparr>bq_buffer = [], bq_broken = False, bq_capacity = capacity\<rparr>"

definition push_ready :: "'a blocking_queue \<Rightarrow> bool" where
  "push_ready q \<longleftrightarrow> bq_broken q \<or> length (bq_buffer q) < unat (bq_capacity q)"

definition pop_ready :: "'a blocking_queue \<Rightarrow> bool" where
  "pop_ready q \<longleftrightarrow> bq_broken q \<or> 0 < length (bq_buffer q)"

definition push :: "'a \<Rightarrow> 'a blocking_queue \<Rightarrow> 'a blocking_queue option" where
  "push item q =
     (if \<not> push_ready q then None
      else if bq_broken q then Some q
      else Some (q\<lparr>bq_buffer := bq_buffer q @ [item]\<rparr>))"

text \<open>
  The result of \<open>pop\<close> is the item, or \<open>None\<close> for the default \<open>T()\<close> of a broken queue (a
  null pointer in the scheduler).
\<close>

definition pop :: "'a blocking_queue \<Rightarrow> ('a option \<times> 'a blocking_queue) option" where
  "pop q =
     (if \<not> pop_ready q then None
      else if bq_broken q then Some (None, q)
      else Some (Some (hd (bq_buffer q)), q\<lparr>bq_buffer := tl (bq_buffer q)\<rparr>))"

definition bq_size :: "'a blocking_queue \<Rightarrow> nat" where
  "bq_size q = length (bq_buffer q)"

definition breakAll :: "'a blocking_queue \<Rightarrow> 'a blocking_queue" where
  "breakAll q = q\<lparr>bq_broken := True\<rparr>"

definition broken :: "'a blocking_queue \<Rightarrow> bool" where
  "broken q = bq_broken q"

lemmas queue_op_defs =
  push_def pop_def push_ready_def pop_ready_def breakAll_def broken_def bq_size_def

section \<open>The contract of the queue\<close>

text \<open>Sequences of operations: an operation that would block does not happen.\<close>

datatype 'a queue_op = Push 'a | Pop | Break

fun run_ops ::
  "('a \<Rightarrow> 'q \<Rightarrow> 'q option) \<Rightarrow> ('q \<Rightarrow> ('a option \<times> 'q) option) \<Rightarrow> ('q \<Rightarrow> 'q) \<Rightarrow>
   'a queue_op list \<Rightarrow> 'q \<Rightarrow> 'a list \<Rightarrow> 'a list \<times> 'q" where
  "run_ops pu po br [] q out = (out, q)"
| "run_ops pu po br (Push x # ops) q out =
     (case pu x q of None \<Rightarrow> run_ops pu po br ops q out | Some q' \<Rightarrow> run_ops pu po br ops q' out)"
| "run_ops pu po br (Pop # ops) q out =
     (case po q of
        None \<Rightarrow> run_ops pu po br ops q out
      | Some (None, q') \<Rightarrow> run_ops pu po br ops q' out
      | Some (Some x, q') \<Rightarrow> run_ops pu po br ops q' (out @ [x]))"
| "run_ops pu po br (Break # ops) q out = run_ops pu po br ops (br q) out"

fun pushed_items :: "'a queue_op list \<Rightarrow> 'a list" where
  "pushed_items [] = []"
| "pushed_items (Push x # ops) = x # pushed_items ops"
| "pushed_items (_ # ops) = pushed_items ops"

locale fifo_queue =
  fixes contents :: "'q \<Rightarrow> 'a list"
    and capacity :: "'q \<Rightarrow> nat"
    and is_broken :: "'q \<Rightarrow> bool"
    and enq :: "'a \<Rightarrow> 'q \<Rightarrow> 'q option"
    and deq :: "'q \<Rightarrow> ('a option \<times> 'q) option"
    and brk :: "'q \<Rightarrow> 'q"
  assumes enq_blocks: "enq x q = None \<longleftrightarrow> \<not> is_broken q \<and> capacity q \<le> length (contents q)"
    and enq_contents: "enq x q = Some q' \<Longrightarrow>
      contents q' = (if is_broken q then contents q else contents q @ [x])"
    and enq_frame: "enq x q = Some q' \<Longrightarrow> capacity q' = capacity q \<and> is_broken q' = is_broken q"
    and deq_blocks: "deq q = None \<longleftrightarrow> \<not> is_broken q \<and> contents q = []"
    and deq_contents: "deq q = Some (r, q') \<Longrightarrow>
      (if is_broken q then r = None \<and> contents q' = contents q
       else \<exists>x. r = Some x \<and> contents q = x # contents q')"
    and deq_frame: "deq q = Some (r, q') \<Longrightarrow> capacity q' = capacity q \<and> is_broken q' = is_broken q"
    and brk_broken: "is_broken (brk q)"
    and brk_frame: "contents (brk q) = contents q \<and> capacity (brk q) = capacity q"
begin

lemma enq_bounded:
  "length (contents q) \<le> capacity q \<Longrightarrow> enq x q = Some q' \<Longrightarrow> length (contents q') \<le> capacity q'"
  using enq_blocks [of x q] enq_contents [of x q q'] enq_frame [of x q q'] by auto

lemma deq_bounded:
  "length (contents q) \<le> capacity q \<Longrightarrow> deq q = Some (r, q') \<Longrightarrow> length (contents q') \<le> capacity q'"
  using deq_contents [of q r q'] deq_frame [of q r q'] by (auto split: if_splits)

text \<open>One of the two operations can always proceed when the capacity is positive.\<close>

lemma not_stuck: "0 < capacity q \<Longrightarrow> enq x q \<noteq> None \<or> deq q \<noteq> None"
  using enq_blocks [of x q] deq_blocks [of q] by auto

lemma run_bounded:
  "length (contents q) \<le> capacity q \<Longrightarrow> run_ops enq deq brk ops q out = (out', q') \<Longrightarrow>
   length (contents q') \<le> capacity q'"
proof (induction ops arbitrary: q out)
  case Nil
  then show ?case by simp
next
  case (Cons op ops)
  show ?case
  proof (cases op)
    case (Push x)
    then show ?thesis
      using Cons by (auto split: option.splits intro: enq_bounded)
  next
    case Pop
    then show ?thesis
      using Cons.prems by (auto split: option.splits intro: Cons.IH Cons.IH [OF deq_bounded])
  next
    case Break
    then show ?thesis
      using Cons.IH [of "brk q" out] Cons.prems by (simp add: brk_frame)
  qed
qed

text \<open>A broken queue hands out nothing and keeps what it holds.\<close>

lemma run_broken:
  "is_broken q \<Longrightarrow> run_ops enq deq brk ops q out = (out', q') \<Longrightarrow>
   out' = out \<and> contents q' = contents q \<and> is_broken q'"
proof (induction ops arbitrary: q out)
  case Nil
  then show ?case by simp
next
  case (Cons op ops)
  show ?case
  proof (cases op)
    case (Push x)
    then show ?thesis
      using Cons enq_contents [of x q] enq_frame [of x q] by (auto split: option.splits)
  next
    case Pop
    show ?thesis
    proof (cases "deq q")
      case None
      then show ?thesis
        using Cons Pop by simp
    next
      case (Some r)
      then obtain v q1 where r: "deq q = Some (v, q1)"
        by (cases r) simp
      have "v = None" "contents q1 = contents q" "is_broken q1"
        using deq_contents [OF r] deq_frame [OF r] Cons.prems(1) by auto
      then show ?thesis
        using Cons Pop r by auto
    qed
  next
    case Break
    then show ?thesis
      using Cons.IH [of "brk q" out] Cons.prems by (simp add: brk_frame brk_broken)
  qed
qed

lemma run_capacity:
  "run_ops enq deq brk ops q out = (out', q') \<Longrightarrow> capacity q' = capacity q"
proof (induction ops arbitrary: q out)
  case (Cons op ops)
  then show ?case
    by (cases op) (auto simp: brk_frame split: option.splits prod.splits dest: enq_frame deq_frame)
qed simp

text \<open>
  First in, first out: what was popped and what is left are what was there and a
  subsequence of what was pushed, in the order of the pushes.
\<close>

lemma run_fifo:
  "run_ops enq deq brk ops q out = (out', q') \<Longrightarrow>
   \<exists>ys. subseq ys (pushed_items ops) \<and> out' @ contents q' = out @ contents q @ ys"
proof (induction ops arbitrary: q out)
  case Nil
  then show ?case by simp
next
  case (Cons op ops)
  show ?case
  proof (cases op)
    case (Push x)
    show ?thesis
    proof (cases "enq x q")
      case None
      then obtain ys where "subseq ys (pushed_items ops)" "out' @ contents q' = out @ contents q @ ys"
        using Cons Push by force
      then show ?thesis
        using Push by (intro exI [of _ ys]) auto
    next
      case (Some q1)
      then obtain ys where ys: "subseq ys (pushed_items ops)"
        "out' @ contents q' = out @ contents q1 @ ys"
        using Cons Push by force
      then have "out' @ contents q' = out @ contents q @ (if is_broken q then ys else x # ys)"
        using enq_contents [OF Some] by simp
      then show ?thesis
        using ys(1) Push by (intro exI [of _ "if is_broken q then ys else x # ys"]) auto
    qed
  next
    case Pop
    show ?thesis
    proof (cases "deq q")
      case None
      then show ?thesis
        using Cons Pop by simp
    next
      case (Some r)
      then obtain v q1 where r: "deq q = Some (v, q1)"
        by (cases r) simp
      then obtain out1 where out1: "run_ops enq deq brk ops q1 out1 = (out', q')"
        "out1 = out @ (case v of None \<Rightarrow> [] | Some x \<Rightarrow> [x])"
        using Cons.prems Pop by (cases v) simp_all
      have "out1 @ contents q1 = out @ contents q"
        using deq_contents [OF r] out1(2) by (auto split: if_splits)
      then show ?thesis
        using Cons.IH [OF out1(1)] Pop by (metis append.assoc pushed_items.simps(3))
    qed
  next
    case Break
    then show ?thesis
      using Cons.IH [of "brk q" out] Cons.prems by (simp add: brk_frame)
  qed
qed

text \<open>While the queue is intact and nothing blocks, no item is lost.\<close>

lemma run_push_pop:
  assumes "\<not> is_broken q" "length (contents q) < capacity q"
  shows "\<exists>q1 q2. enq x q = Some q1 \<and> deq q1 = Some (Some (hd (contents q @ [x])), q2) \<and>
     contents q2 = tl (contents q @ [x])"
proof -
  obtain q1 where q1: "enq x q = Some q1"
    using assms enq_blocks [of x q] by fastforce
  then have c1: "contents q1 = contents q @ [x]" "\<not> is_broken q1"
    using assms enq_contents [OF q1] enq_frame [OF q1] by auto
  then obtain v q2 where q2: "deq q1 = Some (v, q2)"
    using deq_blocks [of q1] by fastforce
  then obtain y where "v = Some y" "contents q1 = y # contents q2"
    using deq_contents [OF q2] c1(2) by auto
  then show ?thesis
    using q1 q2 c1(1) by (metis list.sel(1,3))
qed

end

interpretation bq: fifo_queue bq_buffer "\<lambda>q. unat (bq_capacity q)" broken push pop breakAll
  by unfold_locales (auto simp: queue_op_defs split: if_splits)

text \<open>
  Used from one thread, the queue is a bounded FIFO: what came out followed by what is left is
  a subsequence of what was pushed, in order, and the capacity is kept.
\<close>

lemma queue_is_bounded_fifo:
  assumes "run_ops push pop breakAll ops (BlockingQueue cap) [] = (out, q)"
  shows "subseq (out @ bq_buffer q) (pushed_items ops) \<and> length (bq_buffer q) \<le> unat cap"
proof -
  have "unat (bq_capacity q) = unat cap"
    using bq.run_capacity [OF assms] by (simp add: BlockingQueue_def)
  then show ?thesis
    using bq.run_fifo [OF assms] bq.run_bounded [OF _ assms] by (auto simp: BlockingQueue_def)
qed

section \<open>Facts used by the scheduler\<close>

lemma push_unbroken [queue_simps]:
  "\<not> bq_broken q \<Longrightarrow> push x q = Some q' \<longleftrightarrow>
   length (bq_buffer q) < unat (bq_capacity q) \<and> q' = q\<lparr>bq_buffer := bq_buffer q @ [x]\<rparr>"
  by (auto simp: push_def push_ready_def)

lemma push_on_broken [queue_simps]: "bq_broken q \<Longrightarrow> push x q = Some q"
  by (simp add: push_def push_ready_def)

lemma pop_unbroken [queue_simps]:
  "\<not> bq_broken q \<Longrightarrow> pop q = Some (r, q') \<longleftrightarrow>
   (\<exists>x xs. bq_buffer q = x # xs \<and> r = Some x \<and> q' = q\<lparr>bq_buffer := xs\<rparr>)"
  by (auto simp: pop_def pop_ready_def neq_Nil_conv)

lemma pop_on_broken [queue_simps]: "bq_broken q \<Longrightarrow> pop q = Some (None, q)"
  by (simp add: pop_def pop_ready_def)

text \<open>A queue of capacity zero accepts nothing until it is broken.\<close>

lemma push_capacity_zero: "bq_capacity q = 0 \<Longrightarrow> \<not> bq_broken q \<Longrightarrow> push x q = None"
  by (simp add: push_def push_ready_def)

end
