(* ===== verification/Basic_Data.thy ===== *)
theory Basic_Data
  imports Status_Codes
begin

text \<open>
  \<open>src/core/constants.h\<close> and \<open>src/core/basic_data.h\<close>: the constants, the platform
  enumeration with its two conversions, and the configuration classes.
\<close>

section \<open>Constants\<close>

definition MAX_SCHEDULER_DEPLETION_WAIT_TIME :: int where
  "MAX_SCHEDULER_DEPLETION_WAIT_TIME = 120"

definition kModelConfigPbTxt :: string where
  "kModelConfigPbTxt = ''config.pbtxt''"

definition MIN_MODEL_REFRESH_INTERVAL :: i32 where
  "MIN_MODEL_REFRESH_INTERVAL = 5"

definition DEFAULT_SCHEDUELR_QUEUE_SIZE :: i32 where
  "DEFAULT_SCHEDUELR_QUEUE_SIZE = 4"

definition kPyTorchLibTorchPlatform :: string where
  "kPyTorchLibTorchPlatform = ''pytorch_libtorch''"

definition kTreeLitePlatform :: string where
  "kTreeLitePlatform = ''treelite''"

definition kTensorRTPlatform :: string where
  "kTensorRTPlatform = ''tensorrt''"

definition kOpenVINOPlatform :: string where
  "kOpenVINOPlatform = ''openvino''"

definition kOnnxRuntimePlatform :: string where
  "kOnnxRuntimePlatform = ''onnxruntime''"

definition kTensorflowSavedModelPlatform :: string where
  "kTensorflowSavedModelPlatform = ''tensorflow_savedmodel''"

definition kLightGBMPlatform :: string where
  "kLightGBMPlatform = ''lightgbm''"

definition kDemoPlatform :: string where
  "kDemoPlatform = ''demo''"

definition kUnsupportedPlatform :: string where
  "kUnsupportedPlatform = ''unsupported_platform''"

lemmas platform_names =
  kPyTorchLibTorchPlatform_def kTreeLitePlatform_def kTensorRTPlatform_def
  kOpenVINOPlatform_def kOnnxRuntimePlatform_def kTensorflowSavedModelPlatform_def
  kLightGBMPlatform_def kDemoPlatform_def kUnsupportedPlatform_def

section \<open>Platforms\<close>

datatype platform =
    PLATFORM_UNKNOWN
  | PLATFORM_PYTORCH_LIBTORCH
  | PLATFORM_TENSORFLOW_SAVEDMODEL
  | PLATFORM_TREE_LITE
  | PLATFORM_TENSORRT
  | PLATFORM_OPENVINO
  | PLATFORM_ONNXRUNTIME
  | PLATFORM_LIGHTGBM
  | PLATFORM_DEMO

definition ConvertStringToPlatformType :: "string \<Rightarrow> platform" where
  "ConvertStringToPlatformType p =
     (if strcmp_eq p kPyTorchLibTorchPlatform then PLATFORM_PYTORCH_LIBTORCH
      else if strcmp_eq p kTensorflowSavedModelPlatform then PLATFORM_TENSORFLOW_SAVEDMODEL
      else if strcmp_eq p kTreeLitePlatform then PLATFORM_TREE_LITE
      else if strcmp_eq p kTensorRTPlatform then PLATFORM_TENSORRT
      else if strcmp_eq p kOpenVINOPlatform then PLATFORM_OPENVINO
      else if strcmp_eq p kOnnxRuntimePlatform then PLATFORM_ONNXRUNTIME
      else if strcmp_eq p kLightGBMPlatform then PLATFORM_LIGHTGBM
      else if strcmp_eq p kDemoPlatform then PLATFORM_DEMO
      else PLATFORM_UNKNOWN)"

fun ConvertPlatformTypeToString :: "platform \<Rightarrow> string" where
  "ConvertPlatformTypeToString PLATFORM_PYTORCH_LIBTORCH = kPyTorchLibTorchPlatform"
| "ConvertPlatformTypeToString PLATFORM_TENSORFLOW_SAVEDMODEL = kTensorflowSavedModelPlatform"
| "ConvertPlatformTypeToString PLATFORM_OPENVINO = kOpenVINOPlatform"
| "ConvertPlatformTypeToString PLATFORM_TREE_LITE = kTreeLitePlatform"
| "ConvertPlatformTypeToString PLATFORM_TENSORRT = kTensorRTPlatform"
| "ConvertPlatformTypeToString PLATFORM_ONNXRUNTIME = kOnnxRuntimePlatform"
| "ConvertPlatformTypeToString PLATFORM_LIGHTGBM = kLightGBMPlatform"
| "ConvertPlatformTypeToString PLATFORM_DEMO = kDemoPlatform"
| "ConvertPlatformTypeToString PLATFORM_UNKNOWN = kUnsupportedPlatform"

lemma c_str_names [simp]:
  "c_str (ConvertPlatformTypeToString p) = ConvertPlatformTypeToString p"
  by (cases p) (simp_all add: c_str_def platform_names)

lemma platform_string_inj:
  "ConvertPlatformTypeToString p = ConvertPlatformTypeToString q \<Longrightarrow> p = q"
  by (cases p; cases q; simp add: platform_names)

lemma platform_roundtrip_aux:
  "ConvertStringToPlatformType (ConvertPlatformTypeToString p) = p"
  by (cases p)
    (simp_all add: ConvertStringToPlatformType_def strcmp_eq_def c_str_def platform_names)

text \<open>The conversion only reads the text up to the first NUL.\<close>

lemma ConvertStringToPlatformType_c_str:
  "ConvertStringToPlatformType p = ConvertStringToPlatformType (c_str p)"
  by (simp add: ConvertStringToPlatformType_def strcmp_eq_def)

lemma convert_known:
  assumes "ConvertStringToPlatformType p = q" "q \<noteq> PLATFORM_UNKNOWN"
  shows "c_str p = ConvertPlatformTypeToString q"
proof -
  have "c_str kPyTorchLibTorchPlatform = kPyTorchLibTorchPlatform"
    "c_str kTensorflowSavedModelPlatform = kTensorflowSavedModelPlatform"
    "c_str kTreeLitePlatform = kTreeLitePlatform" "c_str kTensorRTPlatform = kTensorRTPlatform"
    "c_str kOpenVINOPlatform = kOpenVINOPlatform" "c_str kOnnxRuntimePlatform = kOnnxRuntimePlatform"
    "c_str kLightGBMPlatform = kLightGBMPlatform" "c_str kDemoPlatform = kDemoPlatform"
    by (simp_all add: c_str_def platform_names)
  then show ?thesis
    using assms by (auto simp: ConvertStringToPlatformType_def strcmp_eq_def split: if_splits)
qed

section \<open>Exit signals and configuration\<close>

datatype exit_signal = NoSignal | GraceExit | ImmediateExit

datatype scheduler_type = SCHEDULER_SIMPLE | SCHEDULER_BATCH

record model_control_config =
  auto_update :: bool
  update_interval :: i32
  auto_warmup :: bool
  specific_model_version :: "(string, i32) umap"

record grpc_server_config =
  grpc_server_addr :: string

record scheduler_config =
  sched_type :: scheduler_type
  max_queue_size :: i32

record server_config =
  model_repo_path :: string
  model_control_cfg :: model_control_config
  grpc_server_cfg :: grpc_server_config
  scheduler_cfg :: scheduler_config

end
