(* ===== verification/Simple_Scheduler.thy ===== *)
theory Simple_Scheduler
  imports Blocking_Queue Basic_Data
begin

text \<open>
  \<open>src/core/scheduler\<close>: the interface \<open>Scheduler\<close> and its implementation
  \<open>SimpleScheduler\<close>. This theory has the state, the operations and one step of the
  loop \<open>ProcessLoop\<close> that every runner thread executes; \<open>Scheduler_System\<close> interleaves
  runners, callers and the thread that stops the scheduler. A payload has the type \<open>'p\<close>,
  an inference function the type \<open>'f\<close> (in the manager: the backend it is bound to).
\<close>

section \<open>State\<close>

text \<open>
  Where a runner is in \<open>ProcessLoop\<close>: at the loop test; inside \<open>queue_.pop()\<close>; with a
  payload, before the locked copy of the inference function; with the local copy; inside
  the call, which goes through the member \<open>infer_func_\<close>; with the status, before
  \<open>OnInferCompleted\<close>; returned.
\<close>

datatype ('f, 'p) runner_pc =
    At_Test
  | In_Pop
  | Got 'p
  | Copied 'p 'f
  | In_Call 'p 'f
  | Finished 'p status
  | Exited

record ('f, 'p) scheduler =
  sc_cfg :: scheduler_config
  sc_infer_func :: 'f
  sc_queue :: "'p blocking_queue"
  sc_total_runners :: i32
  sc_threads :: "(i32 \<times> ('f, 'p) runner_pc) list"
  sc_running :: bool

definition SimpleScheduler :: "scheduler_config \<Rightarrow> i32 \<Rightarrow> 'f \<Rightarrow> ('f, 'p) scheduler" where
  "SimpleScheduler cfg total_runners f =
     \<lparr>sc_cfg = cfg, sc_infer_func = f, sc_queue = BlockingQueue (scast (max_queue_size cfg)),
      sc_total_runners = total_runners, sc_threads = [], sc_running = False\<rparr>"

section \<open>Operations\<close>

text \<open>\<open>None\<close> is a call that blocks in \<open>queue_.push\<close>.\<close>

definition Enqueue :: "'p \<Rightarrow> ('f, 'p) scheduler \<Rightarrow> (status \<times> ('f, 'p) scheduler) option" where
  "Enqueue p s =
     (if \<not> sc_running s then Some (Failed_Scheduler_Not_Running, s)
      else case push p (sc_queue s) of
             None \<Rightarrow> None
           | Some q \<Rightarrow> Some (Success, s\<lparr>sc_queue := q\<rparr>))"

definition UpdateBackendInferFunc :: "'f \<Rightarrow> ('f, 'p) scheduler \<Rightarrow> status \<times> ('f, 'p) scheduler" where
  "UpdateBackendInferFunc f s = (Success, s\<lparr>sc_infer_func := f\<rparr>)"

definition new_threads :: "i32 \<Rightarrow> (i32 \<times> ('f, 'p) runner_pc) list" where
  "new_threads tot = map (\<lambda>i. (word_of_nat i, At_Test)) [0..<nat (sint tot)]"

definition Start :: "('f, 'p) scheduler \<Rightarrow> status \<times> ('f, 'p) scheduler" where
  "Start s =
     (if sc_running s then (Failed_Scheduler_Already_Running, s)
      else (Success, s\<lparr>sc_running := True,
                       sc_threads := sc_threads s @ new_threads (sc_total_runners s)\<rparr>))"

text \<open>
  \<open>Stop\<close> in its parts: the refusal, the test of the depletion loop on the queue size and
  the elapsed milliseconds, lowering the flag, breaking the queue, joining the runners.
\<close>

definition Stop_refused :: "('f, 'p) scheduler \<Rightarrow> status option" where
  "Stop_refused s = (if \<not> sc_running s then Some Failed_Scheduler_Not_Running else None)"

definition Stop_waits :: "int \<Rightarrow> ('f, 'p) scheduler \<Rightarrow> bool" where
  "Stop_waits elapsed_ms s \<longleftrightarrow>
     0 < bq_size (sc_queue s) \<and> elapsed_ms < MAX_SCHEDULER_DEPLETION_WAIT_TIME"

definition Stop_lower_flag :: "('f, 'p) scheduler \<Rightarrow> ('f, 'p) scheduler" where
  "Stop_lower_flag s = s\<lparr>sc_running := False\<rparr>"

definition Stop_break :: "('f, 'p) scheduler \<Rightarrow> ('f, 'p) scheduler" where
  "Stop_break s = s\<lparr>sc_queue := breakAll (sc_queue s)\<rparr>"

definition all_exited :: "('f, 'p) scheduler \<Rightarrow> bool" where
  "all_exited s \<longleftrightarrow> (\<forall>t \<in> set (sc_threads s). snd t = Exited)"

section \<open>One step of \<open>ProcessLoop\<close>\<close>

definition completion_message :: "status \<Rightarrow> string" where
  "completion_message st = (if st \<noteq> Success then show_status st else '''')"

text \<open>
  \<open>runner_step st i s\<close> moves runner \<open>i\<close>; \<open>st\<close> is what the inference function returns if
  this is the step in which it returns. The result is the new state and, for the step
  that runs the completion callback, what the callback is called with. \<open>None\<close> is a
  runner that is blocked in \<open>pop\<close> or has exited.
\<close>

definition set_runner :: "nat \<Rightarrow> ('f, 'p) runner_pc \<Rightarrow> ('f, 'p) scheduler \<Rightarrow> ('f, 'p) scheduler" where
  "set_runner i pc s = s\<lparr>sc_threads := (sc_threads s)[i := (fst (sc_threads s ! i), pc)]\<rparr>"

definition runner_step ::
  "status \<Rightarrow> nat \<Rightarrow> ('f, 'p) scheduler \<Rightarrow> (('f, 'p) scheduler \<times> ('p \<times> status \<times> string) option) option" where
  "runner_step st i s =
     (case snd (sc_threads s ! i) of
        At_Test \<Rightarrow> Some (set_runner i (if sc_running s then In_Pop else Exited) s, None)
      | In_Pop \<Rightarrow>
          (case pop (sc_queue s) of
             None \<Rightarrow> None
           | Some (None, q) \<Rightarrow> Some (set_runner i At_Test (s\<lparr>sc_queue := q\<rparr>), None)
           | Some (Some p, q) \<Rightarrow> Some (set_runner i (Got p) (s\<lparr>sc_queue := q\<rparr>), None))
      | Got p \<Rightarrow> Some (set_runner i (Copied p (sc_infer_func s)) s, None)
      | Copied p f \<Rightarrow> Some (set_runner i (In_Call p (sc_infer_func s)) s, None)
      | In_Call p f \<Rightarrow> Some (set_runner i (Finished p st) s, None)
      | Finished p st' \<Rightarrow>
          Some (set_runner i At_Test s, Some (p, st', completion_message st'))
      | Exited \<Rightarrow> None)"

lemma set_runner_sel [simp]:
  "sc_running (set_runner i pc s) = sc_running s"
  "sc_queue (set_runner i pc s) = sc_queue s"
  "sc_infer_func (set_runner i pc s) = sc_infer_func s"
  "sc_total_runners (set_runner i pc s) = sc_total_runners s"
  "length (sc_threads (set_runner i pc s)) = length (sc_threads s)"
  "sc_threads (set_runner i pc s) = (sc_threads s)[i := (fst (sc_threads s ! i), pc)]"
  by (simp_all add: set_runner_def)

section \<open>The contract of the interface \<open>Scheduler\<close>\<close>

text \<open>
  What the model manager relies on: a scheduler that is not running refuses requests, one
  that runs refuses a second start, an accepted request returns success, and changing the
  inference function touches nothing but that function.
\<close>

locale scheduler_iface =
  fixes running :: "'s \<Rightarrow> bool"
    and func :: "'s \<Rightarrow> 'f"
    and enqueue :: "'p \<Rightarrow> 's \<Rightarrow> (status \<times> 's) option"
    and update :: "'f \<Rightarrow> 's \<Rightarrow> status \<times> 's"
    and start :: "'s \<Rightarrow> status \<times> 's"
  assumes enqueue_refused: "\<not> running s \<Longrightarrow> enqueue p s = Some (Failed_Scheduler_Not_Running, s)"
    and enqueue_running: "running s \<Longrightarrow> enqueue p s = Some (st, s') \<Longrightarrow>
      st = Success \<and> running s' \<and> func s' = func s"
    and update_spec: "update f s = (st, s') \<Longrightarrow>
      st = Success \<and> func s' = f \<and> running s' = running s"
    and start_fresh: "\<not> running s \<Longrightarrow> start s = (st, s') \<Longrightarrow>
      st = Success \<and> running s' \<and> func s' = func s"
    and start_again: "running s \<Longrightarrow> start s = (Failed_Scheduler_Already_Running, s)"
begin

text \<open>After a start, a request is never refused; it is accepted or it waits.\<close>

lemma started_accepts:
  "\<not> running s \<Longrightarrow> enqueue p (snd (start s)) = Some (st, s') \<Longrightarrow> st = Success"
  using start_fresh [of s "fst (start s)" "snd (start s)"] enqueue_running [of "snd (start s)" p st s']
  by simp

lemma start_started: "running (snd (start s))"
  using start_fresh [of s "fst (start s)" "snd (start s)"] start_again [of s]
  by (cases "running s") simp_all

lemma start_twice: "start (snd (start s)) = (Failed_Scheduler_Already_Running, snd (start s))"
  using start_again [OF start_started] .

lemma enqueue_status: "enqueue p s = Some (st, s') \<Longrightarrow>
    st = (if running s then Success else Failed_Scheduler_Not_Running)"
  using enqueue_refused [of s p] enqueue_running [of s p st s'] by (cases "running s") simp_all

lemma update_after_start: "func (snd (update f (snd (start s)))) = f \<and> running (snd (update f (snd (start s))))"
  using update_spec [of f "snd (start s)" "fst (update f (snd (start s)))" "snd (update f (snd (start s)))"]
    start_started [of s] by simp

end

interpretation ss: scheduler_iface sc_running sc_infer_func Enqueue UpdateBackendInferFunc Start
  by unfold_locales
    (auto simp: Enqueue_def UpdateBackendInferFunc_def Start_def split: option.splits)

lemma Enqueue_Some [sched_simps]:
  "sc_running s \<Longrightarrow> Enqueue p s = Some (st, s') \<longleftrightarrow>
   (\<exists>q. push p (sc_queue s) = Some q \<and> st = Success \<and> s' = s\<lparr>sc_queue := q\<rparr>)"
  by (auto simp: Enqueue_def split: option.splits)

text \<open>The runners a start creates: one per index, in order, at the loop test.\<close>

lemma new_threads_length [simp]: "length (new_threads tot) = nat (sint tot)"
  by (simp add: new_threads_def)

lemma new_threads_nth:
  assumes "i < nat (sint tot)"
  shows "new_threads tot ! i = (word_of_nat i, At_Test)" "sint (fst (new_threads tot ! i)) = int i"
proof -
  show nth: "new_threads tot ! i = (word_of_nat i, At_Test)"
    using assms by (simp add: new_threads_def)
  have "i < 2 ^ 31"
    using assms sint_i32_range(2) [of tot] by simp
  then show "sint (fst (new_threads tot ! i)) = int i"
    by (simp add: nth sint_of_nat_i32)
qed

lemma new_threads_At_Test: "t \<in> set (new_threads tot) \<Longrightarrow> snd t = At_Test"
  by (auto simp: new_threads_def)

section \<open>After the queue is broken\<close>

text \<open>
  How many steps a runner has left once the flag is down and the queue is broken. Every
  step of a runner makes its number smaller.
\<close>

fun pc_rank :: "('f, 'p) runner_pc \<Rightarrow> nat" where
  "pc_rank At_Test = 1"
| "pc_rank In_Pop = 2"
| "pc_rank (Got _) = 5"
| "pc_rank (Copied _ _) = 4"
| "pc_rank (In_Call _ _) = 3"
| "pc_rank (Finished _ _) = 2"
| "pc_rank Exited = 0"

definition sched_rank :: "('f, 'p) scheduler \<Rightarrow> nat" where
  "sched_rank s = sum_list (map (pc_rank \<circ> snd) (sc_threads s))"

definition shut :: "('f, 'p) scheduler \<Rightarrow> bool" where
  "shut s \<longleftrightarrow> \<not> sc_running s \<and> bq_broken (sc_queue s)"

lemma runner_step_shut:
  assumes "shut s" "i < length (sc_threads s)" "runner_step st i s = Some (s', out)"
  shows "shut s' \<and> sched_rank s' < sched_rank s \<and> length (sc_threads s') = length (sc_threads s)"
proof -
  obtain pc where pc: "sc_threads s' = (sc_threads s)[i := (fst (sc_threads s ! i), pc)]"
    "pc_rank pc < pc_rank (snd (sc_threads s ! i))" "sc_running s' = sc_running s"
    "bq_broken (sc_queue s') = bq_broken (sc_queue s)"
    using assms(1,3)
    by (cases "snd (sc_threads s ! i)") (auto simp: runner_step_def shut_def pop_on_broken)
  have "sched_rank s' < sched_rank s"
    unfolding sched_rank_def pc(1)
    by (rule sum_list_update_less) (use assms(2) pc(2) in simp_all)
  then show ?thesis
    using pc assms(1) by (simp add: shut_def)
qed

lemma runner_step_enabled:
  assumes "shut s" "snd (sc_threads s ! i) \<noteq> Exited"
  shows "\<exists>s' out. runner_step st i s = Some (s', out)"
  using assms by (cases "snd (sc_threads s ! i)") (auto simp: runner_step_def shut_def pop_on_broken)

lemma sched_rank_zero: "sched_rank s = 0 \<longleftrightarrow> all_exited s"
proof -
  have "pc_rank pc = 0 \<longleftrightarrow> pc = Exited" for pc :: "('f, 'p) runner_pc"
    by (cases pc) simp_all
  then show ?thesis
    by (auto simp: sched_rank_def all_exited_def)
qed

text \<open>A schedule of runner steps, each runner moved given with the status of its call.\<close>

fun run_runners :: "(status \<times> nat) list \<Rightarrow> ('f, 'p) scheduler \<Rightarrow> ('f, 'p) scheduler option" where
  "run_runners [] s = Some s"
| "run_runners ((st, i) # sts) s =
     (if i < length (sc_threads s) then
        (case runner_step st i s of None \<Rightarrow> None | Some (s', _) \<Rightarrow> run_runners sts s')
      else None)"

lemma run_runners_shut:
  "shut s \<Longrightarrow> run_runners sts s = Some s' \<Longrightarrow>
   shut s' \<and> sched_rank s' + length sts \<le> sched_rank s"
proof (induction sts arbitrary: s)
  case Nil
  then show ?case by simp
next
  case (Cons a sts)
  obtain st i where a: "a = (st, i)"
    by (cases a)
  from Cons.prems(2) obtain s1 out where s1: "i < length (sc_threads s)"
    "runner_step st i s = Some (s1, out)" "run_runners sts s1 = Some s'"
    by (auto simp: a split: if_splits option.splits)
  from runner_step_shut [OF Cons.prems(1) s1(1,2)] Cons.IH [OF _ s1(3)] show ?case
    by auto
qed

lemma run_runners_finish:
  assumes "shut s"
  shows "\<exists>sts s'. run_runners sts s = Some s' \<and> all_exited s'"
  using assms
proof (induction "sched_rank s" arbitrary: s rule: less_induct)
  case less
  show ?case
  proof (cases "all_exited s")
    case True
    then show ?thesis
      by (intro exI [of _ "[]"] exI [of _ s]) simp
  next
    case False
    then obtain i where i: "i < length (sc_threads s)" "snd (sc_threads s ! i) \<noteq> Exited"
      by (auto simp: all_exited_def in_set_conv_nth)
    obtain s1 out where s1: "runner_step Success i s = Some (s1, out)"
      using runner_step_enabled [OF less.prems i(2)] by blast
    from less.hyps [of s1] runner_step_shut [OF less.prems i(1) s1] obtain sts s' where
      "run_runners sts s1 = Some s'" "all_exited s'"
      by blast
    then show ?thesis
      using i s1 by (intro exI [of _ "(Success, i) # sts"] exI [of _ s']) simp
  qed
qed

end
