(* ===== verification/Proto_Messages.thy ===== *)
theory Proto_Messages
  imports Basic_Data
begin

text \<open>
  The protocol messages of \<open>src/proto\<close> as records, with the fields the server and the
  client read or write. A cleared message has the proto3 default in every field.
\<close>

section \<open>Tensors and requests\<close>

datatype data_type =
    TYPE_INVALID | TYPE_BOOL | TYPE_UINT8 | TYPE_UINT16 | TYPE_UINT32 | TYPE_UINT64
  | TYPE_INT8 | TYPE_INT16 | TYPE_INT32 | TYPE_INT64 | TYPE_FP16 | TYPE_FP32 | TYPE_FP64
  | TYPE_STRING

record request_input =
  in_name :: string
  in_dims :: "i64 list"
  in_batch_byte_size :: u64
  in_data_type :: data_type

record infer_request_header =
  rq_batch_size :: u32
  rq_input :: "request_input list"
  rq_output :: "string list"
  rq_id :: u64

record output_raw =
  raw_dims :: "i64 list"
  raw_batch_byte_size :: u64

record response_output =
  out_name :: string
  out_raw :: output_raw

record infer_response_header =
  rs_output :: "response_output list"
  rs_id :: u64

datatype request_status_code =
    INVALID | SUCCESS | UNKNOWN | INTERNAL | NOT_FOUND | INVALID_ARG | UNAVAILABLE
  | UNSUPPORTED | ALREADY_EXISTS

record request_status =
  rst_code :: request_status_code
  rst_msg :: string
  rst_server_id :: string
  rst_request_id :: u64

text \<open>\<open>float\<close> and \<open>double\<close> elements are kept as their 32 and 64 bits.\<close>

record tensor_proto =
  tp_dims :: "i64 list"
  tp_data_type :: data_type
  tp_float_data :: "u32 list"
  tp_int32_data :: "i32 list"
  tp_byte_data :: "bytes list"
  tp_string_data :: "string list"
  tp_double_data :: "u64 list"
  tp_int64_data :: "i64 list"

record infer_request =
  irq_model_name :: string
  irq_model_version :: int
  irq_meta_data :: infer_request_header
  irq_raw_input :: "bytes list"
  irq_tensors :: "tensor_proto list"

record infer_response =
  irs_request_status :: request_status
  irs_meta_data :: infer_response_header
  irs_raw_output :: "bytes list"
  irs_tensors :: "tensor_proto list"

definition empty_request_header :: infer_request_header where
  "empty_request_header = \<lparr>rq_batch_size = 0, rq_input = [], rq_output = [], rq_id = 0\<rparr>"

definition empty_response_header :: infer_response_header where
  "empty_response_header = \<lparr>rs_output = [], rs_id = 0\<rparr>"

definition empty_request_status :: request_status where
  "empty_request_status =
     \<lparr>rst_code = INVALID, rst_msg = '''', rst_server_id = '''', rst_request_id = 0\<rparr>"

definition empty_tensor_proto :: tensor_proto where
  "empty_tensor_proto =
     \<lparr>tp_dims = [], tp_data_type = TYPE_INVALID, tp_float_data = [], tp_int32_data = [],
      tp_byte_data = [], tp_string_data = [], tp_double_data = [], tp_int64_data = []\<rparr>"

definition empty_infer_request :: infer_request where
  "empty_infer_request =
     \<lparr>irq_model_name = '''', irq_model_version = 0, irq_meta_data = empty_request_header,
      irq_raw_input = [], irq_tensors = []\<rparr>"

definition empty_infer_response :: infer_response where
  "empty_infer_response =
     \<lparr>irs_request_status = empty_request_status, irs_meta_data = empty_response_header,
      irs_raw_output = [], irs_tensors = []\<rparr>"

lemma empty_infer_response_sel [simp, proto_simps]:
  "irs_raw_output empty_infer_response = []"
  "irs_meta_data empty_infer_response = empty_response_header"
  "irs_request_status empty_infer_response = empty_request_status"
  "rs_output empty_response_header = []"
  "rst_code empty_request_status = INVALID"
  by (simp_all add: empty_infer_response_def empty_response_header_def empty_request_status_def)

section \<open>Status and health\<close>

datatype model_ready_state = MODEL_UNKNOWN | MODEL_READY | MODEL_UNAVAILABLE

datatype server_ready_state =
  SERVER_INVALID | SERVER_INITIALIZING | SERVER_READY | SERVER_EXITING | SERVER_FAILED_TO_INITIALIZE

record model_status =
  version_status :: "(int, model_ready_state) umap"

record server_status =
  sst_id :: string
  sst_version :: string
  sst_model_status :: "(string, model_status) umap"
  sst_ready_state :: server_ready_state

record status_request =
  srq_model_name :: string

record status_response =
  srs_request_status :: request_status
  srs_server_status :: server_status

record health_request =
  hrq_mode :: string

record health_response =
  hrs_request_status :: request_status
  hrs_health :: bool

definition empty_server_status :: server_status where
  "empty_server_status =
     \<lparr>sst_id = '''', sst_version = '''', sst_model_status = [], sst_ready_state = SERVER_INVALID\<rparr>"

definition empty_status_response :: status_response where
  "empty_status_response =
     \<lparr>srs_request_status = empty_request_status, srs_server_status = empty_server_status\<rparr>"

definition empty_health_response :: health_response where
  "empty_health_response = \<lparr>hrs_request_status = empty_request_status, hrs_health = False\<rparr>"

section \<open>Model configuration\<close>

datatype group_kind = KIND_AUTO | KIND_GPU | KIND_CPU | KIND_MODEL

record model_instance_group =
  grp_name :: string
  grp_kind :: group_kind
  grp_count :: i32
  grp_gpus :: "i32 list"

record model_input =
  mi_name :: string
  mi_data_type :: data_type
  mi_dims :: "i64 list"

record model_output =
  mo_name :: string
  mo_data_type :: data_type
  mo_dims :: "i64 list"

record model_config =
  mc_name :: string
  mc_platform :: string
  mc_max_batch_size :: i32
  mc_input :: "model_input list"
  mc_output :: "model_output list"
  mc_instance_group :: "model_instance_group list"
  mc_default_model_filename :: string

end
