(* ===== verification/Model_Backend.thy ===== *)
theory Model_Backend
  imports Proto_Messages
begin

text \<open>
  \<open>src/core/backend\<close>: the base class \<open>ModelBackend\<close> (configuration checks, tensor
  lookup, dispatch of a run to an execution context), the demo backend and its
  factory. The virtual \<open>BackendContext::Run\<close> is an argument of \<open>ModelBackend_Run\<close>.
\<close>

section \<open>State\<close>

record backend_context =
  bc_name :: string
  bc_gpu_device_id :: i32
  bc_max_batch_size :: i32

record model_backend =
  mb_config :: model_config
  mb_name :: string
  mb_version :: int
  mb_platform :: platform
  mb_input_map :: "(string, model_input) umap"
  mb_output_map :: "(string, model_output) umap"
  mb_contexts :: "backend_context list"
  mb_running :: i32

section \<open>Configuration\<close>

text \<open>The loop over the instance groups: the first bad group decides.\<close>

fun check_groups :: "model_instance_group list \<Rightarrow> status" where
  "check_groups [] = Success"
| "check_groups (g # gs) =
     (if grp_kind g = KIND_CPU then
        (if 0 < length (grp_gpus g) then Failed_Model_Config_Invalid else check_groups gs)
      else if grp_kind g = KIND_GPU then Failed_Model_Config_Invalid
      else check_groups gs)"

definition input_pairs :: "model_config \<Rightarrow> (string \<times> model_input) list" where
  "input_pairs cfg = map (\<lambda>io. (mi_name io, io)) (mc_input cfg)"

definition output_pairs :: "model_config \<Rightarrow> (string \<times> model_output) list" where
  "output_pairs cfg = map (\<lambda>io. (mo_name io, io)) (mc_output cfg)"

definition ProcessModelConfig :: "model_backend \<Rightarrow> status \<times> model_backend" where
  "ProcessModelConfig b =
     (let cfg = mb_config b in
      if mc_platform cfg = [] then (Failed_Model_Config_Invalid, b)
      else if length (mc_instance_group cfg) = 0 then (Failed_Model_Config_Invalid, b)
      else if check_groups (mc_instance_group cfg) \<noteq> Success
        then (check_groups (mc_instance_group cfg), b)
      else (Success,
        b\<lparr>mb_input_map := fold (\<lambda>(k, v). um_insert k v) (input_pairs cfg) (mb_input_map b),
          mb_output_map := fold (\<lambda>(k, v). um_insert k v) (output_pairs cfg) (mb_output_map b)\<rparr>))"

definition ModelBackend ::
  "server_config \<Rightarrow> string \<Rightarrow> int \<Rightarrow> string \<Rightarrow> model_config \<Rightarrow> platform \<Rightarrow> exn + model_backend" where
  "ModelBackend server_config name version path cfg platform =
     (let b = \<lparr>mb_config = cfg, mb_name = name, mb_version = version, mb_platform = platform,
               mb_input_map = [], mb_output_map = [], mb_contexts = [], mb_running = 0\<rparr>
      in case ProcessModelConfig b of (st, b') \<Rightarrow>
           if st \<noteq> Success then Inl (Runtime_error ''ProcessModelConfig() failed'') else Inr b')"

definition GetInput :: "string \<Rightarrow> model_backend \<Rightarrow> status \<times> model_input option" where
  "GetInput name b =
     (case um_find (mb_input_map b) name of
        None \<Rightarrow> (Failed_Model_Config_IO_Not_Found, None)
      | Some io \<Rightarrow> (Success, Some io))"

definition GetOutput :: "string \<Rightarrow> model_backend \<Rightarrow> status \<times> model_output option" where
  "GetOutput name b =
     (case um_find (mb_output_map b) name of
        None \<Rightarrow> (Failed_Model_Config_IO_Not_Found, None)
      | Some io \<Rightarrow> (Success, Some io))"

definition GetInstanceNum :: "model_backend \<Rightarrow> nat" where
  "GetInstanceNum b = length (mb_contexts b)"

section \<open>Running\<close>

text \<open>
  The index test is the code's, so the index one past the last context gets through it,
  and reading that element of the vector is undefined. The early return leaves the
  counter of running inferences incremented.
\<close>

datatype run_outcome = Returned status | Undefined

definition ModelBackend_Run ::
  "(backend_context \<Rightarrow> 'p list \<Rightarrow> status) \<Rightarrow> i32 \<Rightarrow> 'p list \<Rightarrow> model_backend \<Rightarrow>
   run_outcome \<times> model_backend" where
  "ModelBackend_Run context_run idx payloads b =
     (let b1 = b\<lparr>mb_running := mb_running b + 1\<rparr> in
      if sint idx < 0 \<or> length (mb_contexts b1) < nat (sint idx)
        then (Returned Failed_Generic, b1)
      else if length (mb_contexts b1) \<le> nat (sint idx) then (Undefined, b1)
      else let st = context_run (mb_contexts b1 ! nat (sint idx)) payloads
           in (Returned st, b1\<lparr>mb_running := mb_running b1 - 1\<rparr>))"

definition RunWarmup ::
  "(backend_context \<Rightarrow> 'p list \<Rightarrow> status) \<Rightarrow> i32 \<Rightarrow> 'p list \<Rightarrow> model_backend \<Rightarrow>
   run_outcome \<times> model_backend" where
  "RunWarmup context_run idx payloads b = ModelBackend_Run context_run idx payloads b"

text \<open>\<open>WaitInferComplete\<close> polls the counter: it returns once the counter is not positive.\<close>

definition wait_over :: "model_backend \<Rightarrow> bool" where
  "wait_over b \<longleftrightarrow> \<not> 0 < sint (mb_running b)"

section \<open>The demo backend\<close>

definition DemoContext :: "string \<Rightarrow> i32 \<Rightarrow> backend_context" where
  "DemoContext name gpu_device =
     \<lparr>bc_name = name, bc_gpu_device_id = gpu_device, bc_max_batch_size = 0\<rparr>"

definition DemoContext_Run :: "backend_context \<Rightarrow> 'p list \<Rightarrow> status" where
  "DemoContext_Run ctx payloads = Success"

definition instance_name :: "string \<Rightarrow> nat \<Rightarrow> string" where
  "instance_name grp c = grp @ ''_'' @ to_string (int c) @ ''_cpu''"

definition CreateExecuteContext :: "string \<Rightarrow> i32 \<Rightarrow> backend_context list \<Rightarrow> status \<times> backend_context list" where
  "CreateExecuteContext name gpu_device ctxs = (Success, ctxs @ [DemoContext name gpu_device])"

fun create_instances ::
  "model_instance_group \<Rightarrow> nat list \<Rightarrow> backend_context list \<Rightarrow> status \<times> backend_context list" where
  "create_instances g [] ctxs = (Success, ctxs)"
| "create_instances g (c # cs) ctxs =
     (if grp_kind g = KIND_CPU then
        (case CreateExecuteContext (instance_name (grp_name g) c) 0 ctxs of
           (st, ctxs') \<Rightarrow> if st \<noteq> Success then (st, ctxs') else create_instances g cs ctxs')
      else (Failed_Model_Config_Invalid, ctxs))"

definition group_indices :: "model_instance_group \<Rightarrow> nat list" where
  "group_indices g = [0..<nat (sint (grp_count g))]"

fun CreateExecuteContexts ::
  "model_instance_group list \<Rightarrow> backend_context list \<Rightarrow> status \<times> backend_context list" where
  "CreateExecuteContexts [] ctxs = (Success, ctxs)"
| "CreateExecuteContexts (g # gs) ctxs =
     (case create_instances g (group_indices g) ctxs of
        (st, ctxs') \<Rightarrow> if st \<noteq> Success then (st, ctxs') else CreateExecuteContexts gs ctxs')"

definition DemoBackend ::
  "server_config \<Rightarrow> string \<Rightarrow> int \<Rightarrow> string \<Rightarrow> model_config \<Rightarrow> exn + model_backend" where
  "DemoBackend server_config name version path cfg =
     (case ModelBackend server_config name version path cfg PLATFORM_DEMO of
        Inl e \<Rightarrow> Inl e
      | Inr b \<Rightarrow>
          (case CreateExecuteContexts (mc_instance_group (mb_config b)) (mb_contexts b) of
             (st, ctxs) \<Rightarrow>
               if st \<noteq> Success then Inl (Runtime_error ''CreateExecutionContexts failed'')
               else Inr (b\<lparr>mb_contexts := ctxs\<rparr>)))"

text \<open>The factory turns every exception of the constructor into a status.\<close>

definition DemoBackendFactory_CreateBackend ::
  "server_config \<Rightarrow> string \<Rightarrow> int \<Rightarrow> string \<Rightarrow> model_config \<Rightarrow> status \<times> model_backend option" where
  "DemoBackendFactory_CreateBackend server_config name version path cfg =
     (case DemoBackend server_config name version path cfg of
        Inr b \<Rightarrow> (Success, Some b)
      | Inl e \<Rightarrow> (Failed_Model_Load, None))"

section \<open>When a backend can be created\<close>

text \<open>The specification: what a configuration must look like, group by group.\<close>

definition group_ok :: "model_instance_group \<Rightarrow> bool" where
  "group_ok g \<longleftrightarrow>
     (grp_kind g = KIND_CPU \<and> grp_gpus g = []) \<or>
     (grp_kind g \<in> {KIND_AUTO, KIND_MODEL} \<and> sint (grp_count g) \<le> 0)"

definition config_ok :: "model_config \<Rightarrow> bool" where
  "config_ok cfg \<longleftrightarrow> mc_platform cfg \<noteq> [] \<and> mc_instance_group cfg \<noteq> [] \<and>
     (\<forall>g \<in> set (mc_instance_group cfg). group_ok g)"

definition group_names :: "model_instance_group \<Rightarrow> string list" where
  "group_names g = (if grp_kind g = KIND_CPU
     then map (instance_name (grp_name g)) (group_indices g) else [])"

lemma check_groups_Success:
  "check_groups gs = Success \<longleftrightarrow>
   (\<forall>g \<in> set gs. grp_kind g \<noteq> KIND_GPU \<and> (grp_kind g = KIND_CPU \<longrightarrow> grp_gpus g = []))"
  by (induction gs) auto

lemma check_groups_cases: "check_groups gs \<in> {Success, Failed_Model_Config_Invalid}"
  by (induction gs) auto

lemma create_instances_spec:
  "create_instances g cs ctxs =
     (if grp_kind g = KIND_CPU
      then (Success, ctxs @ map (\<lambda>c. DemoContext (instance_name (grp_name g) c) 0) cs)
      else if cs = [] then (Success, ctxs) else (Failed_Model_Config_Invalid, ctxs))"
  by (induction cs arbitrary: ctxs) (simp_all add: CreateExecuteContext_def)

lemma group_indices_Nil: "group_indices g = [] \<longleftrightarrow> sint (grp_count g) \<le> 0"
  by (simp add: group_indices_def)

lemma CreateExecuteContexts_Success:
  "fst (CreateExecuteContexts gs ctxs) = Success \<longleftrightarrow>
   (\<forall>g \<in> set gs. grp_kind g = KIND_CPU \<or> sint (grp_count g) \<le> 0)"
  by (induction gs arbitrary: ctxs)
    (auto simp: create_instances_spec group_indices_Nil split: prod.splits if_splits)

lemma create_instances_names:
  assumes "create_instances g (group_indices g) ctxs = (Success, ctxs')"
  shows "map bc_name ctxs' = map bc_name ctxs @ group_names g"
  using assms
  by (auto simp: create_instances_spec group_names_def DemoContext_def comp_def split: if_splits)

lemma CreateExecuteContexts_names:
  "CreateExecuteContexts gs ctxs = (Success, ctxs') \<Longrightarrow>
   map bc_name ctxs' = map bc_name ctxs @ concat (map group_names gs)"
proof (induction gs arbitrary: ctxs)
  case Nil
  then show ?case by simp
next
  case (Cons g gs)
  obtain ctxs1 where ctxs1: "create_instances g (group_indices g) ctxs = (Success, ctxs1)"
    "CreateExecuteContexts gs ctxs1 = (Success, ctxs')"
    using Cons.prems by (simp split: prod.splits if_splits)
  show ?case
    using Cons.IH [OF ctxs1(2)] create_instances_names [OF ctxs1(1)] by simp
qed

lemma ModelBackend_Inr:
  "ModelBackend sc name version path cfg pf = Inr b \<longleftrightarrow>
   mc_platform cfg \<noteq> [] \<and> mc_instance_group cfg \<noteq> [] \<and>
   check_groups (mc_instance_group cfg) = Success \<and>
   b = \<lparr>mb_config = cfg, mb_name = name, mb_version = version, mb_platform = pf,
        mb_input_map = fold (\<lambda>(k, v). um_insert k v) (input_pairs cfg) [],
        mb_output_map = fold (\<lambda>(k, v). um_insert k v) (output_pairs cfg) [],
        mb_contexts = [], mb_running = 0\<rparr>"
  by (auto simp: ModelBackend_def ProcessModelConfig_def Let_def split: if_splits)

lemma group_ok_alt:
  "group_ok g \<longleftrightarrow> grp_kind g \<noteq> KIND_GPU \<and> (grp_kind g = KIND_CPU \<longrightarrow> grp_gpus g = []) \<and>
     (grp_kind g = KIND_CPU \<or> sint (grp_count g) \<le> 0)"
  by (cases "grp_kind g") (auto simp: group_ok_def)

lemma DemoBackend_Inr [backend_simps]:
  "(\<exists>b. DemoBackend sc name version path cfg = Inr b) \<longleftrightarrow> config_ok cfg"
proof (cases "ModelBackend sc name version path cfg PLATFORM_DEMO")
  case (Inl e)
  then have "\<not> (mc_platform cfg \<noteq> [] \<and> mc_instance_group cfg \<noteq> [] \<and>
      check_groups (mc_instance_group cfg) = Success)"
    using ModelBackend_Inr [of sc name version path cfg PLATFORM_DEMO] by (metis Inl_Inr_False)
  then show ?thesis
    using Inl by (auto simp: DemoBackend_def config_ok_def check_groups_Success group_ok_alt)
next
  case (Inr b)
  then have b: "mc_platform cfg \<noteq> []" "mc_instance_group cfg \<noteq> []"
    "check_groups (mc_instance_group cfg) = Success" "mb_config b = cfg" "mb_contexts b = []"
    by (auto simp: ModelBackend_Inr)
  have "(\<exists>b. DemoBackend sc name version path cfg = Inr b) \<longleftrightarrow>
      fst (CreateExecuteContexts (mc_instance_group cfg) []) = Success"
    by (auto simp: DemoBackend_def Inr b split: prod.splits)
  then show ?thesis
    using b by (auto simp: CreateExecuteContexts_Success config_ok_def check_groups_Success group_ok_alt)
qed

lemma DemoBackend_fields:
  assumes "DemoBackend sc name version path cfg = Inr b"
  shows "mb_config b = cfg" "mb_name b = name" "mb_version b = version"
    "mb_platform b = PLATFORM_DEMO" "mb_running b = 0"
    "mb_input_map b = fold (\<lambda>(k, v). um_insert k v) (input_pairs cfg) []"
    "mb_output_map b = fold (\<lambda>(k, v). um_insert k v) (output_pairs cfg) []"
    "map bc_name (mb_contexts b) = concat (map group_names (mc_instance_group cfg))"
proof -
  obtain b0 where b0: "ModelBackend sc name version path cfg PLATFORM_DEMO = Inr b0"
    using assms by (auto simp: DemoBackend_def split: sum.splits)
  note b0' = b0 [unfolded ModelBackend_Inr]
  obtain ctxs where ctxs: "CreateExecuteContexts (mc_instance_group cfg) [] = (Success, ctxs)"
    "b = b0\<lparr>mb_contexts := ctxs\<rparr>"
    using assms b0' by (auto simp: DemoBackend_def b0 split: prod.splits if_splits)
  show "mb_config b = cfg" "mb_name b = name" "mb_version b = version"
    "mb_platform b = PLATFORM_DEMO" "mb_running b = 0"
    "mb_input_map b = fold (\<lambda>(k, v). um_insert k v) (input_pairs cfg) []"
    "mb_output_map b = fold (\<lambda>(k, v). um_insert k v) (output_pairs cfg) []"
    using b0' ctxs(2) by simp_all
  show "map bc_name (mb_contexts b) = concat (map group_names (mc_instance_group cfg))"
    using CreateExecuteContexts_names [OF ctxs(1)] ctxs(2) by simp
qed

section \<open>Instance names\<close>

lemma split_at_last:
  assumes "x \<notin> set ys" "x \<notin> set ys'" "xs @ x # ys = xs' @ x # ys'"
  shows "xs = xs' \<and> ys = ys'"
proof -
  have tw: "takeWhile (\<lambda>c. c \<noteq> x) (rev zs @ x # r) = rev zs" if "x \<notin> set zs" for zs r
    using that by (subst takeWhile_append2) auto
  have "rev ys @ x # rev xs = rev ys' @ x # rev xs'"
    using arg_cong [OF assms(3), of rev] by simp
  from arg_cong [OF this, of "takeWhile (\<lambda>c. c \<noteq> x)"]
  have "rev ys = rev ys'"
    by (simp only: tw [OF assms(1)] tw [OF assms(2)])
  then show ?thesis
    using assms(3) by simp
qed

lemma to_string_no_underscore: "CHR ''_'' \<notin> set (to_string (int c))"
  using show_nat_digits [of c] by (auto simp: to_string_def)

lemma instance_name_inj:
  assumes "instance_name n c = instance_name n' c'"
  shows "n = n' \<and> c = c'"
proof -
  have "n @ CHR ''_'' # to_string (int c) = n' @ CHR ''_'' # to_string (int c')"
    using assms by (simp add: instance_name_def)
  from split_at_last [OF to_string_no_underscore to_string_no_underscore this]
  show ?thesis
    by (auto simp: to_string_def dest: show_nat_inj)
qed

lemma distinct_group_names: "distinct (group_names g)"
  by (auto simp: group_names_def group_indices_def distinct_map inj_on_def dest: instance_name_inj)

lemma group_names_mem: "x \<in> set (group_names g) \<Longrightarrow> \<exists>c. x = instance_name (grp_name g) c"
  by (auto simp: group_names_def split: if_splits)

lemma distinct_all_names:
  "distinct (map grp_name gs) \<Longrightarrow> distinct (concat (map group_names gs))"
proof (induction gs)
  case Nil
  then show ?case by simp
next
  case (Cons g gs)
  have "set (group_names g) \<inter> set (concat (map group_names gs)) = {}"
  proof (rule ccontr)
    assume "set (group_names g) \<inter> set (concat (map group_names gs)) \<noteq> {}"
    then obtain x h where "x \<in> set (group_names g)" "h \<in> set gs" "x \<in> set (group_names h)"
      by auto
    then have "grp_name g = grp_name h"
      using group_names_mem instance_name_inj by metis
    then show False
      using Cons.prems \<open>h \<in> set gs\<close> by (metis distinct.simps(2) image_eqI list.set_map list.simps(9))
  qed
  then show ?case
    using Cons by (auto simp: distinct_group_names)
qed

lemma length_group_names:
  "length (group_names g) = (if grp_kind g = KIND_CPU then nat (sint (grp_count g)) else 0)"
  by (simp add: group_names_def group_indices_def)

lemma length_contexts:
  assumes "DemoBackend sc name version path cfg = Inr b"
  shows "length (mb_contexts b) = sum_list (map (\<lambda>g. nat (sint (grp_count g))) (mc_instance_group cfg))"
proof -
  have ok: "g \<in> set (mc_instance_group cfg) \<Longrightarrow> group_ok g" for g
    using DemoBackend_Inr [of sc name version path cfg] assms by (auto simp: config_ok_def)
  have "length (mb_contexts b) = length (map bc_name (mb_contexts b))"
    by simp
  also have "\<dots> = sum_list (map (length \<circ> group_names) (mc_instance_group cfg))"
    by (simp add: DemoBackend_fields(8) [OF assms] length_concat comp_def)
  also have "map (length \<circ> group_names) (mc_instance_group cfg) =
      map (\<lambda>g. nat (sint (grp_count g))) (mc_instance_group cfg)"
    using ok by (auto simp: length_group_names group_ok_def)
  finally show ?thesis .
qed

section \<open>Tensor lookup\<close>

text \<open>The first tensor of a name wins, as \<open>insert\<close> keeps an existing entry.\<close>

lemma DemoBackend_tensors:
  assumes "DemoBackend sc name version path cfg = Inr b"
  shows "um_find (mb_input_map b) n = map_of (input_pairs cfg) n"
    and "um_find (mb_output_map b) n = map_of (output_pairs cfg) n"
  using um.find_insert_all [of "[]" "input_pairs cfg" n] um.find_insert_all [of "[]" "output_pairs cfg" n]
  by (simp_all add: DemoBackend_fields [OF assms])

lemma GetInput_status: "fst (GetInput n b) = Success \<longleftrightarrow> um_find (mb_input_map b) n \<noteq> None"
  by (simp add: GetInput_def split: option.split)

lemma map_of_input_pairs: "map_of (input_pairs cfg) n = List.find (\<lambda>io. mi_name io = n) (mc_input cfg)"
proof -
  have "map_of (map (\<lambda>io. (mi_name io, io)) ios) n = List.find (\<lambda>io. mi_name io = n) ios" for ios
    by (induction ios) auto
  then show ?thesis
    by (simp add: input_pairs_def)
qed

lemma map_of_output_pairs: "map_of (output_pairs cfg) n = List.find (\<lambda>io. mo_name io = n) (mc_output cfg)"
proof -
  have "map_of (map (\<lambda>io. (mo_name io, io)) ios) n = List.find (\<lambda>io. mo_name io = n) ios" for ios
    by (induction ios) auto
  then show ?thesis
    by (simp add: output_pairs_def)
qed

section \<open>Runs\<close>

lemma Run_in_range:
  assumes "0 \<le> sint idx" "nat (sint idx) < length (mb_contexts b)"
  shows "ModelBackend_Run run idx ps b = (Returned (run (mb_contexts b ! nat (sint idx)) ps), b)"
  using assms by (simp add: ModelBackend_Run_def Let_def)

lemma Run_at_length:
  "nat (sint idx) = length (mb_contexts b) \<Longrightarrow> 0 \<le> sint idx \<Longrightarrow>
   fst (ModelBackend_Run run idx ps b) = Undefined"
  by (simp add: ModelBackend_Run_def Let_def)

lemma Run_rejected:
  "sint idx < 0 \<or> length (mb_contexts b) < nat (sint idx) \<Longrightarrow>
   ModelBackend_Run run idx ps b = (Returned Failed_Generic, b\<lparr>mb_running := mb_running b + 1\<rparr>)"
  by (auto simp: ModelBackend_Run_def Let_def)

lemma Run_contexts: "mb_contexts (snd (ModelBackend_Run run idx ps b)) = mb_contexts b"
  by (simp add: ModelBackend_Run_def Let_def)

end
