(* ===== verification/File_System.thy ===== *)
theory File_System
  imports Basic_Data
begin

text \<open>
  \<open>src/utils/file_system\<close>: the abstract class \<open>FileSystem\<close>, its local implementation
  over boost::filesystem, and the static facade \<open>FileUtils\<close>. The boost library and
  the disk are the parameter \<open>boost_fs\<close>: what the path operations, the directory
  iterator and an input file stream answer. An iterator over a path that is no
  readable directory throws, which is \<open>None\<close>.
\<close>

record boost_fs =
  bf_exists :: "string \<Rightarrow> bool"
  bf_directory_iterator :: "string \<Rightarrow> string list option"
  bf_is_directory :: "string \<Rightarrow> bool"
  bf_is_regular_file :: "string \<Rightarrow> bool"
  bf_filename :: "string \<Rightarrow> string"
  bf_append :: "string \<Rightarrow> string \<Rightarrow> string"
  bf_last_write_time :: "string \<Rightarrow> int"
  ifstream_text :: "string \<Rightarrow> string option"

text \<open>The abstract class: one field per virtual method.\<close>

record file_system =
  fs_ExistPath :: "string \<Rightarrow> bool"
  fs_GetDirectorySubDirs :: "string \<Rightarrow> string list option"
  fs_CombinePath :: "string \<Rightarrow> string list \<Rightarrow> string"
  fs_GetDirectoryFiles :: "string \<Rightarrow> string list option"
  fs_ReadFileText :: "string \<Rightarrow> string"
  fs_GetLastModifiedTime :: "string \<Rightarrow> int"
  fs_DownloadFile :: "string \<Rightarrow> string \<Rightarrow> bool \<times> string"

section \<open>The local file system\<close>

definition Local_GetDirectorySubDirs :: "boost_fs \<Rightarrow> string \<Rightarrow> string list option" where
  "Local_GetDirectorySubDirs B path =
     map_option (\<lambda>ps. map (bf_filename B) (filter (bf_is_directory B) ps))
       (bf_directory_iterator B path)"

definition Local_CombinePath :: "boost_fs \<Rightarrow> string \<Rightarrow> string list \<Rightarrow> string" where
  "Local_CombinePath B base parts = foldl (bf_append B) base parts"

definition Local_GetDirectoryFiles :: "boost_fs \<Rightarrow> string \<Rightarrow> string list option" where
  "Local_GetDirectoryFiles B path =
     map_option (\<lambda>ps. map (bf_filename B) (filter (bf_is_regular_file B) ps))
       (bf_directory_iterator B path)"

definition Local_ReadFileText :: "boost_fs \<Rightarrow> string \<Rightarrow> string" where
  "Local_ReadFileText B path = (case ifstream_text B path of Some s \<Rightarrow> s | None \<Rightarrow> '''')"

definition Local_GetLastModifiedTime :: "boost_fs \<Rightarrow> string \<Rightarrow> int" where
  "Local_GetLastModifiedTime B path = (if bf_exists B path then bf_last_write_time B path else -1)"

definition Local_DownloadFile :: "string \<Rightarrow> string \<Rightarrow> bool \<times> string" where
  "Local_DownloadFile path local_path = (True, path)"

definition LocalFileSystem :: "boost_fs \<Rightarrow> file_system" where
  "LocalFileSystem B =
     \<lparr>fs_ExistPath = bf_exists B,
      fs_GetDirectorySubDirs = Local_GetDirectorySubDirs B,
      fs_CombinePath = Local_CombinePath B,
      fs_GetDirectoryFiles = Local_GetDirectoryFiles B,
      fs_ReadFileText = Local_ReadFileText B,
      fs_GetLastModifiedTime = Local_GetLastModifiedTime B,
      fs_DownloadFile = Local_DownloadFile\<rparr>"

section \<open>The facade\<close>

definition GetFileSystem :: "boost_fs \<Rightarrow> string \<Rightarrow> file_system" where
  "GetFileSystem B path = LocalFileSystem B"

definition ExistPath :: "boost_fs \<Rightarrow> string \<Rightarrow> bool" where
  "ExistPath B path = fs_ExistPath (GetFileSystem B path) path"

definition GetDirectorySubDirs :: "boost_fs \<Rightarrow> string \<Rightarrow> string list option" where
  "GetDirectorySubDirs B path = fs_GetDirectorySubDirs (GetFileSystem B path) path"

definition CombinePath :: "boost_fs \<Rightarrow> string \<Rightarrow> string list \<Rightarrow> string" where
  "CombinePath B base parts = fs_CombinePath (GetFileSystem B base) base parts"

definition ReadFileText :: "boost_fs \<Rightarrow> string \<Rightarrow> string" where
  "ReadFileText B path = fs_ReadFileText (GetFileSystem B path) path"

definition GetDirectoryFiles :: "boost_fs \<Rightarrow> string \<Rightarrow> string list option" where
  "GetDirectoryFiles B path = fs_GetDirectoryFiles (GetFileSystem B path) path"

definition GetLastModifiedTime :: "boost_fs \<Rightarrow> string \<Rightarrow> int" where
  "GetLastModifiedTime B path = fs_GetLastModifiedTime (GetFileSystem B path) path"

definition DownloadFile :: "boost_fs \<Rightarrow> string \<Rightarrow> string \<Rightarrow> bool \<times> string" where
  "DownloadFile B path local_path = fs_DownloadFile (GetFileSystem B path) path local_path"

section \<open>The contract of the interface\<close>

text \<open>
  What the model manager relies on: paths are combined part by part, a listing is
  either an error or a list of names, and sub-directories and plain files of a
  directory are selections of the same listing. The locale states it over the seven
  methods; the facade is its interpretation.
\<close>

locale file_store =
  fixes exist :: "string \<Rightarrow> bool"
    and sub_dirs :: "string \<Rightarrow> string list option"
    and combine :: "string \<Rightarrow> string list \<Rightarrow> string"
    and files :: "string \<Rightarrow> string list option"
    and modified :: "string \<Rightarrow> int"
  assumes combine_Nil: "combine base [] = base"
    and combine_append: "combine base (ps @ qs) = combine (combine base ps) qs"
    and listing: "(sub_dirs path = None) = (files path = None)"
    and modified_missing: "\<not> exist path \<Longrightarrow> modified path = -1"
begin

lemma combine_two: "combine base [p, q] = combine (combine base [p]) [q]"
  using combine_append [of base "[p]" "[q]"] by simp

lemma combine_concat: "combine base (concat pss) = foldl combine base pss"
  by (induction pss arbitrary: base) (simp_all add: combine_Nil combine_append)

lemma unlisted: "sub_dirs path = None \<Longrightarrow> files path = None"
  by (simp add: listing)

end

lemmas file_utils_defs =
  GetFileSystem_def LocalFileSystem_def ExistPath_def GetDirectorySubDirs_def CombinePath_def
  ReadFileText_def GetDirectoryFiles_def GetLastModifiedTime_def DownloadFile_def

lemmas local_fs_defs =
  Local_GetDirectorySubDirs_def Local_CombinePath_def Local_GetDirectoryFiles_def
  Local_ReadFileText_def Local_GetLastModifiedTime_def Local_DownloadFile_def

interpretation file_utils: file_store "ExistPath B" "GetDirectorySubDirs B" "CombinePath B"
  "GetDirectoryFiles B" "GetLastModifiedTime B" for B
  by unfold_locales (simp_all add: file_utils_defs local_fs_defs)

text \<open>Reading a file that cannot be opened is the empty text, never an error.\<close>

lemma ReadFileText_missing: "ifstream_text B path = None \<Longrightarrow> ReadFileText B path = ''''"
  by (simp add: file_utils_defs local_fs_defs)

lemma sub_dirs_are_directories:
  assumes "GetDirectorySubDirs B path = Some ds" "d \<in> set ds"
  obtains p where "bf_is_directory B p" "d = bf_filename B p"
  using assms by (auto simp: file_utils_defs local_fs_defs)

end
