(* ===== verification/Inference_Payload.thy ===== *)
theory Inference_Payload
  imports Proto_Messages
begin

text \<open>
  \<open>src/core/inference_payload.{h,cc}\<close> and \<open>src/core/memory_misc.h\<close>: one request on
  its way through the server. The completion callback is a value of type \<open>'c\<close>, what the
  \<open>std::function\<close> is bound to; calling it is \<open>invoke\<close> of that value.
\<close>

section \<open>State\<close>

text \<open>A memory reference: the bytes readable at the address, and the recorded length.\<close>

record memory_reference =
  mem_addr :: bytes
  mem_length :: u64

record 'c payload =
  pl_model_name :: string
  pl_model_version :: int
  pl_request_header :: "infer_request_header option"
  pl_response_header :: infer_response_header
  pl_inputs_memory :: "memory_reference list"
  pl_output_buffer_map :: "(u64, bytes) umap"
  pl_on_infer_completed_func :: 'c
  pl_max_output_index :: i32

text \<open>The constructor; \<open>Init\<close> throws for a null request header.\<close>

definition InferencePayload ::
  "string \<Rightarrow> int \<Rightarrow> memory_reference list \<Rightarrow> infer_request_header option \<Rightarrow>
   'c \<Rightarrow> exn + 'c payload" where
  "InferencePayload name version inputs header func =
     (case header of
        None \<Rightarrow> Inl (Invalid_arg ''request_header_ should not be null'')
      | Some h \<Rightarrow> Inr
         \<lparr>pl_model_name = name, pl_model_version = version, pl_request_header = Some h,
          pl_response_header = empty_response_header, pl_inputs_memory = inputs,
          pl_output_buffer_map = [], pl_on_infer_completed_func = func,
          pl_max_output_index = 0\<rparr>)"

section \<open>Operations\<close>

text \<open>The key of the \<open>unordered_map<uint64_t, ...>\<close> for an \<open>int32_t\<close> index.\<close>

definition output_key :: "i32 \<Rightarrow> u64" where
  "output_key idx = scast idx"

definition register_header :: "string \<Rightarrow> i32 \<Rightarrow> i64 list \<Rightarrow> infer_response_header \<Rightarrow> infer_response_header" where
  "register_header name sz shape h =
     h\<lparr>rs_output := rs_output h @
         [\<lparr>out_name = name, out_raw = \<lparr>raw_dims = shape, raw_batch_byte_size = scast sz\<rparr>\<rparr>]\<rparr>"

definition max_index :: "i32 \<Rightarrow> i32 \<Rightarrow> i32" where
  "max_index a b = (if sint a < sint b then b else a)"

text \<open>
  What registering an output can do: return a status; throw \<open>length_error\<close>, because a
  negative size becomes a huge \<open>size_t\<close> in the string constructor, after the header was
  extended; or read past the bytes the pointer owns, which is undefined.
\<close>

datatype register_outcome = Registered status | Register_throws exn | Register_undefined

definition RegisterInferOutput ::
  "string \<Rightarrow> i32 \<Rightarrow> bytes \<Rightarrow> i32 \<Rightarrow> i64 list \<Rightarrow> 'c payload \<Rightarrow> register_outcome \<times> 'c payload" where
  "RegisterInferOutput name idx content content_byte_size shape p =
     (let p1 = p\<lparr>pl_response_header :=
                   register_header name content_byte_size shape (pl_response_header p)\<rparr>
      in if sint content_byte_size < 0 then (Register_throws Length_error, p1)
         else if length content < nat (sint content_byte_size) then (Register_undefined, p1)
         else (Registered Success,
               p1\<lparr>pl_output_buffer_map :=
                    um_assign (output_key idx) (take (nat (sint content_byte_size)) content)
                      (pl_output_buffer_map p1),
                  pl_max_output_index := max_index (pl_max_output_index p1) idx\<rparr>))"

definition GetInputMemory :: "i32 \<Rightarrow> 'c payload \<Rightarrow> memory_reference option" where
  "GetInputMemory idx p =
     (if sint idx < 0 \<or> length (pl_inputs_memory p) \<le> nat (sint idx) then None
      else Some (pl_inputs_memory p ! nat (sint idx)))"

text \<open>\<open>operator[]\<close> inserts an empty buffer for an index that has none.\<close>

definition GetOutputBuffer :: "i32 \<Rightarrow> 'c payload \<Rightarrow> exn + (bytes \<times> 'c payload)" where
  "GetOutputBuffer idx p =
     (if sint (pl_max_output_index p) < sint idx
      then Inl (Invalid_arg ''idx beyond range of outputs'')
      else let m = um_insert (output_key idx) [] (pl_output_buffer_map p)
           in Inr (case um_find m (output_key idx) of Some b \<Rightarrow> b | None \<Rightarrow> [],
                   p\<lparr>pl_output_buffer_map := m\<rparr>))"

definition payload_OnInferCompleted ::
  "('c \<Rightarrow> status \<Rightarrow> string \<Rightarrow> 'r) \<Rightarrow> 'c payload \<Rightarrow> status \<Rightarrow> string \<Rightarrow> 'r" where
  "payload_OnInferCompleted invoke p st message = invoke (pl_on_infer_completed_func p) st message"

section \<open>Invariant\<close>

text \<open>
  The buffer map is a map, the maximum is never negative, and every buffer is at an
  index up to the maximum.
\<close>

definition payload_wf :: "'c payload \<Rightarrow> bool" where
  "payload_wf p \<longleftrightarrow> um_wf (pl_output_buffer_map p) \<and> 0 \<le> sint (pl_max_output_index p) \<and>
     (\<forall>k \<in> set (um_keys (pl_output_buffer_map p)).
        \<exists>idx. k = output_key idx \<and> sint idx \<le> sint (pl_max_output_index p))"

lemma sint_max_index: "sint (max_index a b) = max (sint a) (sint b)"
  by (simp add: max_index_def)

lemma output_key_inj [simp]: "output_key a = output_key b \<longleftrightarrow> a = b"
  by (simp add: output_key_def)

lemma InferencePayload_wf: "InferencePayload n v ins h f = Inr p \<Longrightarrow> payload_wf p"
  by (auto simp: InferencePayload_def payload_wf_def um_keys_def split: option.splits)

text \<open>Every registration keeps the invariant, also one that throws half way.\<close>

lemma RegisterInferOutput_wf:
  assumes "payload_wf p" "RegisterInferOutput n idx c sz sh p = (r, p')"
  shows "payload_wf p'"
proof (cases "r = Registered Success")
  case False
  then show ?thesis
    using assms by (auto simp: RegisterInferOutput_def Let_def payload_wf_def split: if_splits)
next
  case True
  then have p': "pl_output_buffer_map p' =
      um_assign (output_key idx) (take (nat (sint sz)) c) (pl_output_buffer_map p)"
    "pl_max_output_index p' = max_index (pl_max_output_index p) idx"
    using assms(2) by (auto simp: RegisterInferOutput_def Let_def split: if_splits)
  show ?thesis
    using assms(1) unfolding payload_wf_def p' um_keys_assign
    by (fastforce simp: sint_max_index)
qed

lemma GetOutputBuffer_wf:
  "payload_wf p \<Longrightarrow> GetOutputBuffer idx p = Inr (b, p') \<Longrightarrow> payload_wf p'"
  by (auto simp: GetOutputBuffer_def Let_def payload_wf_def um_keys_insert split: if_splits)

text \<open>
  What a read returns: the buffer assigned last at this index, or the empty buffer,
  and nothing else of the payload changes.
\<close>

definition output_at :: "'c payload \<Rightarrow> i32 \<Rightarrow> bytes" where
  "output_at p idx =
     (case um_find (pl_output_buffer_map p) (output_key idx) of Some b \<Rightarrow> b | None \<Rightarrow> [])"

lemma GetOutputBuffer_value:
  assumes "payload_wf p" "sint idx \<le> sint (pl_max_output_index p)"
  obtains p' where "GetOutputBuffer idx p = Inr (output_at p idx, p')"
    "\<And>j. output_at p' j = output_at p j" "pl_max_output_index p' = pl_max_output_index p"
    "pl_response_header p' = pl_response_header p" "payload_wf p'"
proof -
  have wf: "um_wf (pl_output_buffer_map p)"
    using assms(1) by (simp add: payload_wf_def)
  define p' where "p' = p\<lparr>pl_output_buffer_map := um_insert (output_key idx) [] (pl_output_buffer_map p)\<rparr>"
  have "GetOutputBuffer idx p = Inr (output_at p idx, p')"
    using assms(2) wf
    by (auto simp: GetOutputBuffer_def Let_def output_at_def p'_def split: option.split)
  moreover have "output_at p' j = output_at p j" for j
    using wf by (auto simp: output_at_def p'_def split: option.split)
  moreover have "payload_wf p'"
    using GetOutputBuffer_wf [OF assms(1) calculation(1)] .
  moreover have "pl_max_output_index p' = pl_max_output_index p"
    "pl_response_header p' = pl_response_header p"
    by (simp_all add: p'_def)
  ultimately show ?thesis
    using that by blast
qed

lemma GetOutputBuffer_error:
  "GetOutputBuffer idx p = Inl e \<longleftrightarrow>
   sint (pl_max_output_index p) < sint idx \<and> e = Invalid_arg ''idx beyond range of outputs''"
  by (auto simp: GetOutputBuffer_def Let_def)

lemma RegisterInferOutput_success:
  assumes "payload_wf p" "0 \<le> sint sz" "nat (sint sz) \<le> length c"
  obtains p' where "RegisterInferOutput n idx c sz sh p = (Registered Success, p')"
    "\<And>j. output_at p' j = (if j = idx then take (nat (sint sz)) c else output_at p j)"
    "pl_max_output_index p' = max_index (pl_max_output_index p) idx"
    "pl_response_header p' = register_header n sz sh (pl_response_header p)"
    "payload_wf p'"
proof -
  obtain p' where p': "RegisterInferOutput n idx c sz sh p = (Registered Success, p')"
    "pl_output_buffer_map p' = um_assign (output_key idx) (take (nat (sint sz)) c) (pl_output_buffer_map p)"
    "pl_max_output_index p' = max_index (pl_max_output_index p) idx"
    "pl_response_header p' = register_header n sz sh (pl_response_header p)"
    using assms(2,3) by (simp add: RegisterInferOutput_def Let_def)
  have "output_at p' j = (if j = idx then take (nat (sint sz)) c else output_at p j)" for j
    using assms(1) p'(2) by (simp add: output_at_def payload_wf_def)
  then show ?thesis
    using that p' RegisterInferOutput_wf [OF assms(1) p'(1)] by blast
qed

section \<open>A backend registering its outputs\<close>

text \<open>
  One call per output tensor, in the order of the list. An entry is the name, the index
  and the bytes of the tensor with its shape; the size passed is the number of bytes.
\<close>

type_synonym output_tensor = "string \<times> i32 \<times> bytes \<times> i64 list"

fun register_all :: "output_tensor list \<Rightarrow> 'c payload \<Rightarrow> register_outcome \<times> 'c payload" where
  "register_all [] p = (Registered Success, p)"
| "register_all ((n, idx, c, sh) # ts) p =
     (case RegisterInferOutput n idx c (word_of_nat (length c)) sh p of
        (Registered Success, p') \<Rightarrow> register_all ts p'
      | r \<Rightarrow> r)"

definition tensor_index :: "output_tensor \<Rightarrow> i32" where
  "tensor_index = (\<lambda>(n, idx, c, sh). idx)"

definition tensor_header :: "output_tensor \<Rightarrow> response_output" where
  "tensor_header = (\<lambda>(n, idx, c, sh).
     \<lparr>out_name = n, out_raw = \<lparr>raw_dims = sh, raw_batch_byte_size = scast (word_of_nat (length c) :: i32)\<rparr>\<rparr>)"

definition small_tensor :: "output_tensor \<Rightarrow> bool" where
  "small_tensor = (\<lambda>(n, idx, c, sh). length c < 2 ^ 31)"

text \<open>The last tensor of a list registered at an index.\<close>

definition last_at :: "output_tensor list \<Rightarrow> i32 \<Rightarrow> bytes option" where
  "last_at ts idx = map_of (rev (map (\<lambda>(n, i, c, sh). (i, c)) ts)) idx"

lemma last_at_Nil [simp]: "last_at [] idx = None"
  by (simp add: last_at_def)

lemma last_at_Cons:
  "last_at ((n, i, c, sh) # ts) idx =
     (case last_at ts idx of Some b \<Rightarrow> Some b | None \<Rightarrow> if i = idx then Some c else None)"
  by (simp add: last_at_def map_add_def split: option.split)

lemma register_all_spec:
  assumes "payload_wf p" "\<forall>t \<in> set ts. small_tensor t"
  shows "\<exists>p'. register_all ts p = (Registered Success, p') \<and> payload_wf p' \<and>
     rs_output (pl_response_header p') = rs_output (pl_response_header p) @ map tensor_header ts \<and>
     (\<forall>j. output_at p' j = (case last_at ts j of Some c \<Rightarrow> c | None \<Rightarrow> output_at p j)) \<and>
     sint (pl_max_output_index p') =
       Max (insert (sint (pl_max_output_index p)) ((\<lambda>t. sint (tensor_index t)) ` set ts))"
  using assms
proof (induction ts arbitrary: p)
  case Nil
  then show ?case by simp
next
  case (Cons t ts)
  obtain n i c sh where t: "t = (n, i, c, sh)"
    by (cases t)
  let ?sz = "word_of_nat (length c) :: i32"
  have sz: "sint ?sz = int (length c)"
    using Cons.prems(2) by (simp add: t small_tensor_def sint_of_nat_i32)
  obtain p1 where p1: "RegisterInferOutput n i c ?sz sh p = (Registered Success, p1)"
    "\<And>j. output_at p1 j = (if j = i then c else output_at p j)"
    "pl_max_output_index p1 = max_index (pl_max_output_index p) i"
    "pl_response_header p1 = register_header n ?sz sh (pl_response_header p)" "payload_wf p1"
    by (rule RegisterInferOutput_success [OF Cons.prems(1), of ?sz c n i sh]) (simp_all add: sz)
  from Cons.IH [OF p1(5)] Cons.prems(2) obtain p' where
    p': "register_all ts p1 = (Registered Success, p')" "payload_wf p'"
    "rs_output (pl_response_header p') = rs_output (pl_response_header p1) @ map tensor_header ts"
    "\<And>j. output_at p' j = (case last_at ts j of Some c \<Rightarrow> c | None \<Rightarrow> output_at p1 j)"
    "sint (pl_max_output_index p') =
       Max (insert (sint (pl_max_output_index p1)) ((\<lambda>t. sint (tensor_index t)) ` set ts))"
    by (metis list.set_intros(2))
  have "sint (pl_max_output_index p') =
      Max (insert (sint (pl_max_output_index p)) ((\<lambda>t. sint (tensor_index t)) ` set (t # ts)))"
    unfolding p'(5) p1(3) sint_max_index
    by (cases "ts = []") (simp_all add: t tensor_index_def max.assoc max.commute max.left_commute)
  then show ?case
    using p' p1
    by (auto simp: t register_header_def tensor_header_def last_at_Cons split: option.split)
qed

end
