(* ===== verification/Model_Manager.thy ===== *)
theory Model_Manager
  imports Simple_Scheduler Model_Backend File_System Inference_Payload
begin

text \<open>
  \<open>src/core/model_manager\<close>: the map from model names to their scheduler and backend,
  and its reconciliation with the model repository. Backends live on a heap, so that
  the pointer a scheduler is bound to and the pointer a \<open>BackendInfo\<close> owns are
  comparable, and a freed backend is visible. The text-format parser of protobuf is the
  argument \<open>parse\<close>, the file system the argument \<open>B\<close>; a directory that cannot be read
  throws, which is \<open>Inl\<close>.
\<close>

section \<open>State\<close>

type_synonym ptr = nat

record backend_info =
  bi_model_name :: string
  bi_path :: string
  bi_platform :: platform
  bi_model_version :: int
  bi_model_config :: model_config
  bi_backend :: ptr

record 'p run_context =
  rc_scheduler :: "(ptr, 'p) scheduler"
  rc_backend_info :: backend_info

record 'p manager =
  mm_server_cfg :: server_config
  mm_model_map :: "(string, 'p run_context) umap"
  mm_running :: bool
  mm_update_thread :: bool
  mm_heap :: "ptr \<Rightarrow> model_backend option"
  mm_next :: ptr

type_synonym load_info = "string \<times> int"

section \<open>Looking at the repository\<close>

fun highest_version :: "string list \<Rightarrow> int \<Rightarrow> int" where
  "highest_version [] highest = highest"
| "highest_version (dir # dirs) highest =
     (case stoll dir of
        Inl e \<Rightarrow> highest_version dirs highest
      | Inr version \<Rightarrow> highest_version dirs (if highest < version then version else highest))"

definition GetHighestVersion :: "boost_fs \<Rightarrow> server_config \<Rightarrow> string \<Rightarrow> exn + int" where
  "GetHighestVersion B cfg model_name =
     (let path = CombinePath B (model_repo_path cfg) [model_name] in
      case GetDirectorySubDirs B path of
        None \<Rightarrow> Inl (Filesystem_error path)
      | Some dirs \<Rightarrow> Inr (highest_version dirs (-1)))"

definition read_config ::
  "boost_fs \<Rightarrow> (string \<Rightarrow> model_config option) \<Rightarrow> server_config \<Rightarrow> string \<Rightarrow> model_config option" where
  "read_config B parse cfg model_name =
     parse (ReadFileText B (CombinePath B (model_repo_path cfg) [model_name, kModelConfigPbTxt]))"

text \<open>The loop of \<open>GetModelStateUpdate\<close> over the listed models.\<close>

fun scan_models ::
  "boost_fs \<Rightarrow> (string \<Rightarrow> model_config option) \<Rightarrow> server_config \<Rightarrow> (string, 'p run_context) umap \<Rightarrow>
   string list \<Rightarrow> load_info list \<Rightarrow> load_info list \<Rightarrow> exn + (load_info list \<times> load_info list)" where
  "scan_models B parse cfg m [] added updated = Inr (added, updated)"
| "scan_models B parse cfg m (name # names) added updated =
     (case read_config B parse cfg name of
        None \<Rightarrow> scan_models B parse cfg m names added updated
      | Some _ \<Rightarrow>
          (case GetHighestVersion B cfg name of
             Inl e \<Rightarrow> Inl e
           | Inr version \<Rightarrow>
               if version = -1 then scan_models B parse cfg m names added updated
               else (case um_find m name of
                   None \<Rightarrow> scan_models B parse cfg m names (added @ [(name, version)]) updated
                 | Some ctx \<Rightarrow>
                     if bi_model_version (rc_backend_info ctx) \<noteq> version
                     then scan_models B parse cfg m names added (updated @ [(name, version)])
                     else scan_models B parse cfg m names added updated)))"

definition GetModelStateUpdate ::
  "boost_fs \<Rightarrow> (string \<Rightarrow> model_config option) \<Rightarrow> 'p manager \<Rightarrow>
   exn + (load_info list \<times> load_info list \<times> string list)" where
  "GetModelStateUpdate B parse mm =
     (let cfg = mm_server_cfg mm; repo = model_repo_path cfg in
      case GetDirectorySubDirs B repo of
        None \<Rightarrow> Inl (Filesystem_error repo)
      | Some cur_models \<Rightarrow>
          (let deleted = filter (\<lambda>n. n \<notin> set cur_models) (um_keys (mm_model_map mm)) in
           case scan_models B parse cfg (mm_model_map mm) cur_models [] [] of
             Inl e \<Rightarrow> Inl e
           | Inr (added, updated) \<Rightarrow> Inr (added, updated, deleted)))"

section \<open>Loading a model\<close>

definition CreateModelBackend ::
  "server_config \<Rightarrow> platform \<Rightarrow> string \<Rightarrow> int \<Rightarrow> string \<Rightarrow> model_config \<Rightarrow> status \<times> model_backend option" where
  "CreateModelBackend cfg platform name version path config =
     (case platform of
        PLATFORM_DEMO \<Rightarrow> DemoBackendFactory_CreateBackend cfg name version path config
      | _ \<Rightarrow> (Failed_Model_Config_Platform_Unknown, None))"

text \<open>The heap with an allocation pointer, and its two uses.\<close>

definition alloc :: "model_backend \<Rightarrow> 'p manager \<Rightarrow> ptr \<times> 'p manager" where
  "alloc b mm = (mm_next mm,
     mm\<lparr>mm_heap := (mm_heap mm)(mm_next mm := Some b), mm_next := Suc (mm_next mm)\<rparr>)"

definition free_info :: "backend_info \<Rightarrow> 'p manager \<Rightarrow> 'p manager" where
  "free_info bi mm = mm\<lparr>mm_heap := (mm_heap mm)(bi_backend bi := None)\<rparr>"

definition LoadModel ::
  "boost_fs \<Rightarrow> (string \<Rightarrow> model_config option) \<Rightarrow> load_info \<Rightarrow> 'p manager \<Rightarrow>
   backend_info option \<times> 'p manager" where
  "LoadModel B parse info mm =
     (let (name, version) = info;
          cfg = mm_server_cfg mm;
          path = CombinePath B (model_repo_path cfg) [name]
      in case read_config B parse cfg name of
           None \<Rightarrow> (None, mm)
         | Some config \<Rightarrow>
             (let platform = ConvertStringToPlatformType (mc_platform config) in
              case CreateModelBackend cfg platform name version path config of
                (Success, Some b) \<Rightarrow>
                  (let (a, mm') = alloc b mm in
                   (Some \<lparr>bi_model_name = name, bi_path = path, bi_platform = platform,
                          bi_model_version = version, bi_model_config = config,
                          bi_backend = a\<rparr>, mm'))
              | _ \<Rightarrow> (None, mm)))"

section \<open>Applying the changes\<close>

definition instances_at :: "'p manager \<Rightarrow> ptr \<Rightarrow> nat" where
  "instances_at mm a = (case mm_heap mm a of Some b \<Rightarrow> GetInstanceNum b | None \<Rightarrow> 0)"

definition new_run_context :: "'p manager \<Rightarrow> backend_info \<Rightarrow> 'p run_context" where
  "new_run_context mm bi =
     \<lparr>rc_scheduler = snd (Start (SimpleScheduler (scheduler_cfg (mm_server_cfg mm))
         (word_of_nat (instances_at mm (bi_backend bi))) (bi_backend bi))),
      rc_backend_info = bi\<rparr>"

text \<open>
  \<open>insert\<close> keeps an entry that is already there; the new context is then destroyed with
  its backend.
\<close>

definition add_model ::
  "boost_fs \<Rightarrow> (string \<Rightarrow> model_config option) \<Rightarrow> load_info \<Rightarrow> 'p manager \<Rightarrow> 'p manager" where
  "add_model B parse info mm =
     (case LoadModel B parse info mm of
        (None, mm') \<Rightarrow> mm'
      | (Some bi, mm') \<Rightarrow>
          (let ctx = new_run_context mm' bi in
           case um_find (mm_model_map mm') (fst info) of
             None \<Rightarrow> mm'\<lparr>mm_model_map := um_insert (fst info) ctx (mm_model_map mm')\<rparr>
           | Some _ \<Rightarrow> free_info bi mm'))"

definition update_model ::
  "boost_fs \<Rightarrow> (string \<Rightarrow> model_config option) \<Rightarrow> load_info \<Rightarrow> 'p manager \<Rightarrow> 'p manager" where
  "update_model B parse info mm =
     (case LoadModel B parse info mm of
        (None, mm') \<Rightarrow> mm'
      | (Some bi, mm') \<Rightarrow>
          (case um_find (mm_model_map mm') (fst info) of
             Some ctx \<Rightarrow>
               (let sched = snd (UpdateBackendInferFunc (bi_backend bi) (rc_scheduler ctx));
                    ctx' = \<lparr>rc_scheduler = sched, rc_backend_info = bi\<rparr>
                in free_info (rc_backend_info ctx)
                     (mm'\<lparr>mm_model_map := um_assign (fst info) ctx' (mm_model_map mm')\<rparr>))
           | None \<Rightarrow> free_info bi mm'))"

definition delete_model :: "string \<Rightarrow> 'p manager \<Rightarrow> 'p manager" where
  "delete_model name mm =
     (case um_find (mm_model_map mm) name of
        None \<Rightarrow> mm
      | Some ctx \<Rightarrow>
          free_info (rc_backend_info ctx) (mm\<lparr>mm_model_map := um_erase name (mm_model_map mm)\<rparr>))"

definition LoadModels ::
  "boost_fs \<Rightarrow> (string \<Rightarrow> model_config option) \<Rightarrow> 'p manager \<Rightarrow> exn + 'p manager" where
  "LoadModels B parse mm =
     (case GetModelStateUpdate B parse mm of
        Inl e \<Rightarrow> Inl e
      | Inr (added, updated, deleted) \<Rightarrow>
          Inr (fold delete_model deleted
                (fold (update_model B parse) updated
                  (fold (add_model B parse) added mm))))"

section \<open>The manager's interface\<close>

definition new_manager :: "server_config \<Rightarrow> 'p manager" where
  "new_manager cfg =
     \<lparr>mm_server_cfg = cfg, mm_model_map = [], mm_running = False, mm_update_thread = False,
      mm_heap = (\<lambda>_. None), mm_next = 0\<rparr>"

definition ModelManager_Start ::
  "boost_fs \<Rightarrow> (string \<Rightarrow> model_config option) \<Rightarrow> 'p manager \<Rightarrow> exn + (status \<times> 'p manager)" where
  "ModelManager_Start B parse mm =
     (if mm_running mm then Inr (Faield_ModelManager_Already_Running, mm)
      else case LoadModels B parse (mm\<lparr>mm_running := True\<rparr>) of
             Inl e \<Rightarrow> Inl e
           | Inr mm' \<Rightarrow>
               Inr (Success,
                 if auto_update (model_control_cfg (mm_server_cfg mm'))
                 then mm'\<lparr>mm_update_thread := True\<rparr> else mm'))"

text \<open>
  \<open>UploadLoop\<close>: each turn ends its wait, by the interval or by \<open>Stop\<close>, and tests the flag;
  \<open>Inl\<close> is an exception that leaves the thread function and ends the process. The loop is
  given what the repository looks like at each turn, and whether the manager still runs
  then; it returns the manager when it leaves the loop or the list ends.
\<close>

definition UploadLoop_turn ::
  "boost_fs \<Rightarrow> (string \<Rightarrow> model_config option) \<Rightarrow> 'p manager \<Rightarrow> exn + 'p manager option" where
  "UploadLoop_turn B parse mm =
     (if mm_running mm then map_sum id Some (LoadModels B parse mm) else Inr None)"

fun UploadLoop ::
  "(string \<Rightarrow> model_config option) \<Rightarrow> (boost_fs \<times> bool) list \<Rightarrow> 'p manager \<Rightarrow> exn + 'p manager" where
  "UploadLoop parse [] mm = Inr mm"
| "UploadLoop parse ((B, run) # turns) mm =
     (case UploadLoop_turn B parse (mm\<lparr>mm_running := run\<rparr>) of
        Inl e \<Rightarrow> Inl e
      | Inr None \<Rightarrow> Inr (mm\<lparr>mm_running := run\<rparr>)
      | Inr (Some mm') \<Rightarrow> UploadLoop parse turns mm')"

text \<open>The constructor runs \<open>Start\<close> and ignores its status; \<open>Create\<close> refuses a null configuration.\<close>

definition ModelManager ::
  "boost_fs \<Rightarrow> (string \<Rightarrow> model_config option) \<Rightarrow> server_config \<Rightarrow> exn + 'p manager" where
  "ModelManager B parse cfg = map_sum id snd (ModelManager_Start B parse (new_manager cfg))"

definition ModelManager_Create ::
  "boost_fs \<Rightarrow> (string \<Rightarrow> model_config option) \<Rightarrow> server_config option \<Rightarrow>
   exn + (status \<times> 'p manager option)" where
  "ModelManager_Create B parse cfg =
     (case cfg of
        None \<Rightarrow> Inr (Failed_Invalid_Server_Config, None)
      | Some c \<Rightarrow> map_sum id (\<lambda>mm. (Success, Some mm)) (ModelManager B parse c))"

definition ModelManager_Stop :: "'p manager \<Rightarrow> status \<times> 'p manager" where
  "ModelManager_Stop mm =
     (let mm' = fold (\<lambda>(_, ctx). free_info (rc_backend_info ctx)) (mm_model_map mm)
                  (mm\<lparr>mm_running := False, mm_update_thread := False\<rparr>)
      in (Success, mm'\<lparr>mm_model_map := []\<rparr>))"

text \<open>The destructor stops a manager that runs; then the members go, and with them the contexts.\<close>

definition ModelManager_destroy :: "'p manager \<Rightarrow> 'p manager" where
  "ModelManager_destroy mm =
     (let mm1 = (if mm_running mm then snd (ModelManager_Stop mm) else mm)
      in (fold (\<lambda>(_, ctx). free_info (rc_backend_info ctx)) (mm_model_map mm1) mm1)\<lparr>mm_model_map := []\<rparr>)"

definition GetModelStatus :: "'p manager \<Rightarrow> (string, model_status) umap" where
  "GetModelStatus mm =
     fold (\<lambda>(name, ctx) acc.
         um_assign name
           \<lparr>version_status =
              um_assign (bi_model_version (rc_backend_info ctx)) MODEL_READY []\<rparr> acc)
       (mm_model_map mm) []"

definition GetNumberOfLiveModels :: "'p manager \<Rightarrow> nat" where
  "GetNumberOfLiveModels mm = length (mm_model_map mm)"

text \<open>
  \<open>None\<close>: the call blocks in \<open>Enqueue\<close>, holding the mutex of the model map. The requested
  version is read and not used.
\<close>

definition InferAsync :: "'c payload \<Rightarrow> 'c payload manager \<Rightarrow> (status \<times> 'c payload manager) option" where
  "InferAsync p mm =
     (case um_find (mm_model_map mm) (pl_model_name p) of
        None \<Rightarrow> Some (Failed_Infer_No_Backend_Found, mm)
      | Some ctx \<Rightarrow>
          (case Enqueue p (rc_scheduler ctx) of
             None \<Rightarrow> None
           | Some (st, s') \<Rightarrow>
               Some (st, mm\<lparr>mm_model_map :=
                 um_assign (pl_model_name p) (ctx\<lparr>rc_scheduler := s'\<rparr>) (mm_model_map mm)\<rparr>)))"

end
