(* ===== verification/Model_Reconcile.thy ===== *)
theory Model_Reconcile
  imports Model_Manager
begin

text \<open>
  What one pass of \<open>LoadModels\<close> does to the model map: the ownership invariant of the
  backends, the version served for each name afterwards, and what happens to the
  schedulers.
\<close>

section \<open>The highest version\<close>

definition dir_version :: "string \<Rightarrow> int option" where
  "dir_version d = (case stoll d of Inl _ \<Rightarrow> None | Inr v \<Rightarrow> Some v)"

lemma highest_version_bounds:
  "h \<le> highest_version dirs h \<and>
   (\<forall>d \<in> set dirs. \<forall>v. dir_version d = Some v \<longrightarrow> v \<le> highest_version dirs h) \<and>
   (highest_version dirs h = h \<or> (\<exists>d \<in> set dirs. dir_version d = Some (highest_version dirs h)))"
proof (induction dirs arbitrary: h)
  case Nil
  then show ?case by simp
next
  case (Cons d dirs)
  show ?case
  proof (cases "stoll d")
    case (Inl e)
    then show ?thesis
      using Cons.IH [of h] by (auto simp: dir_version_def)
  next
    case (Inr v)
    then show ?thesis
      using Cons.IH [of "if h < v then v else h"] by (auto simp: dir_version_def)
  qed
qed

section \<open>Ownership\<close>

definition owned :: "(string, 'p run_context) umap \<Rightarrow> ptr list" where
  "owned m = map (\<lambda>(n, ctx). bi_backend (rc_backend_info ctx)) m"

text \<open>
  Every context is filed under its model's name, its backend exists and serves the
  recorded version, its running scheduler is bound to that backend; no two contexts share
  a backend, and no backend exists that no context owns.
\<close>

definition context_ok :: "(ptr \<Rightarrow> model_backend option) \<Rightarrow> string \<times> 'p run_context \<Rightarrow> bool" where
  "context_ok heap e \<longleftrightarrow>
     (let (n, ctx) = e; bi = rc_backend_info ctx in
        bi_model_name bi = n \<and> sc_running (rc_scheduler ctx) \<and>
        sc_infer_func (rc_scheduler ctx) = bi_backend bi \<and>
        (\<exists>b. heap (bi_backend bi) = Some b \<and> mb_name b = n \<and> mb_version b = bi_model_version bi))"

definition manager_wf :: "'p manager \<Rightarrow> bool" where
  "manager_wf mm \<longleftrightarrow> um_wf (mm_model_map mm) \<and>
     (\<forall>e \<in> set (mm_model_map mm). context_ok (mm_heap mm) e) \<and>
     distinct (owned (mm_model_map mm)) \<and>
     dom (mm_heap mm) = set (owned (mm_model_map mm)) \<and>
     (\<forall>a \<in> dom (mm_heap mm). a < mm_next mm)"

lemma manager_wfD:
  assumes "manager_wf mm"
  shows "um_wf (mm_model_map mm)"
    "e \<in> set (mm_model_map mm) \<Longrightarrow> context_ok (mm_heap mm) e"
    "distinct (owned (mm_model_map mm))"
    "dom (mm_heap mm) = set (owned (mm_model_map mm))"
    "mm_heap mm a \<noteq> None \<Longrightarrow> a < mm_next mm"
    "a \<in> set (owned (mm_model_map mm)) \<Longrightarrow> a < mm_next mm"
  using assms by (auto simp: manager_wf_def)

lemma context_ok_heap_update:
  assumes "context_ok heap e" "bi_backend (rc_backend_info (snd e)) \<noteq> a"
  shows "context_ok (heap(a := v)) e"
  using assms by (auto simp: context_ok_def Let_def split: prod.splits)

lemma owned_mem:
  "a \<in> set (owned m) \<longleftrightarrow> (\<exists>n ctx. (n, ctx) \<in> set m \<and> bi_backend (rc_backend_info ctx) = a)"
  by (force simp: owned_def)

lemma owned_memI: "e \<in> set m \<Longrightarrow> bi_backend (rc_backend_info (snd e)) \<in> set (owned m)"
  by (auto simp: owned_def case_prod_beta intro!: image_eqI [of _ _ e])

text \<open>A map with an entry at a key, split around the entry.\<close>

lemma um_split:
  assumes "um_find m k = Some v" "um_wf m"
  obtains xs ys where "m = xs @ (k, v) # ys" "k \<notin> set (um_keys xs)" "k \<notin> set (um_keys ys)"
proof -
  have "(k, v) \<in> set m"
    using assms by (simp add: um_find_set)
  then obtain xs ys where m: "m = xs @ (k, v) # ys"
    by (meson split_list)
  then have "k \<notin> set (um_keys xs)" "k \<notin> set (um_keys ys)"
    using assms(2) by (auto simp: um_wf_def um_keys_def)
  then show ?thesis
    using m that by blast
qed

lemma um_map_other:
  "k \<notin> set (um_keys xs) \<Longrightarrow> map (\<lambda>(j, w). if j = k then (j, v) else (j, w)) xs = xs"
  by (induction xs) (auto simp: um_keys_def)

lemma um_filter_other: "k \<notin> set (um_keys xs) \<Longrightarrow> filter (\<lambda>(j, _). j \<noteq> k) xs = xs"
  by (induction xs) (auto simp: um_keys_def)

lemma um_assign_split:
  assumes "m = xs @ (k, w) # ys" "k \<notin> set (um_keys xs)" "k \<notin> set (um_keys ys)"
  shows "um_assign k v m = xs @ (k, v) # ys"
proof -
  have "map_of xs k = None"
    using assms(2) by (simp add: map_of_eq_None_iff um_keys_def)
  then have "um_find m k = Some w"
    using assms(1) by (simp add: um_find_def map_add_def)
  then show ?thesis
    using assms by (simp add: um_assign_def um_map_other)
qed

lemma um_erase_split:
  assumes "m = xs @ (k, w) # ys" "k \<notin> set (um_keys xs)" "k \<notin> set (um_keys ys)"
  shows "um_erase k m = xs @ ys"
  using assms by (simp add: um_erase_def um_filter_other)

lemma owned_append [simp]: "owned (xs @ ys) = owned xs @ owned ys" "owned [] = []"
  "owned ((k, ctx) # ys) = bi_backend (rc_backend_info ctx) # owned ys"
  by (simp_all add: owned_def)

section \<open>Loading\<close>

definition loadable ::
  "boost_fs \<Rightarrow> (string \<Rightarrow> model_config option) \<Rightarrow> server_config \<Rightarrow> string \<Rightarrow> bool" where
  "loadable B parse cfg name \<longleftrightarrow>
     (case read_config B parse cfg name of
        None \<Rightarrow> False
      | Some config \<Rightarrow>
          ConvertStringToPlatformType (mc_platform config) = PLATFORM_DEMO \<and> config_ok config)"

lemma CreateModelBackend_demo:
  "(\<exists>b. CreateModelBackend cfg pf name v path config = (Success, Some b)) \<longleftrightarrow>
   pf = PLATFORM_DEMO \<and> config_ok config"
  using DemoBackend_Inr [of cfg name v path config]
  by (cases pf) (auto simp: CreateModelBackend_def DemoBackendFactory_CreateBackend_def split: sum.splits)

lemma CreateModelBackend_fields:
  assumes "CreateModelBackend cfg pf name v path config = (Success, Some b)"
  shows "mb_name b = name" "mb_version b = v"
    "length (mb_contexts b) = sum_list (map (\<lambda>g. nat (sint (grp_count g))) (mc_instance_group config))"
proof -
  have "DemoBackend cfg name v path config = Inr b"
    using assms
    by (cases pf) (auto simp: CreateModelBackend_def DemoBackendFactory_CreateBackend_def split: sum.splits)
  then show "mb_name b = name" "mb_version b = v"
    "length (mb_contexts b) = sum_list (map (\<lambda>g. nat (sint (grp_count g))) (mc_instance_group config))"
    using DemoBackend_fields(2,3) length_contexts by blast+
qed

lemma LoadModel_cases:
  obtains (refused) "LoadModel B parse (name, v) mm = (None, mm)"
      "\<not> loadable B parse (mm_server_cfg mm) name"
  | (loaded) bi b where
      "LoadModel B parse (name, v) mm =
         (Some bi, mm\<lparr>mm_heap := (mm_heap mm)(mm_next mm := Some b), mm_next := Suc (mm_next mm)\<rparr>)"
      "loadable B parse (mm_server_cfg mm) name"
      "bi_model_name bi = name" "bi_model_version bi = v" "bi_backend bi = mm_next mm"
      "read_config B parse (mm_server_cfg mm) name = Some (bi_model_config bi)"
      "mb_name b = name" "mb_version b = v"
      "length (mb_contexts b) =
         sum_list (map (\<lambda>g. nat (sint (grp_count g))) (mc_instance_group (bi_model_config bi)))"
proof (cases "read_config B parse (mm_server_cfg mm) name")
  case None
  then show ?thesis
    by (intro refused) (simp_all add: LoadModel_def loadable_def)
next
  case (Some config)
  let ?pf = "ConvertStringToPlatformType (mc_platform config)"
  let ?path = "CombinePath B (model_repo_path (mm_server_cfg mm)) [name]"
  let ?r = "CreateModelBackend (mm_server_cfg mm) ?pf name v ?path config"
  show ?thesis
  proof (cases "\<exists>b. ?r = (Success, Some b)")
    case True
    then obtain b where b: "?r = (Success, Some b)"
      by blast
    have ok: "?pf = PLATFORM_DEMO \<and> config_ok config"
      using True CreateModelBackend_demo by blast
    show ?thesis
      by (rule loaded [of "\<lparr>bi_model_name = name, bi_path = ?path, bi_platform = ?pf,
            bi_model_version = v, bi_model_config = config, bi_backend = mm_next mm\<rparr>" b])
        (use b ok Some CreateModelBackend_fields [OF b] in
          \<open>simp_all add: LoadModel_def loadable_def alloc_def\<close>)
  next
    case False
    then have "\<not> (?pf = PLATFORM_DEMO \<and> config_ok config)"
      using CreateModelBackend_demo by blast
    moreover have "LoadModel B parse (name, v) mm = (None, mm)"
      using False by (simp add: LoadModel_def Some Let_def split: prod.splits option.splits status.splits)
    ultimately show ?thesis
      by (intro refused) (auto simp: loadable_def Some)
  qed
qed

section \<open>The three kinds of change keep the ownership\<close>

lemma context_ok_new:
  assumes "mb_name b = name" "mb_version b = bi_model_version bi" "bi_model_name bi = name"
    "heap (bi_backend bi) = Some b"
  shows "context_ok heap (name, new_run_context mm bi)"
  using assms
  by (simp add: context_ok_def new_run_context_def Start_def SimpleScheduler_def)

lemma manager_wf_next: "manager_wf mm \<Longrightarrow> mm_heap mm (mm_next mm) = None"
  using manager_wfD(5) [of mm "mm_next mm"] by blast

lemma manager_wf_bump: "manager_wf mm \<Longrightarrow> manager_wf (mm\<lparr>mm_next := Suc (mm_next mm)\<rparr>)"
  by (auto simp: manager_wf_def intro: less_SucI)

lemma add_model_wf:
  assumes "manager_wf mm"
  shows "manager_wf (add_model B parse (name, v) mm)"
proof (cases rule: LoadModel_cases [of B parse name v mm])
  case refused
  then show ?thesis
    using assms by (simp add: add_model_def)
next
  case (loaded bi b)
  let ?mm' = "mm\<lparr>mm_heap := (mm_heap mm)(mm_next mm := Some b), mm_next := Suc (mm_next mm)\<rparr>"
  show ?thesis
  proof (cases "um_find (mm_model_map mm) name")
    case None
    have new: "mm_next mm \<notin> set (owned (mm_model_map mm))"
      using manager_wfD(4) [OF assms] manager_wf_next [OF assms] by auto
    have ok: "context_ok ((mm_heap mm)(mm_next mm := Some b)) e" if "e \<in> set (mm_model_map mm)" for e
    proof -
      have "bi_backend (rc_backend_info (snd e)) \<in> set (owned (mm_model_map mm))"
        using that by (rule owned_memI)
      then show ?thesis
        using manager_wfD(2) [OF assms that] new
        by (intro context_ok_heap_update) auto
    qed
    have map: "um_insert name ctx (mm_model_map mm) = mm_model_map mm @ [(name, ctx)]" for ctx
      using None by (simp add: um_insert_def)
    have "um_wf (mm_model_map mm @ [(name, ctx)])" for ctx
      using um.wf_insert [OF manager_wfD(1) [OF assms], of name ctx] by (simp only: map)
    moreover have "context_ok ((mm_heap mm)(mm_next mm := Some b)) (name, new_run_context ?mm' bi)"
      by (rule context_ok_new [where b = b]) (use loaded in simp_all)
    moreover have "bi_backend (rc_backend_info (new_run_context ?mm' bi)) = mm_next mm"
      by (simp add: new_run_context_def loaded)
    ultimately show ?thesis
      using ok new manager_wfD(3-6) [OF assms]
      by (auto simp: add_model_def loaded(1) None map manager_wf_def less_Suc_eq)
  next
    case (Some ctx)
    have "(mm_heap mm)(mm_next mm := None) = mm_heap mm"
      using manager_wf_next [OF assms] by auto
    then show ?thesis
      using manager_wf_bump [OF assms] by (simp add: add_model_def loaded(1,5) Some free_info_def)
  qed
qed

lemma update_model_wf:
  assumes "manager_wf mm"
  shows "manager_wf (update_model B parse (name, v) mm)"
proof (cases rule: LoadModel_cases [of B parse name v mm])
  case refused
  then show ?thesis
    using assms by (simp add: update_model_def)
next
  case (loaded bi b)
  show ?thesis
  proof (cases "um_find (mm_model_map mm) name")
    case None
    have "(mm_heap mm)(mm_next mm := None) = mm_heap mm"
      using manager_wf_next [OF assms] by auto
    then show ?thesis
      using manager_wf_bump [OF assms] by (simp add: update_model_def loaded(1,5) None free_info_def)
  next
    case (Some ctx)
    obtain xs ys where m: "mm_model_map mm = xs @ (name, ctx) # ys"
      "name \<notin> set (um_keys xs)" "name \<notin> set (um_keys ys)"
      using um_split [OF Some manager_wfD(1) [OF assms]] by metis
    define old where "old = bi_backend (rc_backend_info ctx)"
    define ctx' where "ctx' = \<lparr>rc_scheduler = snd (UpdateBackendInferFunc (bi_backend bi) (rc_scheduler ctx)),
        rc_backend_info = bi\<rparr>"
    define heap' where "heap' = (mm_heap mm)(mm_next mm := Some b, old := None)"
    have eq: "update_model B parse (name, v) mm =
        mm\<lparr>mm_model_map := xs @ (name, ctx') # ys, mm_heap := heap', mm_next := Suc (mm_next mm)\<rparr>"
      using um_assign_split [OF m]
      by (simp add: update_model_def loaded(1) Some Let_def free_info_def ctx'_def heap'_def old_def)
    have own: "distinct (owned xs @ old # owned ys)" "dom (mm_heap mm) = set (owned xs @ old # owned ys)"
      using manager_wfD(3,4) [OF assms] by (simp_all add: m(1) old_def)
    have new: "mm_next mm \<notin> set (owned xs @ old # owned ys)"
      using own(2) manager_wf_next [OF assms] by auto
    have ok: "context_ok heap' e" if "e \<in> set xs \<union> set ys" for e
    proof -
      have "bi_backend (rc_backend_info (snd e)) \<in> set (owned xs) \<union> set (owned ys)"
        using that owned_memI [of e xs] owned_memI [of e ys] by auto
      then show ?thesis
        unfolding heap'_def using manager_wfD(2) [OF assms, of e] that own(1) new m(1)
        by (intro context_ok_heap_update) auto
    qed
    have ctx_ok: "context_ok (mm_heap mm) (name, ctx)"
      using manager_wfD(2) [OF assms] m(1) by simp
    have "context_ok heap' (name, ctx')"
      using ctx_ok loaded new
      by (auto simp: context_ok_def Let_def ctx'_def heap'_def UpdateBackendInferFunc_def)
    moreover have "dom heap' = set (owned (xs @ (name, ctx') # ys))"
      using own new by (auto simp: heap'_def ctx'_def loaded(5))
    moreover have "\<forall>a \<in> dom heap'. a < Suc (mm_next mm)"
      using manager_wfD(5) [OF assms] by (fastforce simp: heap'_def less_Suc_eq split: if_splits)
    ultimately show ?thesis
      using manager_wfD(1) [OF assms] ok own new
      by (auto simp: eq manager_wf_def m(1) um_wf_def ctx'_def loaded(5))
  qed
qed

lemma delete_model_wf:
  assumes "manager_wf mm"
  shows "manager_wf (delete_model name mm)"
proof (cases "um_find (mm_model_map mm) name")
  case None
  then show ?thesis
    using assms by (simp add: delete_model_def)
next
  case (Some ctx)
  obtain xs ys where m: "mm_model_map mm = xs @ (name, ctx) # ys"
    "name \<notin> set (um_keys xs)" "name \<notin> set (um_keys ys)"
    using um_split [OF Some manager_wfD(1) [OF assms]] by metis
  define old where "old = bi_backend (rc_backend_info ctx)"
  have eq: "delete_model name mm =
      mm\<lparr>mm_model_map := xs @ ys, mm_heap := (mm_heap mm)(old := None)\<rparr>"
    using um_erase_split [OF m] by (simp add: delete_model_def Some free_info_def old_def)
  have own: "distinct (owned xs @ old # owned ys)" "dom (mm_heap mm) = set (owned xs @ old # owned ys)"
    using manager_wfD(3,4) [OF assms] by (simp_all add: m(1) old_def)
  have ok: "context_ok ((mm_heap mm)(old := None)) e" if "e \<in> set xs \<union> set ys" for e
  proof -
    have "bi_backend (rc_backend_info (snd e)) \<in> set (owned xs) \<union> set (owned ys)"
      using that owned_memI [of e xs] owned_memI [of e ys] by auto
    then show ?thesis
      using manager_wfD(2) [OF assms, of e] that own(1) m(1)
      by (intro context_ok_heap_update) auto
  qed
  have "dom ((mm_heap mm)(old := None)) = set (owned (xs @ ys))"
    using own by auto
  moreover have "\<forall>a \<in> dom ((mm_heap mm)(old := None)). a < mm_next mm"
    using manager_wfD(5) [OF assms] by (auto split: if_splits)
  ultimately show ?thesis
    using manager_wfD(1) [OF assms] ok own(1) unfolding eq manager_wf_def
    by (auto simp: m(1) um_wf_def)
qed

lemma fold_add_wf: "manager_wf mm \<Longrightarrow> manager_wf (fold (add_model B parse) infos mm)"
  by (induction infos arbitrary: mm) (auto simp: add_model_wf)

lemma fold_update_wf: "manager_wf mm \<Longrightarrow> manager_wf (fold (update_model B parse) infos mm)"
  by (induction infos arbitrary: mm) (auto simp: update_model_wf)

lemma fold_delete_wf: "manager_wf mm \<Longrightarrow> manager_wf (fold delete_model names mm)"
  by (induction names arbitrary: mm) (auto simp: delete_model_wf)

lemma LoadModels_wf_aux:
  "manager_wf mm \<Longrightarrow> LoadModels B parse mm = Inr mm' \<Longrightarrow> manager_wf mm'"
  by (auto simp: LoadModels_def fold_add_wf fold_update_wf fold_delete_wf split: sum.splits)

section \<open>The version served after a pass\<close>

text \<open>The abstract state: which version each name is served at.\<close>

definition version_of :: "'p manager \<Rightarrow> string \<Rightarrow> int option" where
  "version_of mm n =
     map_option (\<lambda>ctx. bi_model_version (rc_backend_info ctx)) (um_find (mm_model_map mm) n)"

lemma server_cfg_frame [simp]:
  "mm_server_cfg (add_model B parse i mm) = mm_server_cfg mm"
  "mm_server_cfg (update_model B parse i mm) = mm_server_cfg mm"
  "mm_server_cfg (delete_model n mm) = mm_server_cfg mm"
proof -
  obtain name v where i: "i = (name, v)"
    by (cases i)
  show "mm_server_cfg (add_model B parse i mm) = mm_server_cfg mm"
    "mm_server_cfg (update_model B parse i mm) = mm_server_cfg mm"
    by (cases rule: LoadModel_cases [of B parse name v mm];
        simp add: i add_model_def update_model_def free_info_def Let_def split: option.split)+
  show "mm_server_cfg (delete_model n mm) = mm_server_cfg mm"
    by (simp add: delete_model_def free_info_def split: option.split)
qed

lemma version_add:
  assumes "manager_wf mm"
  shows "version_of (add_model B parse (name, v) mm) n =
     (if n = name \<and> version_of mm n = None \<and> loadable B parse (mm_server_cfg mm) name
      then Some v else version_of mm n)"
proof (cases rule: LoadModel_cases [of B parse name v mm])
  case refused
  then show ?thesis
    by (simp add: add_model_def)
next
  case (loaded bi b)
  then show ?thesis
    using manager_wfD(1) [OF assms]
    by (cases "um_find (mm_model_map mm) name")
      (auto simp: add_model_def version_of_def free_info_def new_run_context_def)
qed

lemma version_update:
  assumes "manager_wf mm"
  shows "version_of (update_model B parse (name, v) mm) n =
     (if n = name \<and> version_of mm n \<noteq> None \<and> loadable B parse (mm_server_cfg mm) name
      then Some v else version_of mm n)"
proof (cases rule: LoadModel_cases [of B parse name v mm])
  case refused
  then show ?thesis
    by (simp add: update_model_def)
next
  case (loaded bi b)
  then show ?thesis
    using manager_wfD(1) [OF assms]
    by (cases "um_find (mm_model_map mm) name")
      (auto simp: update_model_def version_of_def free_info_def Let_def)
qed

lemma version_delete:
  assumes "manager_wf mm"
  shows "version_of (delete_model name mm) n = (if n = name then None else version_of mm n)"
  using manager_wfD(1) [OF assms]
  by (cases "um_find (mm_model_map mm) name") (auto simp: delete_model_def version_of_def free_info_def)

lemma fold_cfg [simp]:
  "mm_server_cfg (fold (add_model B parse) infos mm) = mm_server_cfg mm"
  "mm_server_cfg (fold (update_model B parse) infos mm) = mm_server_cfg mm"
  "mm_server_cfg (fold delete_model names mm) = mm_server_cfg mm"
  by (induction infos arbitrary: mm; simp)+ (induction names arbitrary: mm; simp)

lemma version_add_all:
  "manager_wf mm \<Longrightarrow> version_of (fold (add_model B parse) infos mm) n =
     (case version_of mm n of
        Some v \<Rightarrow> Some v
      | None \<Rightarrow> if loadable B parse (mm_server_cfg mm) n then map_of infos n else None)"
proof (induction infos arbitrary: mm)
  case Nil
  then show ?case by (simp split: option.split)
next
  case (Cons i infos)
  then show ?case
    by (cases i) (auto simp: add_model_wf version_add split: option.split)
qed

lemma version_update_all:
  "manager_wf mm \<Longrightarrow> version_of (fold (update_model B parse) infos mm) n =
     (case version_of mm n of
        None \<Rightarrow> None
      | Some v \<Rightarrow> if loadable B parse (mm_server_cfg mm) n
                  then (case map_of (rev infos) n of Some w \<Rightarrow> Some w | None \<Rightarrow> Some v)
                  else Some v)"
proof (induction infos arbitrary: mm)
  case Nil
  then show ?case by (simp split: option.split)
next
  case (Cons i infos)
  then show ?case
    by (cases i) (auto simp: update_model_wf version_update map_add_def split: option.split)
qed

lemma version_delete_all:
  "manager_wf mm \<Longrightarrow> version_of (fold delete_model names mm) n =
     (if n \<in> set names then None else version_of mm n)"
  by (induction names arbitrary: mm) (auto simp: delete_model_wf version_delete)

section \<open>The scan\<close>

text \<open>The version of a listed model that the scan finds: none without a valid one.\<close>

definition found_version ::
  "boost_fs \<Rightarrow> (string \<Rightarrow> model_config option) \<Rightarrow> server_config \<Rightarrow> string \<Rightarrow> int option" where
  "found_version B parse cfg n =
     (case read_config B parse cfg n of
        None \<Rightarrow> None
      | Some _ \<Rightarrow>
          (case GetHighestVersion B cfg n of
             Inl _ \<Rightarrow> None
           | Inr v \<Rightarrow> if v = -1 then None else Some v))"

definition scan_added where
  "scan_added B parse cfg m names =
     List.map_filter (\<lambda>n. case (found_version B parse cfg n, um_find m n) of
        (Some v, None) \<Rightarrow> Some (n, v) | _ \<Rightarrow> None) names"

definition scan_updated where
  "scan_updated B parse cfg m names =
     List.map_filter (\<lambda>n. case (found_version B parse cfg n, um_find m n) of
        (Some v, Some ctx) \<Rightarrow>
          if bi_model_version (rc_backend_info ctx) \<noteq> v then Some (n, v) else None
      | _ \<Rightarrow> None) names"

lemma map_filter_Cons: "List.map_filter f (x # xs) =
    (case f x of None \<Rightarrow> List.map_filter f xs | Some y \<Rightarrow> y # List.map_filter f xs)"
  by (simp add: List.map_filter_def split: option.split)

lemma scan_Nil [simp]: "scan_added B parse cfg m [] = []" "scan_updated B parse cfg m [] = []"
  by (simp_all add: scan_added_def scan_updated_def List.map_filter_def)

lemma scan_Cons_none:
  "found_version B parse cfg n = None \<Longrightarrow> scan_added B parse cfg m (n # ns) = scan_added B parse cfg m ns"
  "found_version B parse cfg n = None \<Longrightarrow>
   scan_updated B parse cfg m (n # ns) = scan_updated B parse cfg m ns"
  by (simp_all add: scan_added_def scan_updated_def map_filter_Cons)

lemma scan_Cons_some:
  assumes "found_version B parse cfg n = Some v"
  shows "scan_added B parse cfg m (n # ns) =
      (if um_find m n = None then [(n, v)] else []) @ scan_added B parse cfg m ns"
    "scan_updated B parse cfg m (n # ns) =
      (case um_find m n of
         Some ctx \<Rightarrow> if bi_model_version (rc_backend_info ctx) \<noteq> v then [(n, v)] else []
       | None \<Rightarrow> []) @ scan_updated B parse cfg m ns"
  using assms by (auto simp: scan_added_def scan_updated_def map_filter_Cons split: option.split)

lemma scan_models_spec:
  "scan_models B parse cfg m names added updated = Inr (a, u) \<Longrightarrow>
   a = added @ scan_added B parse cfg m names \<and> u = updated @ scan_updated B parse cfg m names"
proof (induction names arbitrary: added updated)
  case Nil
  then show ?case by simp
next
  case (Cons n names)
  show ?case
  proof (cases "found_version B parse cfg n")
    case None
    then have "scan_models B parse cfg m names added updated = Inr (a, u)"
      using Cons.prems by (auto simp: found_version_def split: option.splits sum.splits if_splits)
    from Cons.IH [OF this] show ?thesis
      by (simp add: scan_Cons_none None)
  next
    case (Some v)
    then have v: "read_config B parse cfg n \<noteq> None" "GetHighestVersion B cfg n = Inr v" "v \<noteq> -1"
      by (auto simp: found_version_def split: option.splits sum.splits if_splits)
    note cons = scan_Cons_some [OF Some]
    show ?thesis
    proof (cases "um_find m n")
      case None
      then have "scan_models B parse cfg m names (added @ [(n, v)]) updated = Inr (a, u)"
        using Cons.prems v by (auto split: option.splits)
      from Cons.IH [OF this] show ?thesis
        by (simp add: cons None)
    next
      case (Some ctx)
      then have "scan_models B parse cfg m names added
          (updated @ (if bi_model_version (rc_backend_info ctx) \<noteq> v then [(n, v)] else [])) = Inr (a, u)"
        using Cons.prems v by (auto split: option.splits if_splits)
      from Cons.IH [OF this] show ?thesis
        by (simp add: cons Some)
    qed
  qed
qed

lemma map_of_map_filter:
  assumes "\<And>n p. f n = Some p \<Longrightarrow> fst p = n"
  shows "map_of (List.map_filter f names) n = (if n \<in> set names then map_option snd (f n) else None)"
    and "map_of (rev (List.map_filter f names)) n = (if n \<in> set names then map_option snd (f n) else None)"
proof (induction names)
  case Nil
  {
    case 1 show ?case by (simp add: List.map_filter_def)
  next
    case 2 show ?case by (simp add: List.map_filter_def)
  }
next
  case (Cons x names)
  {
    case 1
    show ?case
      using Cons assms by (cases "f x") (auto simp: map_filter_Cons split: prod.splits)
  next
    case 2
    show ?case
      using Cons assms by (cases "f x") (auto simp: map_filter_Cons map_add_def split: option.splits)
  }
qed

text \<open>The specification of a pass, for one name.\<close>

definition reconcile ::
  "boost_fs \<Rightarrow> (string \<Rightarrow> model_config option) \<Rightarrow> server_config \<Rightarrow> string list \<Rightarrow>
   (string \<Rightarrow> int option) \<Rightarrow> string \<Rightarrow> int option" where
  "reconcile B parse cfg listed served n =
     (if n \<notin> set listed then None
      else case found_version B parse cfg n of
             None \<Rightarrow> served n
           | Some v \<Rightarrow> if loadable B parse cfg n then Some v else served n)"

lemma LoadModels_listed:
  assumes "LoadModels B parse mm = Inr mm'"
  obtains names where
    "GetDirectorySubDirs B (model_repo_path (mm_server_cfg mm)) = Some names"
    "mm' = fold delete_model (filter (\<lambda>n. n \<notin> set names) (um_keys (mm_model_map mm)))
       (fold (update_model B parse) (scan_updated B parse (mm_server_cfg mm) (mm_model_map mm) names)
         (fold (add_model B parse) (scan_added B parse (mm_server_cfg mm) (mm_model_map mm) names) mm))"
proof -
  obtain names a u where n: "GetDirectorySubDirs B (model_repo_path (mm_server_cfg mm)) = Some names"
    "scan_models B parse (mm_server_cfg mm) (mm_model_map mm) names [] [] = Inr (a, u)"
    "mm' = fold delete_model (filter (\<lambda>n. n \<notin> set names) (um_keys (mm_model_map mm)))
       (fold (update_model B parse) u (fold (add_model B parse) a mm))"
    using assms
    by (auto simp: LoadModels_def GetModelStateUpdate_def Let_def split: option.splits sum.splits)
  from scan_models_spec [OF n(2)] n(1,3) that show ?thesis
    by simp
qed

lemma LoadModels_version:
  assumes "manager_wf mm" "LoadModels B parse mm = Inr mm'"
    "GetDirectorySubDirs B (model_repo_path (mm_server_cfg mm)) = Some names"
  shows "version_of mm' n = reconcile B parse (mm_server_cfg mm) names (version_of mm) n"
proof -
  let ?cfg = "mm_server_cfg mm" and ?m = "mm_model_map mm"
  have mm': "mm' = fold delete_model (filter (\<lambda>n. n \<notin> set names) (um_keys ?m))
       (fold (update_model B parse) (scan_updated B parse ?cfg ?m names)
         (fold (add_model B parse) (scan_added B parse ?cfg ?m names) mm))"
    using LoadModels_listed [OF assms(2)] assms(3) by (metis option.inject)
  have added: "map_of (scan_added B parse ?cfg ?m names) n =
      (if n \<in> set names \<and> version_of mm n = None then found_version B parse ?cfg n else None)"
    unfolding scan_added_def
    by (subst map_of_map_filter) (auto simp: version_of_def split: option.splits)
  have updated: "map_of (rev (scan_updated B parse ?cfg ?m names)) n =
      (case version_of mm n of
         Some v \<Rightarrow> if n \<in> set names \<and> found_version B parse ?cfg n \<noteq> Some v
                   then found_version B parse ?cfg n else None
       | None \<Rightarrow> None)"
    unfolding scan_updated_def
    by (subst map_of_map_filter) (auto simp: version_of_def split: option.splits if_splits)
  have key: "n \<in> set (um_keys ?m) \<longleftrightarrow> version_of mm n \<noteq> None"
    using um_find_None [of ?m n] by (auto simp: version_of_def)
  show ?thesis
    unfolding mm' reconcile_def
    by (simp add: version_delete_all version_update_all version_add_all fold_add_wf fold_update_wf
        assms(1) added updated key split: option.split)
qed

lemma LoadModels_cfg: "LoadModels B parse mm = Inr mm' \<Longrightarrow> mm_server_cfg mm' = mm_server_cfg mm"
proof -
  assume "LoadModels B parse mm = Inr mm'"
  moreover have "mm_server_cfg (fold (add_model B parse) a m) = mm_server_cfg m" for a and m :: "'p manager"
    by (induction a arbitrary: m) simp_all
  moreover have "mm_server_cfg (fold (update_model B parse) u m) = mm_server_cfg m" for u and m :: "'p manager"
    by (induction u arbitrary: m) simp_all
  moreover have "mm_server_cfg (fold delete_model d m) = mm_server_cfg m" for d and m :: "'p manager"
    by (induction d arbitrary: m) simp_all
  ultimately show ?thesis
    by (auto simp: LoadModels_def split: sum.splits)
qed

text \<open>A second pass over the same repository changes no version.\<close>

lemma reconcile_idem:
  "reconcile B parse cfg listed (reconcile B parse cfg listed served) n =
   reconcile B parse cfg listed served n"
  by (simp add: reconcile_def split: option.split)

lemma manager_wf_running: "manager_wf (mm\<lparr>mm_running := r\<rparr>) = manager_wf mm"
  by (simp add: manager_wf_def)

lemma UploadLoop_wf:
  "manager_wf mm \<Longrightarrow> UploadLoop parse turns mm = Inr mm' \<Longrightarrow> manager_wf mm'"
proof (induction turns arbitrary: mm)
  case (Cons t turns)
  obtain B r where t: "t = (B, r)"
    by (cases t)
  show ?case
  proof (cases r)
    case False
    then show ?thesis
      using Cons.prems by (auto simp: t UploadLoop_turn_def manager_wf_running)
  next
    case True
    then obtain mm1 where "LoadModels B parse (mm\<lparr>mm_running := r\<rparr>) = Inr mm1"
      "UploadLoop parse turns mm1 = Inr mm'"
      using Cons.prems(2) by (auto simp: t UploadLoop_turn_def map_sum_def split: sum.splits)
    then show ?thesis
      using Cons.IH LoadModels_wf_aux [of "mm\<lparr>mm_running := r\<rparr>"] Cons.prems(1) manager_wf_running by blast
  qed
qed simp

text \<open>What \<open>GetModelStatus\<close> reports: each served model with its one version, ready.\<close>

lemma status_fold:
  "um_wf acc \<Longrightarrow> um_wf m \<Longrightarrow> set (um_keys m) \<inter> set (um_keys acc) = {} \<Longrightarrow>
   um_find (fold (\<lambda>(name, ctx) acc. um_assign name (f ctx) acc) m acc) n =
     (case um_find m n of Some ctx \<Rightarrow> Some (f ctx) | None \<Rightarrow> um_find acc n)"
proof (induction m arbitrary: acc)
  case (Cons e m)
  obtain name ctx where e: "e = (name, ctx)"
    by (cases e)
  have "um_wf m" "name \<notin> set (um_keys m)"
    using Cons.prems(2) by (auto simp: e um_wf_def um_keys_def)
  moreover have "set (um_keys m) \<inter> set (um_keys (um_assign name (f ctx) acc)) = {}"
    using Cons.prems(3) calculation(2) unfolding um_keys_assign by (auto simp: e um_keys_def)
  moreover have "um_find m name = None"
    using calculation(2) by (simp add: um_find_None)
  ultimately show ?case
    using Cons.IH [of "um_assign name (f ctx) acc"] Cons.prems(1)
    by (auto simp: e um_find_def [of "(name, ctx) # m"] um_find_def [of m, symmetric] split: option.split)
qed simp

lemma GetModelStatus_find:
  assumes "um_wf (mm_model_map mm)"
  shows "um_find (GetModelStatus mm) n =
     map_option (\<lambda>v. \<lparr>version_status = [(v, MODEL_READY)]\<rparr>) (version_of mm n)"
proof -
  have one: "um_assign v MODEL_READY [] = [(v, MODEL_READY)]" for v :: int
    by (simp add: um_assign_def)
  let ?f = "\<lambda>ctx. \<lparr>version_status = [(bi_model_version (rc_backend_info ctx), MODEL_READY)]\<rparr>"
  show ?thesis
    using status_fold [of "[]" "mm_model_map mm" ?f n] assms
    by (simp add: GetModelStatus_def version_of_def one um_keys_def split: option.split_asm option.split)
qed

text \<open>Stopping the manager frees every backend.\<close>

lemma free_all:
  "mm_heap (fold (\<lambda>(_, ctx). free_info (rc_backend_info ctx)) m mm) a =
   (if a \<in> set (owned m) then None else mm_heap mm a)"
proof (induction m arbitrary: mm)
  case (Cons e m)
  obtain n ctx where e: "e = (n, ctx)"
    by (cases e)
  show ?case
    using Cons.IH [of "free_info (rc_backend_info ctx) mm"] by (simp add: e free_info_def)
qed simp

lemma Stop_frees_all:
  assumes "manager_wf mm"
  shows "mm_heap (snd (ModelManager_Stop mm)) a = None"
proof -
  have "mm_heap mm a = None" if "a \<notin> set (owned (mm_model_map mm))"
    using manager_wfD(4) [OF assms] that by auto
  then show ?thesis
    by (simp add: ModelManager_Stop_def Let_def free_all)
qed

end
