(* ===== verification/Grpc_Context.thy ===== *)
theory Grpc_Context
  imports Inference_Payload
begin

text \<open>
  \<open>src/core/server/grpc_infer_request_context.{h,cc}\<close>: one inference call at the gRPC
  boundary. The context builds the payload from the request message and, when the
  inference is over, writes the response message.
\<close>

section \<open>Building the payload\<close>

record 'c infer_context =
  ctx_request :: infer_request
  ctx_response :: infer_response
  ctx_payload :: "'c payload"

definition input_memory :: "infer_request \<Rightarrow> memory_reference list" where
  "input_memory req =
     map (\<lambda>raw. \<lparr>mem_addr = raw, mem_length = word_of_nat (length raw)\<rparr>) (irq_raw_input req)"

definition GrpcInferRequestContext ::
  "infer_request \<Rightarrow> infer_response \<Rightarrow> 'c \<Rightarrow> exn + 'c infer_context" where
  "GrpcInferRequestContext req resp func =
     (case InferencePayload (irq_model_name req) (irq_model_version req) (input_memory req)
             (Some (irq_meta_data req)) func of
        Inl e \<Rightarrow> Inl e
      | Inr p \<Rightarrow> Inr \<lparr>ctx_request = req, ctx_response = resp, ctx_payload = p\<rparr>)"

section \<open>Completion\<close>

text \<open>The loop over the output indices, appending one raw output per index.\<close>

fun collect_outputs :: "nat list \<Rightarrow> bytes list \<Rightarrow> 'c payload \<Rightarrow> exn + (bytes list \<times> 'c payload)" where
  "collect_outputs [] acc p = Inr (acc, p)"
| "collect_outputs (idx # idxs) acc p =
     (case GetOutputBuffer (word_of_nat idx) p of
        Inl e \<Rightarrow> Inl e
      | Inr (b, p') \<Rightarrow> collect_outputs idxs (acc @ [b]) p')"

definition OnInferCompleted :: "status \<Rightarrow> string \<Rightarrow> 'c infer_context \<Rightarrow> exn + 'c infer_context" where
  "OnInferCompleted st message ctx =
     (if st = Success then
        (let resp = ctx_response ctx;
             p = ctx_payload ctx;
             resp1 = resp\<lparr>irs_meta_data := pl_response_header p\<rparr>;
             p1 = p\<lparr>pl_response_header := irs_meta_data resp\<rparr>
         in case collect_outputs [0..<Suc (nat (sint (pl_max_output_index p1)))]
                   (irs_raw_output resp1) p1 of
              Inl e \<Rightarrow> Inl e
            | Inr (raws, p2) \<Rightarrow> Inr (ctx
                \<lparr>ctx_response := resp1
                   \<lparr>irs_raw_output := raws,
                    irs_request_status :=
                      (irs_request_status resp1)\<lparr>rst_code := SUCCESS, rst_msg := message\<rparr>\<rparr>,
                 ctx_payload := p2\<rparr>))
      else Inr (ctx\<lparr>ctx_response := empty_infer_response
                      \<lparr>irs_request_status :=
                         empty_request_status\<lparr>rst_code := INTERNAL, rst_msg := message\<rparr>\<rparr>\<rparr>))"

section \<open>Lemmas\<close>

lemma GrpcInferRequestContext_Inr:
  obtains ctx where "GrpcInferRequestContext req resp func = Inr ctx"
    "ctx_request ctx = req" "ctx_response ctx = resp" "payload_wf (ctx_payload ctx)"
    "pl_model_name (ctx_payload ctx) = irq_model_name req"
    "pl_inputs_memory (ctx_payload ctx) = input_memory req"
    "pl_response_header (ctx_payload ctx) = empty_response_header"
    "\<And>j. output_at (ctx_payload ctx) j = []"
    "pl_max_output_index (ctx_payload ctx) = 0"
    "pl_on_infer_completed_func (ctx_payload ctx) = func"
  by (rule that [of "\<lparr>ctx_request = req, ctx_response = resp,
      ctx_payload = \<lparr>pl_model_name = irq_model_name req, pl_model_version = irq_model_version req,
        pl_request_header = Some (irq_meta_data req), pl_response_header = empty_response_header,
        pl_inputs_memory = input_memory req, pl_output_buffer_map = [],
        pl_on_infer_completed_func = func, pl_max_output_index = 0\<rparr>\<rparr>"])
    (simp_all add: GrpcInferRequestContext_def InferencePayload_def output_at_def payload_wf_def
      um_keys_def)

lemma collect_outputs_spec:
  assumes "payload_wf p" "\<forall>i \<in> set idxs. int i \<le> sint (pl_max_output_index p)"
  shows "\<exists>p'. collect_outputs idxs acc p = Inr (acc @ map (\<lambda>i. output_at p (word_of_nat i)) idxs, p') \<and>
     payload_wf p' \<and> pl_max_output_index p' = pl_max_output_index p \<and>
     pl_response_header p' = pl_response_header p"
  using assms
proof (induction idxs arbitrary: acc p)
  case Nil
  then show ?case by simp
next
  case (Cons i idxs)
  have "int i < 2 ^ 31"
    using Cons.prems(2) sint_i32_range(2) [of "pl_max_output_index p"] by simp
  then have le: "sint (word_of_nat i :: i32) \<le> sint (pl_max_output_index p)"
    using Cons.prems(2) by (simp add: sint_of_nat_i32)
  from GetOutputBuffer_value [OF Cons.prems(1) le] obtain p1 where
    p1: "GetOutputBuffer (word_of_nat i) p = Inr (output_at p (word_of_nat i), p1)"
    "\<And>j. output_at p1 j = output_at p j" "pl_max_output_index p1 = pl_max_output_index p"
    "pl_response_header p1 = pl_response_header p" "payload_wf p1"
    by metis
  from Cons.IH [OF p1(5), of "acc @ [output_at p (word_of_nat i)]"] Cons.prems(2)
  show ?case
    by (auto simp: p1)
qed

text \<open>
  The response of a successful inference: the header as registered, and one raw output
  per index from 0 to the maximum, the empty buffer where nothing was registered.
\<close>

lemma OnInferCompleted_success:
  assumes "payload_wf (ctx_payload ctx)"
  shows "\<exists>ctx'. OnInferCompleted Success message ctx = Inr ctx' \<and>
     irs_meta_data (ctx_response ctx') = pl_response_header (ctx_payload ctx) \<and>
     irs_raw_output (ctx_response ctx') = irs_raw_output (ctx_response ctx) @
       map (\<lambda>i. output_at (ctx_payload ctx) (word_of_nat i))
         [0..<Suc (nat (sint (pl_max_output_index (ctx_payload ctx))))] \<and>
     rst_code (irs_request_status (ctx_response ctx')) = SUCCESS \<and>
     rst_msg (irs_request_status (ctx_response ctx')) = message"
proof -
  let ?p1 = "ctx_payload ctx\<lparr>pl_response_header := irs_meta_data (ctx_response ctx)\<rparr>"
  let ?idxs = "[0..<Suc (nat (sint (pl_max_output_index (ctx_payload ctx))))]"
  have wf: "payload_wf ?p1" and mx: "0 \<le> sint (pl_max_output_index (ctx_payload ctx))"
    using assms by (simp_all add: payload_wf_def)
  have same: "output_at ?p1 j = output_at (ctx_payload ctx) j" for j
    by (simp add: output_at_def)
  have "\<forall>i \<in> set ?idxs. int i \<le> sint (pl_max_output_index ?p1)"
    using mx by auto
  from collect_outputs_spec [OF wf this, of "irs_raw_output (ctx_response ctx)"]
  show ?thesis
    by (auto simp: OnInferCompleted_def Let_def same simp del: upt_Suc)
qed

lemma OnInferCompleted_failure:
  assumes "st \<noteq> Success"
  shows "\<exists>ctx'. OnInferCompleted st message ctx = Inr ctx' \<and>
     irs_raw_output (ctx_response ctx') = [] \<and>
     irs_meta_data (ctx_response ctx') = empty_response_header \<and>
     rst_code (irs_request_status (ctx_response ctx')) = INTERNAL \<and>
     rst_msg (irs_request_status (ctx_response ctx')) = message"
  using assms by (simp add: OnInferCompleted_def empty_infer_response_def)

text \<open>
  The contexts a call can be in: made from a request, then changed by whatever a backend does
  with the payload (a registration that does not read past its source, a read of an output
  buffer, with any arguments) and by completions.
\<close>

inductive context_reachable :: "'c infer_context \<Rightarrow> bool" where
  make: "GrpcInferRequestContext req resp func = Inr ctx \<Longrightarrow> context_reachable ctx"
| register: "context_reachable ctx \<Longrightarrow>
    RegisterInferOutput n idx content sz shape (ctx_payload ctx) = (r, p) \<Longrightarrow> r \<noteq> Register_undefined \<Longrightarrow>
    context_reachable (ctx\<lparr>ctx_payload := p\<rparr>)"
| read: "context_reachable ctx \<Longrightarrow> GetOutputBuffer idx (ctx_payload ctx) = Inr (b, p) \<Longrightarrow>
    context_reachable (ctx\<lparr>ctx_payload := p\<rparr>)"
| complete: "context_reachable ctx \<Longrightarrow> OnInferCompleted st message ctx = Inr ctx' \<Longrightarrow>
    context_reachable ctx'"

lemma collect_outputs_wf:
  "collect_outputs idxs acc p = Inr (raws, p') \<Longrightarrow> payload_wf p \<Longrightarrow> payload_wf p'"
  by (induction idxs arbitrary: acc p) (auto split: sum.splits dest: GetOutputBuffer_wf)

lemma OnInferCompleted_wf:
  assumes "OnInferCompleted st message ctx = Inr ctx'" "payload_wf (ctx_payload ctx)"
  shows "payload_wf (ctx_payload ctx')"
proof (cases "st = Success")
  case True
  have "payload_wf ((ctx_payload ctx)\<lparr>pl_response_header := irs_meta_data (ctx_response ctx)\<rparr>)"
    using assms(2) by (simp add: payload_wf_def)
  then show ?thesis
    using assms(1) True collect_outputs_wf
    by (fastforce simp: OnInferCompleted_def Let_def simp del: upt_Suc split: sum.splits)
next
  case False
  then show ?thesis
    using assms by (auto simp: OnInferCompleted_def)
qed

lemma context_reachable_wf: "context_reachable ctx \<Longrightarrow> payload_wf (ctx_payload ctx)"
proof (induction rule: context_reachable.induct)
  case (make req resp func ctx)
  then show ?case
    using GrpcInferRequestContext_Inr by (metis sum.inject(2))
next
  case (complete ctx st message ctx')
  then show ?case
    using OnInferCompleted_wf by metis
qed (auto dest: RegisterInferOutput_wf GetOutputBuffer_wf)

text \<open>A whole call: context, backend registrations, completion.\<close>

definition serve_call :: "infer_request \<Rightarrow> output_tensor list \<Rightarrow> status \<Rightarrow> string \<Rightarrow> exn + infer_response" where
  "serve_call req ts st message =
     (case GrpcInferRequestContext req empty_infer_response () of
        Inl e \<Rightarrow> Inl e
      | Inr ctx \<Rightarrow>
          (case OnInferCompleted st message
                  (ctx\<lparr>ctx_payload := snd (register_all ts (ctx_payload ctx))\<rparr>) of
             Inl e \<Rightarrow> Inl e
           | Inr ctx' \<Rightarrow> Inr (ctx_response ctx')))"

definition max_tensor_index :: "output_tensor list \<Rightarrow> nat" where
  "max_tensor_index ts = nat (Max (insert 0 ((\<lambda>t. sint (tensor_index t)) ` set ts)))"

lemma serve_call_success:
  assumes "\<forall>t \<in> set ts. small_tensor t"
  shows "\<exists>resp. serve_call req ts Success message = Inr resp \<and>
     rs_output (irs_meta_data resp) = map tensor_header ts \<and>
     irs_raw_output resp =
       map (\<lambda>i. case last_at ts (word_of_nat i) of Some c \<Rightarrow> c | None \<Rightarrow> [])
         [0..<Suc (max_tensor_index ts)] \<and>
     rst_code (irs_request_status resp) = SUCCESS"
proof -
  obtain ctx where ctx: "GrpcInferRequestContext req empty_infer_response () = Inr ctx"
    "ctx_response ctx = empty_infer_response" "payload_wf (ctx_payload ctx)"
    "pl_response_header (ctx_payload ctx) = empty_response_header"
    "\<And>j. output_at (ctx_payload ctx) j = []" "pl_max_output_index (ctx_payload ctx) = 0"
    using GrpcInferRequestContext_Inr [of req empty_infer_response "()"] by metis
  from register_all_spec [OF ctx(3) assms, unfolded ctx(5)] obtain p' where
    p': "register_all ts (ctx_payload ctx) = (Registered Success, p')" "payload_wf p'"
    "rs_output (pl_response_header p') = map tensor_header ts"
    "\<And>j. output_at p' j = (case last_at ts j of Some c \<Rightarrow> c | None \<Rightarrow> [])"
    "sint (pl_max_output_index p') = Max (insert 0 ((\<lambda>t. sint (tensor_index t)) ` set ts))"
    by (auto simp: ctx empty_response_header_def)
  from OnInferCompleted_success [of "ctx\<lparr>ctx_payload := p'\<rparr>" message] p'(2)
  show ?thesis
    by (auto simp: serve_call_def ctx p' max_tensor_index_def
        simp del: upt_Suc)
qed

end
