(* ===== verification/Inference_Core.thy ===== *)
theory Inference_Core
  imports Rpc_Progress Model_Reconcile Grpc_Context
begin

text \<open>
  \<open>src/core/server\<close>: the class \<open>GrpcServer\<close> with its three handlers, the class
  \<open>InferenceCore\<close> that owns the model manager and the server, and the \<open>TakeAction\<close> of the
  infer, status and health handlers. The completion callback of a payload is bound to the
  address of the call state, its tag.
\<close>

section \<open>State\<close>

text \<open>
  A handler that does not exist yet is a new one without a thread. \<open>gs_listening\<close>: the
  pointer \<open>BuildAndStart\<close> returned is not null.
\<close>

record grpc_server =
  gs_cfg :: server_config
  gs_running :: bool
  gs_listening :: bool
  gs_infer :: "(infer_request, infer_response) handler"
  gs_status :: "(status_request, status_response) handler"
  gs_health :: "(health_request, health_response) handler"

type_synonym core_manager = "tag payload manager"

record inference_core =
  ic_cfg :: server_config
  ic_manager :: core_manager
  ic_grpc :: grpc_server
  ic_running :: bool

section \<open>\<open>GrpcServer\<close>\<close>

definition GrpcServer :: "server_config \<Rightarrow> grpc_server" where
  "GrpcServer cfg =
     \<lparr>gs_cfg = cfg, gs_running = False, gs_listening = False,
      gs_infer = new_handler (empty_infer_request, empty_infer_response),
      gs_status = new_handler (\<lparr>srq_model_name = ''''\<rparr>, empty_status_response),
      gs_health = new_handler (\<lparr>hrq_mode = ''''\<rparr>, empty_health_response)\<rparr>"

definition GrpcServer_Create :: "server_config \<Rightarrow> status \<times> grpc_server" where
  "GrpcServer_Create cfg = (Success, GrpcServer cfg)"

text \<open>\<open>bind_port\<close> is the outcome of \<open>BuildAndStart\<close> for a listening address.\<close>

definition GrpcServer_Start :: "(string \<Rightarrow> bool) \<Rightarrow> grpc_server \<Rightarrow> status \<times> grpc_server" where
  "GrpcServer_Start bind_port gs =
     (Success,
      gs\<lparr>gs_listening := bind_port (grpc_server_addr (grpc_server_cfg (gs_cfg gs))),
         gs_infer := Handler_Start (new_handler (h_cleared (gs_infer gs))),
         gs_status := Handler_Start (new_handler (h_cleared (gs_status gs))),
         gs_health := Handler_Start (new_handler (h_cleared (gs_health gs))),
         gs_running := True\<rparr>)"

text \<open>
  \<open>Stop\<close> in its parts: the refusal; \<open>Shutdown\<close> of the server, which cancels what is
  requested; \<open>Shutdown\<close> of the three queues, reached when gRPC has answered every call;
  joining the three threads (\<open>None\<close> while one of them runs).
\<close>

definition GrpcServer_Stop_refused :: "grpc_server \<Rightarrow> status option" where
  "GrpcServer_Stop_refused gs = (if \<not> gs_running gs then Some Failed_Rpc_Not_Running else None)"

definition GrpcServer_Stop_server :: "grpc_server \<Rightarrow> grpc_server" where
  "GrpcServer_Stop_server gs =
     gs\<lparr>gs_infer := (gs_infer gs)\<lparr>srv_shut := True\<rparr>,
        gs_status := (gs_status gs)\<lparr>srv_shut := True\<rparr>,
        gs_health := (gs_health gs)\<lparr>srv_shut := True\<rparr>\<rparr>"

definition GrpcServer_Stop_queues :: "grpc_server \<Rightarrow> grpc_server" where
  "GrpcServer_Stop_queues gs =
     gs\<lparr>gs_infer := (gs_infer gs)\<lparr>cq_shut := True\<rparr>,
        gs_status := (gs_status gs)\<lparr>cq_shut := True\<rparr>,
        gs_health := (gs_health gs)\<lparr>cq_shut := True\<rparr>\<rparr>"

definition GrpcServer_Stop_join :: "grpc_server \<Rightarrow> (status \<times> grpc_server) option" where
  "GrpcServer_Stop_join gs =
     (case Handler_Stop (gs_infer gs) of None \<Rightarrow> None | Some hi \<Rightarrow>
     (case Handler_Stop (gs_status gs) of None \<Rightarrow> None | Some hs \<Rightarrow>
     (case Handler_Stop (gs_health gs) of None \<Rightarrow> None | Some hh \<Rightarrow>
        Some (Success, gs\<lparr>gs_infer := hi, gs_status := hs, gs_health := hh,
                          gs_running := False\<rparr>))))"

section \<open>\<open>InferenceCore\<close>\<close>

definition InferenceCore ::
  "boost_fs \<Rightarrow> (string \<Rightarrow> model_config option) \<Rightarrow> server_config option \<Rightarrow> exn + inference_core" where
  "InferenceCore B parse cfg =
     (case ModelManager_Create B parse cfg of
        Inl e \<Rightarrow> Inl e
      | Inr (Success, Some mm) \<Rightarrow>
          (case GrpcServer_Create (mm_server_cfg mm) of
             (Success, gs) \<Rightarrow>
               Inr \<lparr>ic_cfg = mm_server_cfg mm, ic_manager = mm, ic_grpc = gs, ic_running = False\<rparr>
           | _ \<Rightarrow> THROW_ERROR ''Fail to create grpc server'')
      | Inr _ \<Rightarrow> THROW_ERROR ''Fail to create model manager'')"

definition InferenceCore_Start ::
  "(string \<Rightarrow> bool) \<Rightarrow> inference_core \<Rightarrow> exn + (status \<times> inference_core)" where
  "InferenceCore_Start bind_port core =
     (if ic_running core then Inr (Faield_Rpc_Already_Running, core)
      else case GrpcServer_Start bind_port (ic_grpc core) of
             (st, gs) \<Rightarrow>
               if st \<noteq> Success then THROW_ERROR ''Fail to start grpc server''
               else Inr (Success, core\<lparr>ic_grpc := gs, ic_running := True\<rparr>))"

text \<open>
  The end of \<open>Stop\<close>, after the guard and the shutdown of the server: joining, stopping the
  manager, clearing the flag. \<open>None\<close> while an event loop runs.
\<close>

definition InferenceCore_Stop_refused :: "inference_core \<Rightarrow> status option" where
  "InferenceCore_Stop_refused core =
     (if \<not> ic_running core then Some Failed_Rpc_Not_Running else None)"

definition InferenceCore_Stop_end :: "inference_core \<Rightarrow> (exn + (status \<times> inference_core)) option" where
  "InferenceCore_Stop_end core =
     (case GrpcServer_Stop_join (ic_grpc core) of
        None \<Rightarrow> None
      | Some (st, gs) \<Rightarrow> Some
          (if st \<noteq> Success then THROW_ERROR ''Fail to stop grpc server''
           else case ModelManager_Stop (ic_manager core) of
                  (st', mm) \<Rightarrow>
                    if st' \<noteq> Success then THROW_ERROR ''Fail to stop model manager''
                    else Inr (Success,
                      core\<lparr>ic_grpc := gs, ic_manager := mm, ic_running := False\<rparr>)))"

text \<open>
  The destructors call \<open>Stop\<close> when the object runs, and then the members go in the reverse
  order of their declaration. As above, \<open>None\<close> is a join that waits for an event loop.
\<close>

definition GrpcServer_destroy :: "grpc_server \<Rightarrow> grpc_server option" where
  "GrpcServer_destroy gs =
     (if gs_running gs
      then map_option snd (GrpcServer_Stop_join (GrpcServer_Stop_queues (GrpcServer_Stop_server gs)))
      else Some gs)"

definition InferenceCore_destroy :: "inference_core \<Rightarrow> (exn + inference_core) option" where
  "InferenceCore_destroy core =
     (case (if ic_running core
            then InferenceCore_Stop_end (core\<lparr>ic_grpc :=
                   GrpcServer_Stop_queues (GrpcServer_Stop_server (ic_grpc core))\<rparr>)
            else Some (Inr (Success, core))) of
        None \<Rightarrow> None
      | Some (Inl e) \<Rightarrow> Some (Inl e)
      | Some (Inr (_, core')) \<Rightarrow>
          map_option (\<lambda>gs. Inr (core'\<lparr>ic_grpc := gs, ic_manager := ModelManager_destroy (ic_manager core')\<rparr>))
            (GrpcServer_destroy (ic_grpc core')))"

definition InferenceCore_InferAsync ::
  "tag payload \<Rightarrow> core_manager \<Rightarrow> (status \<times> core_manager) option" where
  "InferenceCore_InferAsync p mm = InferAsync p mm"

definition GetStatus ::
  "status_request \<Rightarrow> status_response \<Rightarrow> 'p manager \<Rightarrow> status \<times> status_response" where
  "GetStatus request response mm =
     (let ready = (if 0 < GetNumberOfLiveModels mm then SERVER_READY else SERVER_FAILED_TO_INITIALIZE)
      in (Success, response
            \<lparr>srs_server_status := (srs_server_status response)
               \<lparr>sst_model_status := GetModelStatus mm, sst_ready_state := ready\<rparr>,
             srs_request_status := (srs_request_status response)\<lparr>rst_code := SUCCESS\<rparr>\<rparr>))"

definition GetHealth ::
  "health_request \<Rightarrow> health_response \<Rightarrow> 'p manager \<Rightarrow> status \<times> health_response" where
  "GetHealth request response mm =
     (let code = (\<lambda>c. (hrs_request_status response)\<lparr>rst_code := c\<rparr>) in
      if hrq_mode request = ''live'' then
        (Success, response\<lparr>hrs_health := True, hrs_request_status := code SUCCESS\<rparr>)
      else if hrq_mode request = ''ready'' then
        (Success, response\<lparr>hrs_health := 0 < GetNumberOfLiveModels mm,
                           hrs_request_status := code SUCCESS\<rparr>)
      else (Success, response\<lparr>hrs_request_status := code UNSUPPORTED\<rparr>))"

section \<open>\<open>TakeAction\<close> of the three handlers\<close>

type_synonym infer_handler = "(infer_request, infer_response) handler"
type_synonym status_handler = "(status_request, status_response) handler"
type_synonym health_handler = "(health_request, health_response) handler"

definition infer_failed :: "tag \<Rightarrow> status \<Rightarrow> infer_response \<Rightarrow> infer_handler \<Rightarrow> infer_handler" where
  "infer_failed t st resp h =
     OnCompleted t (set_response t
       (resp\<lparr>irs_request_status :=
          (irs_request_status resp)\<lparr>rst_code := INTERNAL, rst_msg := show_status st\<rparr>\<rparr>) h)"

definition Infer_TakeAction ::
  "tag \<Rightarrow> core_manager \<times> infer_handler \<Rightarrow> (core_manager \<times> infer_handler) call_result" where
  "Infer_TakeAction t sh =
     (let (mm, h) = sh in
      case h_states h t of
        None \<Rightarrow> Dangling
      | Some st \<Rightarrow>
          (case GrpcInferRequestContext (hs_request st) (hs_response st) t of
             Inl e \<Rightarrow> Returns (mm, infer_failed t Failed_Generic (hs_response st) h)
           | Inr ctx \<Rightarrow>
               (case InferenceCore_InferAsync (ctx_payload ctx) mm of
                  None \<Rightarrow> Blocks
                | Some (status, mm') \<Rightarrow>
                    if status \<noteq> Success then Returns (mm', infer_failed t status (hs_response st) h)
                    else Returns (mm', h))))"

text \<open>The callback of a payload, run by the runner that finished it.\<close>

definition infer_callback ::
  "tag payload \<Rightarrow> status \<Rightarrow> string \<Rightarrow> infer_handler \<Rightarrow> (exn + infer_handler) call_result" where
  "infer_callback p status message h =
     (let t = pl_on_infer_completed_func p in
      case h_states h t of
        None \<Rightarrow> Dangling
      | Some st \<Rightarrow>
          Returns (case OnInferCompleted status message
                     \<lparr>ctx_request = hs_request st, ctx_response = hs_response st, ctx_payload = p\<rparr> of
                     Inl e \<Rightarrow> Inl e
                   | Inr ctx \<Rightarrow> Inr (OnCompleted t (set_response t (ctx_response ctx) h))))"

definition Status_TakeAction ::
  "tag \<Rightarrow> core_manager \<times> status_handler \<Rightarrow> (core_manager \<times> status_handler) call_result" where
  "Status_TakeAction t sh =
     (let (mm, h) = sh in
      case h_states h t of
        None \<Rightarrow> Dangling
      | Some st \<Rightarrow>
          Returns (mm, OnCompleted t
            (set_response t (snd (GetStatus (hs_request st) (hs_response st) mm)) h)))"

definition Health_TakeAction ::
  "tag \<Rightarrow> core_manager \<times> health_handler \<Rightarrow> (core_manager \<times> health_handler) call_result" where
  "Health_TakeAction t sh =
     (let (mm, h) = sh in
      case h_states h t of
        None \<Rightarrow> Dangling
      | Some st \<Rightarrow>
          Returns (mm, OnCompleted t
            (set_response t (snd (GetHealth (hs_request st) (hs_response st) mm)) h)))"

section \<open>The handlers meet the contract\<close>

lemma set_response_same: "h_states h t = Some st \<Longrightarrow> set_response t (hs_response st) h = h"
  by (simp add: set_response_def upd_state_def fun_upd_idem)

lemma step_of_Some: "step_of h t = Some c \<Longrightarrow> \<exists>st. h_states h t = Some st \<and> hs_step st = c"
  by (auto simp: step_of_def)

interpretation infer_h: handler_action Infer_TakeAction
proof
  fix h :: infer_handler and t and s :: core_manager
  assume "step_of h t = Some PROCESS"
  from step_of_Some [OF this] show "Infer_TakeAction t (s, h) \<noteq> Dangling"
    by (auto simp: Infer_TakeAction_def split: sum.split option.split)
next
  fix h h' :: infer_handler and t and s s' :: core_manager
  assume live: "step_of h t = Some PROCESS" and ret: "Infer_TakeAction t (s, h) = Returns (s', h')"
  from step_of_Some [OF live] obtain st where st: "h_states h t = Some st"
    by blast
  have "h' = h \<or> (\<exists>status. h' = infer_failed t status (hs_response st) h)"
    using ret st
    by (auto simp: Infer_TakeAction_def split: sum.splits option.splits if_splits)
  then show "\<exists>resp. h' = set_response t resp h \<or> h' = OnCompleted t (set_response t resp h)"
    using set_response_same [OF st] unfolding infer_failed_def by metis
qed

text \<open>Every status call succeeds and says whether a model is served; a health call succeeds or names an unknown mode.\<close>

definition status_answer :: "status_response \<Rightarrow> bool" where
  "status_answer r \<longleftrightarrow> rst_code (srs_request_status r) = SUCCESS \<and>
     sst_ready_state (srs_server_status r) =
       (if sst_model_status (srs_server_status r) = [] then SERVER_FAILED_TO_INITIALIZE else SERVER_READY)"

definition health_answer :: "health_response \<Rightarrow> bool" where
  "health_answer r \<longleftrightarrow> rst_code (hrs_request_status r) \<in> {SUCCESS, UNSUPPORTED}"

lemma um_assign_not_Nil [simp]: "um_assign k v m \<noteq> []"
  by (cases m) (auto simp: um_assign_def split: option.split)

lemma GetModelStatus_Nil: "GetModelStatus mm = [] \<longleftrightarrow> mm_model_map mm = []"
  by (cases "mm_model_map mm" rule: rev_cases) (auto simp: GetModelStatus_def split: prod.split)

lemma GetStatus_answer: "status_answer (snd (GetStatus req resp mm))"
  by (simp add: GetStatus_def Let_def status_answer_def GetModelStatus_Nil GetNumberOfLiveModels_def)

lemma GetHealth_answer: "health_answer (snd (GetHealth req resp mm))"
  by (simp add: GetHealth_def Let_def health_answer_def)

lemma Status_TakeAction_answers:
  assumes "step_of h t = Some PROCESS"
  shows "\<exists>resp. status_answer resp \<and>
     Status_TakeAction t (s, h) = Returns (s, OnCompleted t (set_response t resp h))"
proof -
  obtain st where "h_states h t = Some st"
    using step_of_Some [OF assms] by blast
  then show ?thesis
    using GetStatus_answer [of "hs_request st" "hs_response st" s]
    by (intro exI conjI) (simp_all add: Status_TakeAction_def)
qed

lemma Health_TakeAction_answers:
  assumes "step_of h t = Some PROCESS"
  shows "\<exists>resp. health_answer resp \<and>
     Health_TakeAction t (s, h) = Returns (s, OnCompleted t (set_response t resp h))"
proof -
  obtain st where "h_states h t = Some st"
    using step_of_Some [OF assms] by blast
  then show ?thesis
    using GetHealth_answer [of "hs_request st" "hs_response st" s]
    by (intro exI conjI) (simp_all add: Health_TakeAction_def)
qed

interpretation status_h: handler_sync Status_TakeAction status_answer
  by unfold_locales (rule Status_TakeAction_answers)

interpretation health_h: handler_sync Health_TakeAction health_answer
  by unfold_locales (rule Health_TakeAction_answers)

text \<open>
  A server that is stopped between the creation of a handler's thread and its first request
  makes that request on a completion queue that is shut down.
\<close>

lemma start_then_stop_requests_late:
  "\<exists>sh. handler_reachable Infer_TakeAction cleared sh \<and> cq_late (snd sh)"
proof -
  let ?h = "Handler_Start (new_handler cleared) :: infer_handler"
  let ?h2 = "?h\<lparr>srv_shut := True\<rparr>\<lparr>cq_shut := True\<rparr>"
  fix mm :: core_manager
  have "handler_reachable Infer_TakeAction cleared (mm, ?h)"
    by (rule handler_reachable.started)
  moreover have "handler_step Infer_TakeAction (mm, ?h) (mm, ?h\<lparr>srv_shut := True\<rparr>)"
    by (intro handler_step.queue queue_step.server_shutdown)
  moreover have "handler_step Infer_TakeAction (mm, ?h\<lparr>srv_shut := True\<rparr>) (mm, ?h2)"
    by (intro handler_step.queue queue_step.queue_shutdown)
      (simp_all add: Handler_Start_def new_handler_def step_of_def)
  moreover have "handler_step Infer_TakeAction (mm, ?h2) (mm, StartNewRequest (?h2\<lparr>h_thread := Looping\<rparr>))"
    by (intro handler_step.queue queue_step.enter) (simp add: Handler_Start_def)
  ultimately have "handler_reachable Infer_TakeAction cleared (mm, StartNewRequest (?h2\<lparr>h_thread := Looping\<rparr>))"
    by (blast intro: handler_reachable.step)
  moreover have "cq_late (snd (mm, StartNewRequest (?h2\<lparr>h_thread := Looping\<rparr>)))"
    by simp
  ultimately show ?thesis
    by blast
qed

end
