(* ===== verification/Scheduler_System.thy ===== *)
theory Scheduler_System
  imports Simple_Scheduler
begin

text \<open>
  A running \<open>SimpleScheduler\<close> with everything that touches it: the runner threads, the
  threads that call \<open>Enqueue\<close> (whose test of the flag and whose push are two steps), the
  manager thread that replaces the inference function, and the thread that runs \<open>Stop\<close>.
\<close>

section \<open>State\<close>

datatype 'p caller = Idle_Caller | Has_Tested 'p

datatype stop_pc = Not_Stopping | Draining | Flag_Down | Joining | Stopped

text \<open>
  The last four fields record what happened: the payloads stored in the queue, the
  completion callbacks run, the returns of \<open>Enqueue\<close>, and whether \<open>Stop\<close> left its
  depletion loop because the queue was empty, with no caller between its test and its push.
\<close>

record ('f, 'p) sched_sys =
  sys_sched :: "('f, 'p) scheduler"
  sys_callers :: "'p caller list"
  sys_stop :: stop_pc
  sys_accepted :: "'p list"
  sys_completed :: "('p \<times> status \<times> string) list"
  sys_returned :: "('p \<times> status) list"
  sys_drained :: bool

definition no_push_pending :: "('f, 'p) sched_sys \<Rightarrow> bool" where
  "no_push_pending s \<longleftrightarrow> (\<forall>c \<in> set (sys_callers s). c = Idle_Caller)"

section \<open>Steps\<close>

inductive sched_step :: "('f, 'p) sched_sys \<Rightarrow> ('f, 'p) sched_sys \<Rightarrow> bool" where
  runner: "i < length (sc_threads (sys_sched s)) \<Longrightarrow>
    runner_step st i (sys_sched s) = Some (sc, out) \<Longrightarrow>
    sched_step s (s\<lparr>sys_sched := sc,
      sys_completed := sys_completed s @ (case out of None \<Rightarrow> [] | Some c \<Rightarrow> [c])\<rparr>)"
| enqueue_refused: "k < length (sys_callers s) \<Longrightarrow> sys_callers s ! k = Idle_Caller \<Longrightarrow>
    \<not> sc_running (sys_sched s) \<Longrightarrow>
    sched_step s (s\<lparr>sys_returned := sys_returned s @ [(p, Failed_Scheduler_Not_Running)]\<rparr>)"
| enqueue_test: "k < length (sys_callers s) \<Longrightarrow> sys_callers s ! k = Idle_Caller \<Longrightarrow>
    sc_running (sys_sched s) \<Longrightarrow>
    sched_step s (s\<lparr>sys_callers := (sys_callers s)[k := Has_Tested p]\<rparr>)"
| enqueue_push: "k < length (sys_callers s) \<Longrightarrow> sys_callers s ! k = Has_Tested p \<Longrightarrow>
    push p (sc_queue (sys_sched s)) = Some q \<Longrightarrow>
    sched_step s (s\<lparr>sys_sched := (sys_sched s)\<lparr>sc_queue := q\<rparr>,
      sys_callers := (sys_callers s)[k := Idle_Caller],
      sys_accepted := sys_accepted s @ (if broken (sc_queue (sys_sched s)) then [] else [p]),
      sys_returned := sys_returned s @ [(p, Success)]\<rparr>)"
| update: "sched_step s (s\<lparr>sys_sched := snd (UpdateBackendInferFunc f (sys_sched s))\<rparr>)"
| stop_call: "sys_stop s = Not_Stopping \<Longrightarrow> Stop_refused (sys_sched s) = None \<Longrightarrow>
    sched_step s (s\<lparr>sys_stop := Draining\<rparr>)"
| stop_flag: "sys_stop s = Draining \<Longrightarrow> \<not> Stop_waits elapsed_ms (sys_sched s) \<Longrightarrow>
    sched_step s (s\<lparr>sys_stop := Flag_Down, sys_sched := Stop_lower_flag (sys_sched s),
      sys_drained := (bq_size (sc_queue (sys_sched s)) = 0 \<and> no_push_pending s)\<rparr>)"
| stop_break: "sys_stop s = Flag_Down \<Longrightarrow>
    sched_step s (s\<lparr>sys_stop := Joining, sys_sched := Stop_break (sys_sched s)\<rparr>)"
| stop_join: "sys_stop s = Joining \<Longrightarrow> all_exited (sys_sched s) \<Longrightarrow>
    sched_step s (s\<lparr>sys_stop := Stopped\<rparr>)"

definition sched_init :: "scheduler_config \<Rightarrow> i32 \<Rightarrow> 'f \<Rightarrow> nat \<Rightarrow> ('f, 'p) sched_sys" where
  "sched_init cfg n f callers =
     \<lparr>sys_sched = snd (Start (SimpleScheduler cfg n f)), sys_callers = replicate callers Idle_Caller,
      sys_stop = Not_Stopping, sys_accepted = [], sys_completed = [], sys_returned = [],
      sys_drained = False\<rparr>"

inductive sched_reachable ::
  "scheduler_config \<Rightarrow> i32 \<Rightarrow> 'f \<Rightarrow> nat \<Rightarrow> ('f, 'p) sched_sys \<Rightarrow> bool" for cfg n f callers where
  start: "sched_reachable cfg n f callers (sched_init cfg n f callers)"
| step: "sched_reachable cfg n f callers s \<Longrightarrow> sched_step s s' \<Longrightarrow> sched_reachable cfg n f callers s'"

text \<open>An \<open>Enqueue\<close> whose two steps are not interrupted is the sequential operation.\<close>

lemma enqueue_steps_refine:
  assumes "k < length (sys_callers s)" "sys_callers s ! k = Idle_Caller"
    "sc_running (sys_sched s)" "Enqueue p (sys_sched s) = Some (st, sc)"
  shows "\<exists>s1 s2. sched_step s s1 \<and> sched_step s1 s2 \<and> sys_sched s2 = sc \<and>
     sys_returned s2 = sys_returned s @ [(p, st)] \<and> sys_callers s2 = sys_callers s"
proof -
  obtain q where q: "push p (sc_queue (sys_sched s)) = Some q" "st = Success"
    "sc = (sys_sched s)\<lparr>sc_queue := q\<rparr>"
    using assms(3,4) by (auto simp: Enqueue_Some)
  let ?s1 = "s\<lparr>sys_callers := (sys_callers s)[k := Has_Tested p]\<rparr>"
  have "sched_step s ?s1"
    using assms(1-3) by (rule sched_step.enqueue_test)
  moreover have "(sys_callers s)[k := Idle_Caller] = sys_callers s"
    using assms(2) by (metis list_update_id)
  moreover have "sched_step ?s1 (?s1\<lparr>sys_sched := (sys_sched ?s1)\<lparr>sc_queue := q\<rparr>,
      sys_callers := (sys_callers ?s1)[k := Idle_Caller],
      sys_accepted := sys_accepted ?s1 @ (if broken (sc_queue (sys_sched ?s1)) then [] else [p]),
      sys_returned := sys_returned ?s1 @ [(p, Success)]\<rparr>)" (is "sched_step ?s1 ?s2")
    by (rule sched_step.enqueue_push) (use assms(1) q in simp_all)
  ultimately show ?thesis
    using q by (intro exI [of _ ?s1] exI [of _ ?s2]) simp
qed

section \<open>Accounting for every payload\<close>

fun in_flight :: "('f, 'p) runner_pc \<Rightarrow> 'p option" where
  "in_flight (Got p) = Some p"
| "in_flight (Copied p _) = Some p"
| "in_flight (In_Call p _) = Some p"
| "in_flight (Finished p _) = Some p"
| "in_flight _ = None"

definition handled :: "('f, 'p) scheduler \<Rightarrow> 'p multiset" where
  "handled s = somes (in_flight \<circ> snd) (sc_threads s)"

definition conserved :: "('f, 'p) sched_sys \<Rightarrow> bool" where
  "conserved s \<longleftrightarrow> mset (sys_accepted s) =
     mset (bq_buffer (sc_queue (sys_sched s))) + handled (sys_sched s) +
     mset (map fst (sys_completed s))"

text \<open>A runner step moves a payload between queue, runner and completion, or leaves all.\<close>

lemma runner_step_account:
  assumes "i < length (sc_threads s)" "runner_step st i s = Some (s', out)"
  shows "mset (bq_buffer (sc_queue s')) + handled s' + (case out of None \<Rightarrow> {#} | Some c \<Rightarrow> {#fst c#}) =
    mset (bq_buffer (sc_queue s)) + handled s"
proof -
  let ?f = "in_flight \<circ> snd"
  note upd = somes_update [OF assms(1), of ?f]
  show ?thesis
  proof (cases "snd (sc_threads s ! i)")
    case In_Pop
    show ?thesis
    proof (cases "bq_broken (sc_queue s)")
      case True
      then show ?thesis
        using assms(2) In_Pop upd [of "(fst (sc_threads s ! i), At_Test)"]
        by (auto simp: runner_step_def pop_on_broken handled_def)
    next
      case False
      then obtain p ps where "bq_buffer (sc_queue s) = p # ps" "out = None"
        "s' = set_runner i (Got p) (s\<lparr>sc_queue := sc_queue s\<lparr>bq_buffer := ps\<rparr>\<rparr>)"
        using assms(2) In_Pop
        by (cases "bq_buffer (sc_queue s)") (auto simp: runner_step_def pop_def pop_ready_def)
      then show ?thesis
        using In_Pop upd [of "(fst (sc_threads s ! i), Got p)"] by (simp add: handled_def)
    qed
  next
    case At_Test
    then show ?thesis
      using assms(2) upd [of "(fst (sc_threads s ! i), if sc_running s then In_Pop else Exited)"]
      by (auto simp: runner_step_def handled_def split: if_splits)
  next
    case (Got p)
    then show ?thesis
      using assms(2) upd [of "(fst (sc_threads s ! i), Copied p (sc_infer_func s))"]
      by (auto simp: runner_step_def handled_def)
  next
    case (Copied p f)
    then show ?thesis
      using assms(2) upd [of "(fst (sc_threads s ! i), In_Call p (sc_infer_func s))"]
      by (auto simp: runner_step_def handled_def)
  next
    case (In_Call p f)
    then show ?thesis
      using assms(2) upd [of "(fst (sc_threads s ! i), Finished p st)"]
      by (auto simp: runner_step_def handled_def)
  next
    case (Finished p st')
    then show ?thesis
      using assms(2) upd [of "(fst (sc_threads s ! i), At_Test)"]
      by (auto simp: runner_step_def handled_def)
  next
    case Exited
    then show ?thesis
      using assms(2) by (simp add: runner_step_def)
  qed
qed

lemma handled_queue_update [simp]: "handled (s\<lparr>sc_queue := q\<rparr>) = handled s"
  by (simp add: handled_def)

lemma handled_other [simp]:
  "handled (Stop_lower_flag s) = handled s" "handled (Stop_break s) = handled s"
  "handled (snd (UpdateBackendInferFunc f s)) = handled s"
  by (simp_all add: handled_def Stop_lower_flag_def Stop_break_def UpdateBackendInferFunc_def)

lemma scheduler_frame [simp]:
  "sc_queue (Stop_lower_flag s) = sc_queue s" "sc_queue (Stop_break s) = breakAll (sc_queue s)"
  "sc_queue (snd (UpdateBackendInferFunc f s)) = sc_queue s"
  "sc_threads (Stop_lower_flag s) = sc_threads s" "sc_threads (Stop_break s) = sc_threads s"
  "sc_threads (snd (UpdateBackendInferFunc f s)) = sc_threads s"
  "sc_running (Stop_lower_flag s) = False" "sc_running (Stop_break s) = sc_running s"
  "sc_running (snd (UpdateBackendInferFunc f s)) = sc_running s"
  by (simp_all add: Stop_lower_flag_def Stop_break_def UpdateBackendInferFunc_def)

lemma conserved_step:
  assumes "sched_step s s'" "conserved s"
  shows "conserved s'"
  using assms(1)
proof cases
  case (runner i st sc out)
  then show ?thesis
    using runner_step_account [OF runner(2,3)] assms(2)
    by (cases out) (auto simp: conserved_def ac_simps)
next
  case (enqueue_push k p q)
  then show ?thesis
    using assms(2)
    by (cases "broken (sc_queue (sys_sched s))")
      (auto simp: conserved_def broken_def push_on_broken push_unbroken)
qed (use assms(2) in \<open>auto simp: conserved_def breakAll_def\<close>)

section \<open>Phases of a stop\<close>

definition phase_ok :: "('f, 'p) sched_sys \<Rightarrow> bool" where
  "phase_ok s \<longleftrightarrow>
     (sc_running (sys_sched s) \<longleftrightarrow> sys_stop s \<in> {Not_Stopping, Draining}) \<and>
     (bq_broken (sc_queue (sys_sched s)) \<longleftrightarrow> sys_stop s \<in> {Joining, Stopped}) \<and>
     (sys_stop s = Stopped \<longrightarrow> all_exited (sys_sched s)) \<and>
     length (bq_buffer (sc_queue (sys_sched s))) \<le> unat (bq_capacity (sc_queue (sys_sched s))) \<and>
     (sys_drained s \<longrightarrow> \<not> sc_running (sys_sched s) \<and> no_push_pending s \<and>
        bq_buffer (sc_queue (sys_sched s)) = [])"

lemma runner_step_frame:
  assumes "runner_step st i s = Some (s', out)"
  shows "sc_running s' = sc_running s" "bq_broken (sc_queue s') = bq_broken (sc_queue s)"
    "bq_capacity (sc_queue s') = bq_capacity (sc_queue s)"
    "length (bq_buffer (sc_queue s')) \<le> length (bq_buffer (sc_queue s))"
    "sc_infer_func s' = sc_infer_func s" "length (sc_threads s') = length (sc_threads s)"
    "map fst (sc_threads s') = map fst (sc_threads s)"
proof -
  have fst_upd: "map fst (xs[i := (fst (xs ! i), y)]) = map fst xs" for xs :: "('x \<times> 'y) list" and y
    by (simp add: map_update) (metis list_update_beyond list_update_id map_update not_le nth_map length_map)
  show "sc_running s' = sc_running s" "bq_broken (sc_queue s') = bq_broken (sc_queue s)"
    "bq_capacity (sc_queue s') = bq_capacity (sc_queue s)"
    "length (bq_buffer (sc_queue s')) \<le> length (bq_buffer (sc_queue s))"
    "sc_infer_func s' = sc_infer_func s" "length (sc_threads s') = length (sc_threads s)"
    "map fst (sc_threads s') = map fst (sc_threads s)"
    using assms
    by (auto simp: runner_step_def pop_def fst_upd split: runner_pc.splits option.splits if_splits)
qed

lemma all_exited_stays:
  assumes "all_exited s" "i < length (sc_threads s)"
  shows "runner_step st i s = None"
  using assms nth_mem [of i "sc_threads s"] by (simp add: all_exited_def runner_step_def)

lemma no_push_pending_nth:
  "no_push_pending s \<Longrightarrow> k < length (sys_callers s) \<Longrightarrow> sys_callers s ! k = Idle_Caller"
  by (simp add: no_push_pending_def)

lemma phase_ok_step:
  assumes "sched_step s s'" "phase_ok s"
  shows "phase_ok s'"
  using assms(1)
proof cases
  case (runner i st sc out)
  note fr = runner_step_frame [OF runner(3)]
  have "sys_stop s \<noteq> Stopped"
    using assms(2) runner(2,3) all_exited_stays [of "sys_sched s" i st] by (auto simp: phase_ok_def)
  then show ?thesis
    using runner fr assms(2) by (auto simp: phase_ok_def no_push_pending_def)
next
  case (enqueue_push k p q)
  then have "\<not> sys_drained s"
    using assms(2) no_push_pending_nth [of s k] by (auto simp: phase_ok_def)
  then show ?thesis
    using enqueue_push assms(2) bq.enq_bounded [of "sc_queue (sys_sched s)" p q]
    by (cases "bq_broken (sc_queue (sys_sched s))")
      (auto simp: phase_ok_def push_on_broken push_unbroken all_exited_def)
qed (use assms(2) in \<open>auto simp: phase_ok_def no_push_pending_def breakAll_def Stop_waits_def
      bq_size_def all_exited_def\<close>)

section \<open>Completions carry the right message\<close>

definition messages_ok :: "('f, 'p) sched_sys \<Rightarrow> bool" where
  "messages_ok s \<longleftrightarrow> (\<forall>(p, st, message) \<in> set (sys_completed s). message = completion_message st)"

lemma runner_step_message:
  "runner_step st i s = Some (s', Some (p, st', message)) \<Longrightarrow> message = completion_message st'"
  by (auto simp: runner_step_def split: runner_pc.splits option.splits)

lemma messages_ok_step:
  assumes "sched_step s s'" "messages_ok s"
  shows "messages_ok s'"
  using assms(1)
proof cases
  case (runner i st sc out)
  then show ?thesis
    using assms(2) runner_step_message [of st i "sys_sched s" sc]
    by (cases out) (auto simp: messages_ok_def)
qed (use assms(2) in \<open>auto simp: messages_ok_def\<close>)

section \<open>Reachable states\<close>

lemma sched_init_ok:
  "conserved (sched_init cfg n f callers)" "phase_ok (sched_init cfg n f callers)"
  "messages_ok (sched_init cfg n f callers)"
proof -
  have "handled (sys_sched (sched_init cfg n f callers)) = {#}"
    unfolding handled_def
    by (rule somes_empty)
      (auto simp: sched_init_def Start_def SimpleScheduler_def dest!: new_threads_At_Test)
  then show "conserved (sched_init cfg n f callers)"
    by (simp add: conserved_def sched_init_def Start_def SimpleScheduler_def BlockingQueue_def)
qed (simp_all add: phase_ok_def messages_ok_def sched_init_def Start_def SimpleScheduler_def
    BlockingQueue_def)

lemma sched_reachable_ok:
  "sched_reachable cfg n f callers s \<Longrightarrow> conserved s \<and> phase_ok s \<and> messages_ok s"
  by (induction rule: sched_reachable.induct)
    (auto simp: sched_init_ok intro: conserved_step phase_ok_step messages_ok_step)

lemma all_exited_handled: "all_exited s \<Longrightarrow> handled s = {#}"
  unfolding handled_def all_exited_def by (rule somes_empty) auto

section \<open>Schedules as data\<close>

text \<open>A schedule names each step; running it is computable and stays in the step relation.\<close>

datatype ('f, 'p) sched_event =
    Ev_Runner nat status
  | Ev_Refused nat 'p
  | Ev_Test nat 'p
  | Ev_Push nat
  | Ev_Update 'f
  | Ev_Stop
  | Ev_Flag int
  | Ev_Break
  | Ev_Join

fun sched_do :: "('f, 'p) sched_event \<Rightarrow> ('f, 'p) sched_sys \<Rightarrow> ('f, 'p) sched_sys option" where
  "sched_do (Ev_Runner i st) s =
     (if i < length (sc_threads (sys_sched s)) then
        (case runner_step st i (sys_sched s) of
           None \<Rightarrow> None
         | Some (sc, out) \<Rightarrow> Some (s\<lparr>sys_sched := sc,
             sys_completed := sys_completed s @ (case out of None \<Rightarrow> [] | Some c \<Rightarrow> [c])\<rparr>))
      else None)"
| "sched_do (Ev_Refused k p) s =
     (if k < length (sys_callers s) then
        (case sys_callers s ! k of
           Idle_Caller \<Rightarrow>
             if sc_running (sys_sched s) then None
             else Some (s\<lparr>sys_returned := sys_returned s @ [(p, Failed_Scheduler_Not_Running)]\<rparr>)
         | Has_Tested _ \<Rightarrow> None)
      else None)"
| "sched_do (Ev_Test k p) s =
     (if k < length (sys_callers s) then
        (case sys_callers s ! k of
           Idle_Caller \<Rightarrow>
             if sc_running (sys_sched s) then Some (s\<lparr>sys_callers := (sys_callers s)[k := Has_Tested p]\<rparr>)
             else None
         | Has_Tested _ \<Rightarrow> None)
      else None)"
| "sched_do (Ev_Push k) s =
     (if k < length (sys_callers s) then
        (case sys_callers s ! k of
           Idle_Caller \<Rightarrow> None
         | Has_Tested p \<Rightarrow>
             (case push p (sc_queue (sys_sched s)) of
                None \<Rightarrow> None
              | Some q \<Rightarrow> Some (s\<lparr>sys_sched := (sys_sched s)\<lparr>sc_queue := q\<rparr>,
                  sys_callers := (sys_callers s)[k := Idle_Caller],
                  sys_accepted := sys_accepted s @ (if broken (sc_queue (sys_sched s)) then [] else [p]),
                  sys_returned := sys_returned s @ [(p, Success)]\<rparr>)))
      else None)"
| "sched_do (Ev_Update f) s = Some (s\<lparr>sys_sched := snd (UpdateBackendInferFunc f (sys_sched s))\<rparr>)"
| "sched_do Ev_Stop s =
     (case sys_stop s of
        Not_Stopping \<Rightarrow>
          (case Stop_refused (sys_sched s) of None \<Rightarrow> Some (s\<lparr>sys_stop := Draining\<rparr>) | Some _ \<Rightarrow> None)
      | _ \<Rightarrow> None)"
| "sched_do (Ev_Flag elapsed_ms) s =
     (case sys_stop s of
        Draining \<Rightarrow>
          if Stop_waits elapsed_ms (sys_sched s) then None
          else Some (s\<lparr>sys_stop := Flag_Down, sys_sched := Stop_lower_flag (sys_sched s),
            sys_drained := (bq_size (sc_queue (sys_sched s)) = 0 \<and> no_push_pending s)\<rparr>)
      | _ \<Rightarrow> None)"
| "sched_do Ev_Break s =
     (case sys_stop s of
        Flag_Down \<Rightarrow> Some (s\<lparr>sys_stop := Joining, sys_sched := Stop_break (sys_sched s)\<rparr>)
      | _ \<Rightarrow> None)"
| "sched_do Ev_Join s =
     (case sys_stop s of
        Joining \<Rightarrow> if all_exited (sys_sched s) then Some (s\<lparr>sys_stop := Stopped\<rparr>) else None
      | _ \<Rightarrow> None)"

fun sched_run :: "('f, 'p) sched_event list \<Rightarrow> ('f, 'p) sched_sys \<Rightarrow> ('f, 'p) sched_sys option" where
  "sched_run [] s = Some s"
| "sched_run (e # es) s = (case sched_do e s of None \<Rightarrow> None | Some s' \<Rightarrow> sched_run es s')"

lemma sched_do_step: "sched_do e s = Some s' \<Longrightarrow> sched_step s s'"
proof (cases e)
  case (Ev_Runner i st)
  assume "sched_do e s = Some s'"
  then obtain sc out where "i < length (sc_threads (sys_sched s))"
    "runner_step st i (sys_sched s) = Some (sc, out)"
    "s' = s\<lparr>sys_sched := sc,
       sys_completed := sys_completed s @ (case out of None \<Rightarrow> [] | Some c \<Rightarrow> [c])\<rparr>"
    using Ev_Runner by (auto split: if_splits option.splits prod.splits)
  then show ?thesis
    using sched_step.runner by blast
next
  case (Ev_Push k)
  assume "sched_do e s = Some s'"
  then have run: "sched_do (Ev_Push k) s = Some s'"
    by (simp only: Ev_Push)
  then have k: "k < length (sys_callers s)"
    by (auto split: if_splits)
  obtain p where p: "sys_callers s ! k = Has_Tested p"
    using run k by (cases "sys_callers s ! k") auto
  obtain q where q: "push p (sc_queue (sys_sched s)) = Some q"
    using run k p by (cases "push p (sc_queue (sys_sched s))") auto
  show ?thesis
    using run sched_step.enqueue_push [OF k p q]
    by (simp only: sched_do.simps k p q if_True caller.case option.case option.inject)
qed (auto split: if_splits option.splits caller.splits stop_pc.splits
    intro: sched_step.intros)

lemma sched_run_reachable:
  "sched_reachable cfg n f callers s \<Longrightarrow> sched_run es s = Some s' \<Longrightarrow> sched_reachable cfg n f callers s'"
  by (induction es arbitrary: s)
    (auto split: option.splits dest: sched_do_step intro: sched_reachable.step)

text \<open>
  An accepted request can be lost: a caller that tested the flag before a stop and pushes
  after it is told success, and its payload is stored nowhere.
\<close>

lemma success_on_broken_queue_loses_payload:
  "\<exists>s. sched_reachable cfg n f 1 s \<and> (p, Success) \<in> set (sys_returned s) \<and> sys_accepted s = [] \<and>
     sys_completed s = []"
proof -
  let ?es = "[Ev_Test 0 p, Ev_Stop, Ev_Flag 0, Ev_Break, Ev_Push 0]"
  have "\<exists>s. sched_run ?es (sched_init cfg n f 1) = Some s \<and> sys_returned s = [(p, Success)] \<and>
      sys_accepted s = [] \<and> sys_completed s = []"
    by (simp add: sched_init_def Start_def SimpleScheduler_def BlockingQueue_def Stop_refused_def
        Stop_waits_def bq_size_def Stop_lower_flag_def Stop_break_def breakAll_def push_def
        push_ready_def broken_def)
  then show ?thesis
    using sched_run_reachable [OF sched_reachable.start] by fastforce
qed

end
