(* ===== verification/Server_System.thy ===== *)
theory Server_System
  imports Inference_Core Scheduler_System
begin

text \<open>
  The running server without repository updates: the event loop of the infer handler, gRPC,
  and the runner threads of every model, on one shared state. A runner's inference call
  goes through the backend pointer on the heap; the step that follows it runs the
  completion callback, which answers the call in the handler.
\<close>

section \<open>Steps\<close>

type_synonym server = "core_manager \<times> infer_handler"

definition put_sched ::
  "string \<Rightarrow> 'p run_context \<Rightarrow> (ptr, 'p) scheduler \<Rightarrow> 'p manager \<Rightarrow> 'p manager" where
  "put_sched n ctx s mm =
     mm\<lparr>mm_model_map := um_assign n (ctx\<lparr>rc_scheduler := s\<rparr>) (mm_model_map mm)\<rparr>"

text \<open>The function a scheduler is given: it runs the backend behind the pointer.\<close>

definition backend_call ::
  "i32 \<Rightarrow> 'p \<Rightarrow> ptr \<Rightarrow> 'p manager \<Rightarrow> (status \<times> 'p manager) call_result" where
  "backend_call idx p a mm =
     (case mm_heap mm a of
        None \<Rightarrow> Dangling
      | Some b \<Rightarrow>
          (case ModelBackend_Run DemoContext_Run idx [p] b of
             (Undefined, _) \<Rightarrow> Dangling
           | (Returned st, b') \<Rightarrow> Returns (st, mm\<lparr>mm_heap := (mm_heap mm)(a := Some b')\<rparr>)))"

definition advance ::
  "string \<Rightarrow> tag payload run_context \<Rightarrow> nat \<Rightarrow> status \<Rightarrow> server \<Rightarrow> server call_result" where
  "advance n ctx i st sh =
     (let (mm, h) = sh in
      case runner_step st i (rc_scheduler ctx) of
        None \<Rightarrow> Blocks
      | Some (s, None) \<Rightarrow> Returns (put_sched n ctx s mm, h)
      | Some (s, Some (p, st', message)) \<Rightarrow>
          (case infer_callback p st' message h of
             Returns (Inr h') \<Rightarrow> Returns (put_sched n ctx s mm, h')
           | Returns (Inl e) \<Rightarrow> Aborts e
           | Aborts e \<Rightarrow> Aborts e
           | Blocks \<Rightarrow> Blocks
           | Dangling \<Rightarrow> Dangling))"

definition model_runner :: "string \<Rightarrow> nat \<Rightarrow> server \<Rightarrow> server call_result" where
  "model_runner n i sh =
     (let (mm, h) = sh in
      case um_find (mm_model_map mm) n of
        None \<Rightarrow> Blocks
      | Some ctx \<Rightarrow>
          if length (sc_threads (rc_scheduler ctx)) \<le> i then Blocks
          else let (idx, pc) = sc_threads (rc_scheduler ctx) ! i in
            case pc of
              In_Call p a \<Rightarrow>
                (case backend_call idx p a mm of
                   Returns (st, mm') \<Rightarrow> advance n ctx i st (mm', h)
                 | Aborts e \<Rightarrow> Aborts e
                 | Blocks \<Rightarrow> Blocks
                 | Dangling \<Rightarrow> Dangling)
            | _ \<Rightarrow> advance n ctx i Success (mm, h))"

inductive server_step :: "server \<Rightarrow> server \<Rightarrow> bool" where
  rpc: "queue_step Infer_TakeAction sh sh' \<Longrightarrow> server_step sh sh'"
| runner: "model_runner n i sh = Returns sh' \<Longrightarrow> server_step sh sh'"

definition new_infer_handler :: infer_handler where
  "new_infer_handler = Handler_Start (new_handler (empty_infer_request, empty_infer_response))"

inductive server_reachable ::
  "boost_fs \<Rightarrow> (string \<Rightarrow> model_config option) \<Rightarrow> server_config \<Rightarrow> server \<Rightarrow> bool" for B parse cfg where
  start: "ModelManager B parse cfg = Inr mm \<Longrightarrow> server_reachable B parse cfg (mm, new_infer_handler)"
| step: "server_reachable B parse cfg sh \<Longrightarrow> server_step sh sh' \<Longrightarrow> server_reachable B parse cfg sh'"

section \<open>Work in progress\<close>

abbreviation payload_tag :: "tag payload \<Rightarrow> tag" where
  "payload_tag \<equiv> pl_on_infer_completed_func"

definition sched_work :: "('f, 'p) scheduler \<Rightarrow> 'p multiset" where
  "sched_work s = mset (bq_buffer (sc_queue s)) + handled s"

definition map_work :: "(string, 'p run_context) umap \<Rightarrow> 'p multiset" where
  "map_work m = sum_list (map (\<lambda>(n, ctx). sched_work (rc_scheduler ctx)) m)"

lemma map_work_simps [simp]:
  "map_work [] = {#}" "map_work (xs @ ys) = map_work xs + map_work ys"
  "map_work ((n, ctx) # ys) = sched_work (rc_scheduler ctx) + map_work ys"
  by (simp_all add: map_work_def)

lemma runner_step_work:
  "i < length (sc_threads s) \<Longrightarrow> runner_step st i s = Some (s', out) \<Longrightarrow>
   sched_work s' + (case out of None \<Rightarrow> {#} | Some c \<Rightarrow> {#fst c#}) = sched_work s"
  unfolding sched_work_def by (rule runner_step_account)

section \<open>Invariant\<close>

definition contexts_at :: "'p manager \<Rightarrow> ptr \<Rightarrow> nat option" where
  "contexts_at mm a = map_option (\<lambda>b. length (mb_contexts b)) (mm_heap mm a)"

fun pc_bound :: "ptr \<Rightarrow> (ptr, 'p) runner_pc \<Rightarrow> bool" where
  "pc_bound a (Copied p f) = (f = a)"
| "pc_bound a (In_Call p f) = (f = a)"
| "pc_bound a Exited = False"
| "pc_bound a _ = True"

text \<open>
  A model that is being served: its scheduler runs, is bound to the backend the context
  owns, which exists and has a context for every runner, and its payloads are well formed.
\<close>

definition serving :: "(ptr \<Rightarrow> nat option) \<Rightarrow> 'c payload run_context \<Rightarrow> bool" where
  "serving ctxs ctx \<longleftrightarrow>
     (let s = rc_scheduler ctx; a = bi_backend (rc_backend_info ctx) in
        sc_running s \<and> \<not> bq_broken (sc_queue s) \<and> sc_infer_func s = a \<and>
        (\<exists>k. ctxs a = Some k \<and>
           (\<forall>t \<in> set (sc_threads s). 0 \<le> sint (fst t) \<and> nat (sint (fst t)) < k)) \<and>
        (\<forall>t \<in> set (sc_threads s). pc_bound a (snd t)) \<and>
        (\<forall>p \<in># sched_work s. payload_wf p))"

definition server_ok :: "server \<Rightarrow> bool" where
  "server_ok sh \<longleftrightarrow>
     (let (mm, h) = sh in
        handler_ok h \<and> um_wf (mm_model_map mm) \<and>
        (\<forall>e \<in> set (mm_model_map mm). serving (contexts_at mm) (snd e)) \<and>
        (\<forall>t. count (image_mset payload_tag (map_work (mm_model_map mm))) t =
           (if step_of h t = Some PROCESS then 1 else 0)))"

text \<open>A step of a served model's runner.\<close>

lemma runner_step_serving:
  assumes "serving ctxs ctx" "i < length (sc_threads (rc_scheduler ctx))"
    "runner_step st i (rc_scheduler ctx) = Some (s', out)"
  shows "serving ctxs (ctx\<lparr>rc_scheduler := s'\<rparr>)"
proof -
  let ?s = "rc_scheduler ctx" and ?a = "bi_backend (rc_backend_info ctx)"
  note sv = assms(1) [unfolded serving_def Let_def]
  note fr = runner_step_frame [OF assms(3)]
  obtain k where k: "ctxs ?a = Some k"
    "\<forall>t \<in> set (sc_threads ?s). 0 \<le> sint (fst t) \<and> nat (sint (fst t)) < k"
    using sv by blast
  have "\<forall>f \<in> set (map fst (sc_threads s')). 0 \<le> sint f \<and> nat (sint f) < k"
    unfolding fr(7) using k(2) by auto
  then have idx: "\<forall>t \<in> set (sc_threads s'). 0 \<le> sint (fst t) \<and> nat (sint (fst t)) < k"
    by auto
  obtain pc where pc: "sc_threads s' = (sc_threads ?s)[i := (fst (sc_threads ?s ! i), pc)]"
    "pc_bound ?a pc"
    using assms(3) sv nth_mem [OF assms(2)]
    by (cases "snd (sc_threads ?s ! i)")
      (auto simp: runner_step_def split: if_splits option.splits)
  have bound: "\<forall>t \<in> set (sc_threads s'). pc_bound ?a (snd t)"
    unfolding pc(1) using sv pc(2) by (auto dest!: set_update_subset_insert [THEN subsetD])
  have "p \<in># sched_work s' \<Longrightarrow> payload_wf p" for p
    using runner_step_work [OF assms(2,3)] sv by (metis union_iff)
  then show ?thesis
    using sv fr idx bound k(1) by (auto simp: serving_def Let_def)
qed

section \<open>Runners keep the invariant\<close>

lemma infer_callback_ok:
  assumes "payload_wf p" "step_of h (payload_tag p) = Some PROCESS"
  obtains resp where
    "infer_callback p st message h =
       Returns (Inr (OnCompleted (payload_tag p) (set_response (payload_tag p) resp h)))"
    "rst_code (irs_request_status resp) = (if st = Success then SUCCESS else INTERNAL)"
    "rst_msg (irs_request_status resp) = message"
proof -
  obtain hs where hs: "h_states h (payload_tag p) = Some hs"
    using step_of_Some [OF assms(2)] by blast
  let ?ctx = "\<lparr>ctx_request = hs_request hs, ctx_response = hs_response hs, ctx_payload = p\<rparr>"
  obtain ctx where "OnInferCompleted st message ?ctx = Inr ctx"
    "rst_code (irs_request_status (ctx_response ctx)) = (if st = Success then SUCCESS else INTERNAL)"
    "rst_msg (irs_request_status (ctx_response ctx)) = message"
    using OnInferCompleted_success [of ?ctx message] OnInferCompleted_failure [of st message ?ctx] assms(1)
    by (cases "st = Success") auto
  then show ?thesis
    using hs that [of "ctx_response ctx"] by (simp add: infer_callback_def Let_def)
qed

lemma count_tags:
  "server_ok (mm, h) \<Longrightarrow> p \<in># map_work (mm_model_map mm) \<Longrightarrow> step_of h (payload_tag p) = Some PROCESS"
  by (rule ccontr) (auto simp: server_ok_def Let_def dest!: spec [where x = "payload_tag p"]
      split: if_splits)

lemma put_sched_split:
  assumes "mm_model_map mm = xs @ (n, ctx) # ys" "n \<notin> set (um_keys xs)" "n \<notin> set (um_keys ys)"
  shows "put_sched n ctx s mm = mm\<lparr>mm_model_map := xs @ (n, ctx\<lparr>rc_scheduler := s\<rparr>) # ys\<rparr>"
  using um_assign_split [OF assms] by (simp add: put_sched_def)

lemma advance_ok:
  assumes ok: "server_ok (mm, h)" and find: "um_find (mm_model_map mm) n = Some ctx"
    and i: "i < length (sc_threads (rc_scheduler ctx))"
  shows "advance n ctx i st (mm, h) = Blocks \<or>
    (\<exists>sh'. advance n ctx i st (mm, h) = Returns sh' \<and> server_ok sh')"
proof (cases "runner_step st i (rc_scheduler ctx)")
  case None
  then show ?thesis
    by (simp add: advance_def)
next
  case (Some r)
  obtain s' out where r: "runner_step st i (rc_scheduler ctx) = Some (s', out)"
    using Some by (cases r) simp
  note ok' = ok [unfolded server_ok_def Let_def prod.case]
  obtain xs ys where m: "mm_model_map mm = xs @ (n, ctx) # ys"
    "n \<notin> set (um_keys xs)" "n \<notin> set (um_keys ys)"
    using um_split [OF find] ok' by metis
  have sv: "serving (contexts_at mm) ctx"
    using ok' m(1) by simp
  define mm' where "mm' = put_sched n ctx s' mm"
  have mm': "mm_model_map mm' = xs @ (n, ctx\<lparr>rc_scheduler := s'\<rparr>) # ys" "contexts_at mm' = contexts_at mm"
    unfolding mm'_def put_sched_split [OF m] by (simp_all add: contexts_at_def fun_eq_iff)
  have wf: "um_wf (mm_model_map mm')"
    using ok' unfolding mm' m(1) by (simp add: um_wf_def)
  have sv': "\<forall>e \<in> set (mm_model_map mm'). serving (contexts_at mm') (snd e)"
    using ok' runner_step_serving [OF sv i r] unfolding mm' m(1) by auto
  have work: "map_work (mm_model_map mm') + (case out of None \<Rightarrow> {#} | Some c \<Rightarrow> {#fst c#}) =
      map_work (mm_model_map mm)"
    using runner_step_work [OF i r] unfolding mm' m(1) by (simp add: ac_simps)
  show ?thesis
  proof (cases out)
    case None
    then have "advance n ctx i st (mm, h) = Returns (mm', h)"
      by (simp add: advance_def r mm'_def)
    moreover have "server_ok (mm', h)"
      using ok' wf sv' work None by (simp add: server_ok_def)
    ultimately show ?thesis
      by blast
  next
    case (Some c)
    obtain p st' message where c: "c = (p, st', message)"
      by (cases c)
    have p: "p \<in># map_work (mm_model_map mm)" "p \<in># sched_work (rc_scheduler ctx)"
      using work runner_step_work [OF i r] Some c
      by (auto simp flip: insert_DiffM) (metis union_single_eq_member add.commute)+
    then have live: "step_of h (payload_tag p) = Some PROCESS" and pwf: "payload_wf p"
      using count_tags [OF ok] sv by (auto simp: serving_def Let_def)
    obtain resp where cb: "infer_callback p st' message h =
        Returns (Inr (OnCompleted (payload_tag p) (set_response (payload_tag p) resp h)))"
      using infer_callback_ok [OF pwf live] by metis
    define h' where "h' = OnCompleted (payload_tag p) (set_response (payload_tag p) resp h)"
    have "advance n ctx i st (mm, h) = Returns (mm', h')"
      by (simp add: advance_def r Some c cb mm'_def h'_def)
    moreover have "handler_ok h'"
      using ok' live complete_ok [of "set_response (payload_tag p) resp h" "payload_tag p"]
        set_response_ok [of h "payload_tag p" resp] by (simp add: h'_def)
    moreover have "count (image_mset payload_tag (map_work (mm_model_map mm'))) t =
        (if step_of h' t = Some PROCESS then 1 else 0)" for t
    proof -
      have "image_mset payload_tag (map_work (mm_model_map mm)) =
          add_mset (payload_tag p) (image_mset payload_tag (map_work (mm_model_map mm')))"
        using work [symmetric] Some c by simp
      then have "count (image_mset payload_tag (map_work (mm_model_map mm))) t =
          (if payload_tag p = t then 1 else 0) + count (image_mset payload_tag (map_work (mm_model_map mm'))) t"
        by simp
      then show ?thesis
        using ok' live by (auto simp: h'_def)
    qed
    ultimately show ?thesis
      using wf sv' by (auto simp: server_ok_def)
  qed
qed

lemma backend_call_ok:
  assumes "contexts_at mm a = Some k" "0 \<le> sint idx" "nat (sint idx) < k"
  shows "\<exists>st mm'. backend_call idx p a mm = Returns (st, mm') \<and> contexts_at mm' = contexts_at mm \<and>
     mm_model_map mm' = mm_model_map mm"
proof -
  obtain b where b: "mm_heap mm a = Some b" "length (mb_contexts b) = k"
    using assms(1) by (auto simp: contexts_at_def)
  then show ?thesis
    using Run_in_range [of idx b DemoContext_Run "[p]"] assms(2,3)
    by (auto simp: backend_call_def contexts_at_def fun_eq_iff)
qed

lemma model_runner_ok:
  assumes ok: "server_ok sh"
  shows "model_runner n i sh = Blocks \<or> (\<exists>sh'. model_runner n i sh = Returns sh' \<and> server_ok sh')"
proof -
  obtain mm h where sh: "sh = (mm, h)"
    by (cases sh)
  show ?thesis
  proof (cases "\<exists>ctx. um_find (mm_model_map mm) n = Some ctx \<and> i < length (sc_threads (rc_scheduler ctx))")
    case False
    then show ?thesis
      by (auto simp: model_runner_def sh split: option.split)
  next
    case True
    then obtain ctx idx pc where find: "um_find (mm_model_map mm) n = Some ctx"
      "i < length (sc_threads (rc_scheduler ctx))" "sc_threads (rc_scheduler ctx) ! i = (idx, pc)"
      by fastforce
    note ok' = ok [unfolded server_ok_def Let_def sh prod.case]
    have "(n, ctx) \<in> set (mm_model_map mm)"
      using find(1) ok' um_find_set by fast
    then have sv: "serving (contexts_at mm) ctx"
      using ok' by force
    note adv = advance_ok [OF ok [unfolded sh] find(1,2)]
    show ?thesis
    proof (cases "\<exists>p a. pc = In_Call p a")
      case False
      then have "model_runner n i sh = advance n ctx i Success (mm, h)"
        using find by (cases pc) (auto simp: model_runner_def sh)
      then show ?thesis
        using adv by simp
    next
      case True
      then obtain p a where pc: "pc = In_Call p a"
        by blast
      have "(idx, pc) \<in> set (sc_threads (rc_scheduler ctx))"
        using find(2,3) nth_mem by metis
      then obtain k where "contexts_at mm a = Some k" "0 \<le> sint idx" "nat (sint idx) < k"
        using sv pc by (force simp: serving_def Let_def)
      from backend_call_ok [OF this] obtain st mm' where call:
        "backend_call idx p a mm = Returns (st, mm')" "contexts_at mm' = contexts_at mm"
        "mm_model_map mm' = mm_model_map mm"
        by blast
      have "server_ok (mm', h)"
        using ok' call by (simp add: server_ok_def)
      from advance_ok [OF this, of n ctx i st] show ?thesis
        using find call by (simp add: model_runner_def sh pc)
    qed
  qed
qed

section \<open>The event loop keeps the invariant\<close>

lemma sched_work_push:
  "\<not> bq_broken (sc_queue s) \<Longrightarrow> push p (sc_queue s) = Some q \<Longrightarrow>
   sched_work (s\<lparr>sc_queue := q\<rparr>) = add_mset p (sched_work s)"
  by (auto simp: sched_work_def push_def split: if_splits)

text \<open>What \<open>InferAsync\<close> does to a served map: it refuses, or the payload is work.\<close>

lemma InferAsync_ok:
  assumes wf: "um_wf (mm_model_map mm)"
    and sv: "\<forall>e \<in> set (mm_model_map mm). serving (contexts_at mm) (snd e)"
    and pwf: "payload_wf p" and run: "InferAsync p mm = Some (status, mm')"
  shows "um_wf (mm_model_map mm')"
    "\<forall>e \<in> set (mm_model_map mm'). serving (contexts_at mm') (snd e)"
    "map_work (mm_model_map mm') =
       (if status = Success then add_mset p (map_work (mm_model_map mm)) else map_work (mm_model_map mm))"
proof -
  have "um_wf (mm_model_map mm') \<and>
    (\<forall>e \<in> set (mm_model_map mm'). serving (contexts_at mm') (snd e)) \<and>
    map_work (mm_model_map mm') =
       (if status = Success then add_mset p (map_work (mm_model_map mm)) else map_work (mm_model_map mm))"
  proof (cases "um_find (mm_model_map mm) (pl_model_name p)")
    case None
    then show ?thesis
      using assms by (auto simp: InferAsync_def)
  next
    case (Some ctx)
    obtain xs ys where m: "mm_model_map mm = xs @ (pl_model_name p, ctx) # ys"
      "pl_model_name p \<notin> set (um_keys xs)" "pl_model_name p \<notin> set (um_keys ys)"
      using um_split [OF Some wf] by metis
    have sc: "serving (contexts_at mm) ctx"
      using sv m(1) by simp
    then have running: "sc_running (rc_scheduler ctx)" "\<not> bq_broken (sc_queue (rc_scheduler ctx))"
      by (auto simp: serving_def Let_def)
    obtain q where q: "push p (sc_queue (rc_scheduler ctx)) = Some q" "status = Success"
      "mm' = put_sched (pl_model_name p) ctx ((rc_scheduler ctx)\<lparr>sc_queue := q\<rparr>) mm"
      using run Some running(1)
      by (auto simp: InferAsync_def Enqueue_Some put_sched_def split: option.splits)
    note work = sched_work_push [OF running(2) q(1)]
    have mm': "mm_model_map mm' = xs @ (pl_model_name p, ctx\<lparr>rc_scheduler := (rc_scheduler ctx)\<lparr>sc_queue := q\<rparr>\<rparr>) # ys"
      "contexts_at mm' = contexts_at mm"
      unfolding q(3) put_sched_split [OF m] by (simp_all add: contexts_at_def fun_eq_iff)
    have "\<not> bq_broken q"
      using bq.enq_frame [OF q(1)] running(2) by (simp add: broken_def)
    then have "serving (contexts_at mm) (ctx\<lparr>rc_scheduler := (rc_scheduler ctx)\<lparr>sc_queue := q\<rparr>\<rparr>)"
      using sc pwf work by (auto simp: serving_def Let_def)
    then show ?thesis
      using wf sv work q(2) unfolding mm' m(1) by (auto simp: um_wf_def)
  qed
  then show "um_wf (mm_model_map mm')"
    "\<forall>e \<in> set (mm_model_map mm'). serving (contexts_at mm') (snd e)"
    "map_work (mm_model_map mm') =
       (if status = Success then add_mset p (map_work (mm_model_map mm)) else map_work (mm_model_map mm))"
    by blast+
qed

lemma Infer_TakeAction_cases:
  assumes "step_of h t = Some PROCESS" "Infer_TakeAction t (mm, h) = Returns (mm', h')"
  obtains p status where "InferAsync p mm = Some (status, mm')" "payload_wf p" "payload_tag p = t"
    "if status = Success then h' = h else \<exists>resp. h' = OnCompleted t (set_response t resp h)"
proof -
  obtain hs where hs: "h_states h t = Some hs"
    using step_of_Some [OF assms(1)] by blast
  obtain ctx where ctx: "GrpcInferRequestContext (hs_request hs) (hs_response hs) t = Inr ctx"
    "payload_wf (ctx_payload ctx)" "payload_tag (ctx_payload ctx) = t"
    using GrpcInferRequestContext_Inr [of "hs_request hs" "hs_response hs" t] by metis
  obtain status where st: "InferAsync (ctx_payload ctx) mm = Some (status, mm')"
    "if status = Success then h' = h else h' = infer_failed t status (hs_response hs) h"
    using assms(2) hs ctx(1)
    by (auto simp: Infer_TakeAction_def InferenceCore_InferAsync_def split: option.splits if_splits)
  show ?thesis
    by (rule that [OF st(1) ctx(2,3)]) (use st(2) in \<open>auto simp: infer_failed_def split: if_splits\<close>)
qed

text \<open>Every step of the event loop but the next event leaves manager and calls in progress.\<close>

lemma queue_step_frame:
  assumes "queue_step act (s, h) (s', h')" "handler_ok h"
  shows "(\<exists>t ok es. h_thread h = Looping \<and> cq_events h = (t, ok) # es \<and>
      Process act t ok (s, h\<lparr>cq_events := es\<rparr>) = Returns (s', h')) \<or>
    (s' = s \<and> (\<forall>u. step_of h' u = Some PROCESS \<longleftrightarrow> step_of h u = Some PROCESS))"
  using assms(1)
proof cases
  case enter
  then have "step_of h u = None" for u
    using assms(2) by (simp add: handler_ok_def one_request_def)
  then show ?thesis
    using enter by simp
qed simp_all

text \<open>What a step of the event loop does to the manager and to the calls in progress.\<close>

lemma rpc_effect:
  assumes step: "queue_step Infer_TakeAction (mm, h) (mm', h')" and hok: "handler_ok h"
  obtains (same) "mm' = mm" "\<And>u. step_of h' u = Some PROCESS \<longleftrightarrow> step_of h u = Some PROCESS"
  | (submit) p status where "InferAsync p mm = Some (status, mm')" "payload_wf p"
      "step_of h (payload_tag p) \<noteq> Some PROCESS"
      "\<And>u. step_of h' u = Some PROCESS \<longleftrightarrow> (status = Success \<and> u = payload_tag p) \<or> step_of h u = Some PROCESS"
proof -
  consider (event) t b es where "cq_events h = (t, b) # es"
      "Process Infer_TakeAction t b (mm, h\<lparr>cq_events := es\<rparr>) = Returns (mm', h')"
    | (still) "mm' = mm" "\<forall>u. step_of h' u = Some PROCESS \<longleftrightarrow> step_of h u = Some PROCESS"
    using queue_step_frame [OF step hok] by blast
  then show ?thesis
  proof cases
    case still
    then show ?thesis
      by (intro same) auto
  next
    case event
    from tags_live(1) [of h t] event(1) hok have live: "step_of h t = Some START \<or> step_of h t = Some FINISH"
      by (simp add: cq_tags_def)
    then obtain st where st: "h_states h t = Some st" "hs_step st = START \<or> hs_step st = FINISH"
      by (auto simp: step_of_def)
    let ?h = "set_step t PROCESS (StartNewRequest (set_step t START (h\<lparr>cq_events := es\<rparr>)))"
    show ?thesis
    proof (cases "b \<and> hs_step st = START")
      case False
      then have "mm' = mm" "h' = StateRelease t (set_step t FINISH (h\<lparr>cq_events := es\<rparr>))"
        using event(2) st by (auto simp: Process_def Let_def)
      then show ?thesis
        using live by (intro same) auto
    next
      case True
      then have start: "step_of h t = Some START" and ev: "cq_events h = (t, True) # es"
        using st event(1) by (simp_all add: step_of_def)
      have new: "step_of ?h t = Some PROCESS"
        using begin_call_ok(2) [of h t es] hok ev start by blast
      have others: "step_of ?h u = Some PROCESS \<longleftrightarrow> u = t \<or> step_of h u = Some PROCESS" for u
        using tags_live(2) [of h t] hok ev start
        by (auto simp: cq_tags_def handler_ok_def tags_ok_def)
      have "Infer_TakeAction t (mm, ?h) = Returns (mm', h')"
        using event(2) True st by (simp add: Process_def Let_def)
      from Infer_TakeAction_cases [OF new this] obtain p status where
        p: "InferAsync p mm = Some (status, mm')" "payload_wf p" "payload_tag p = t"
        "if status = Success then h' = ?h else \<exists>resp. h' = OnCompleted t (set_response t resp ?h)"
        by metis
      have "step_of h' u = Some PROCESS \<longleftrightarrow> (status = Success \<and> u = t) \<or> step_of h u = Some PROCESS" for u
        using p(4) others [of u] start by (auto split: if_splits)
      then show ?thesis
        using p(1-3) start by (intro submit [of p status]) auto
    qed
  qed
qed

lemma rpc_ok:
  assumes step: "queue_step Infer_TakeAction (mm, h) (mm', h')" and ok: "server_ok (mm, h)"
  shows "server_ok (mm', h')"
proof -
  note ok' = ok [unfolded server_ok_def Let_def prod.case]
  have hok: "handler_ok h" "handler_ok h'"
    using infer_h.queue_step_ok [OF step] ok' by blast+
  show ?thesis
    using step hok(1)
  proof (cases rule: rpc_effect)
    case same
    then show ?thesis
      using ok' hok by (simp add: server_ok_def)
  next
    case (submit p status)
    have "um_wf (mm_model_map mm)" "\<forall>e \<in> set (mm_model_map mm). serving (contexts_at mm) (snd e)"
      using ok' by blast+
    note ia = InferAsync_ok [OF this submit(2,1)]
    show ?thesis
      using ok' hok(2) ia submit(3,4) by (auto simp: server_ok_def)
  qed
qed

lemma server_step_ok: "server_step sh sh' \<Longrightarrow> server_ok sh \<Longrightarrow> server_ok sh'"
proof (induction rule: server_step.induct)
  case (rpc sh sh')
  then show ?case
    using rpc_ok by (cases sh; cases sh') auto
next
  case (runner n i sh sh')
  then show ?case
    using model_runner_ok [of sh n i] by auto
qed

section \<open>The first pass over the repository\<close>

lemma serving_contexts:
  "serving c ctx \<Longrightarrow> c' (bi_backend (rc_backend_info ctx)) = c (bi_backend (rc_backend_info ctx)) \<Longrightarrow>
   serving c' ctx"
  by (simp add: serving_def Let_def)

lemma nat_sint_of_nat: "nat (sint (word_of_nat n :: i32)) \<le> n"
proof -
  have "take_bit 32 (uint x) = uint x" for x :: i32
    using take_bit_int_eq_self [of "uint x" 32] unsigned_less [of x, where 'a = int] by simp
  then have "sint (word_of_nat n :: i32) \<le> int (unat (word_of_nat n :: i32))"
    by (simp add: sint_uint signed_take_bit_eq_take_bit_minus uint_nat [symmetric])
  also have "unat (word_of_nat n :: i32) \<le> n"
    by (simp add: unat_of_nat take_bit_nat_eq_self_iff take_bit_nat_less_eq_self)
  finally show ?thesis
    by simp
qed

lemma new_context_serving:
  assumes "mm_heap mm (bi_backend bi) = Some b"
  shows "serving (contexts_at mm) (new_run_context mm bi)"
    "sched_work (rc_scheduler (new_run_context mm bi)) = {#}"
proof -
  define tot :: i32 where "tot = word_of_nat (length (mb_contexts b))"
  have tot: "nat (sint tot) \<le> length (mb_contexts b)"
    unfolding tot_def by (rule nat_sint_of_nat)
  have inst: "word_of_nat (instances_at mm (bi_backend bi)) = tot"
    using assms by (simp add: instances_at_def GetInstanceNum_def tot_def)
  have thr: "0 \<le> sint (fst t) \<and> nat (sint (fst t)) < length (mb_contexts b)" "snd t = At_Test"
    if t: "t \<in> set (new_threads tot :: (i32 \<times> (ptr, 'a payload) runner_pc) list)" for t
  proof -
    obtain i where i: "i < nat (sint tot)" "t = new_threads tot ! i"
      using t by (metis in_set_conv_nth new_threads_length)
    then have "sint (fst t) = int i"
      using new_threads_nth(2) [of i tot] by simp
    then show "0 \<le> sint (fst t) \<and> nat (sint (fst t)) < length (mb_contexts b)"
      using i(1) tot by simp
    show "snd t = At_Test"
      using t by (rule new_threads_At_Test)
  qed
  have none: "handled (rc_scheduler (new_run_context mm bi)) = {#}"
    unfolding handled_def
    by (rule somes_empty) (use thr(2) in \<open>auto simp: new_run_context_def Start_def SimpleScheduler_def inst\<close>)
  then show "sched_work (rc_scheduler (new_run_context mm bi)) = {#}"
    by (simp add: sched_work_def new_run_context_def Start_def SimpleScheduler_def BlockingQueue_def)
  then show "serving (contexts_at mm) (new_run_context mm bi)"
    using thr assms
    by (auto simp: serving_def Let_def new_run_context_def Start_def SimpleScheduler_def
        BlockingQueue_def inst contexts_at_def)
qed

definition idle_manager :: "'c payload manager \<Rightarrow> bool" where
  "idle_manager mm \<longleftrightarrow> manager_wf mm \<and>
     (\<forall>e \<in> set (mm_model_map mm). serving (contexts_at mm) (snd e)) \<and> map_work (mm_model_map mm) = {#}"

lemma add_model_idle:
  assumes "idle_manager mm"
  shows "idle_manager (add_model B parse (name, v) mm)"
proof (cases rule: LoadModel_cases [of B parse name v mm])
  case refused
  then show ?thesis
    using assms by (simp add: add_model_def)
next
  case (loaded bi b)
  let ?mm' = "mm\<lparr>mm_heap := (mm_heap mm)(mm_next mm := Some b), mm_next := Suc (mm_next mm)\<rparr>"
  have wf: "manager_wf mm" and wf': "manager_wf (add_model B parse (name, v) mm)"
    using assms add_model_wf by (auto simp: idle_manager_def)
  have old: "serving (contexts_at ?mm') (snd e)" if "e \<in> set (mm_model_map mm)" for e
  proof (rule serving_contexts)
    show "serving (contexts_at mm) (snd e)"
      using assms that by (simp add: idle_manager_def)
    have "bi_backend (rc_backend_info (snd e)) \<noteq> mm_next mm"
      using manager_wfD(6) [OF wf owned_memI [OF that]] by simp
    then show "contexts_at ?mm' (bi_backend (rc_backend_info (snd e))) =
        contexts_at mm (bi_backend (rc_backend_info (snd e)))"
      by (simp add: contexts_at_def)
  qed
  show ?thesis
  proof (cases "um_find (mm_model_map mm) name")
    case None
    have new: "serving (contexts_at ?mm') (new_run_context ?mm' bi)"
      "sched_work (rc_scheduler (new_run_context ?mm' bi)) = {#}"
      using new_context_serving [of ?mm' bi b] loaded by simp_all
    have add: "add_model B parse (name, v) mm =
        ?mm'\<lparr>mm_model_map := mm_model_map mm @ [(name, new_run_context ?mm' bi)]\<rparr>"
      using None by (simp add: add_model_def loaded(1) um_insert_def)
    have "contexts_at (add_model B parse (name, v) mm) = contexts_at ?mm'"
      unfolding add by (simp add: contexts_at_def fun_eq_iff)
    then show ?thesis
      using assms wf' old new unfolding idle_manager_def add by auto
  next
    case (Some ctx)
    have heap: "(mm_heap mm)(mm_next mm := None) = mm_heap mm"
      using manager_wf_next [OF wf] by auto
    then have add: "add_model B parse (name, v) mm = mm\<lparr>mm_next := Suc (mm_next mm)\<rparr>"
      using Some by (simp add: add_model_def loaded(1,5) free_info_def)
    have "contexts_at (mm\<lparr>mm_next := Suc (mm_next mm)\<rparr>) = contexts_at mm"
      by (simp add: contexts_at_def fun_eq_iff)
    then show ?thesis
      using assms wf' unfolding idle_manager_def add by simp
  qed
qed

lemma fold_add_idle: "idle_manager mm \<Longrightarrow> idle_manager (fold (add_model B parse) infos mm)"
  by (induction infos arbitrary: mm) (auto simp: add_model_idle)

lemma scan_updated_empty: "scan_updated B parse cfg [] names = []"
  by (induction names) (simp_all add: scan_updated_def map_filter_Cons List.map_filter_def split: option.split)

lemma LoadModels_first:
  assumes "LoadModels B parse mm = Inr mm'" "idle_manager mm" "mm_model_map mm = []"
  shows "idle_manager mm'"
proof -
  from LoadModels_listed [OF assms(1)] obtain names where
    "mm' = fold delete_model (filter (\<lambda>n. n \<notin> set names) (um_keys (mm_model_map mm)))
       (fold (update_model B parse) (scan_updated B parse (mm_server_cfg mm) (mm_model_map mm) names)
         (fold (add_model B parse) (scan_added B parse (mm_server_cfg mm) (mm_model_map mm) names) mm))"
    by metis
  then show ?thesis
    using fold_add_idle [OF assms(2)] by (simp add: assms(3) scan_updated_empty um_keys_def)
qed

lemma ModelManager_idle:
  assumes "ModelManager B parse cfg = Inr mm"
  shows "idle_manager mm"
proof -
  let ?mm0 = "(new_manager cfg)\<lparr>mm_running := True\<rparr> :: 'a payload manager"
  obtain mm1 where mm1: "LoadModels B parse ?mm0 = Inr mm1"
    "mm = mm1 \<or> mm = mm1\<lparr>mm_update_thread := True\<rparr>"
    using assms
    by (auto simp: ModelManager_def ModelManager_Start_def new_manager_def map_sum_def
        split: sum.splits if_splits)
  have "idle_manager mm1"
    by (rule LoadModels_first [OF mm1(1)])
      (simp_all add: idle_manager_def manager_wf_def new_manager_def)
  moreover have "contexts_at (mm1\<lparr>mm_update_thread := True\<rparr>) = contexts_at mm1"
    "manager_wf (mm1\<lparr>mm_update_thread := True\<rparr>) = manager_wf mm1"
    by (simp_all add: contexts_at_def fun_eq_iff manager_wf_def)
  ultimately show ?thesis
    using mm1(2) by (elim disjE) (simp_all add: idle_manager_def)
qed

lemma server_reachable_ok: "server_reachable B parse cfg sh \<Longrightarrow> server_ok sh"
proof (induction rule: server_reachable.induct)
  case (start mm)
  have "handler_ok new_infer_handler" "\<And>t. step_of new_infer_handler t = None"
    using handler_ok_init by (auto simp: new_infer_handler_def Handler_Start_def new_handler_def step_of_def)
  then show ?case
    using ModelManager_idle [OF start] by (auto simp: server_ok_def idle_manager_def manager_wf_def)
next
  case (step sh sh')
  then show ?case
    using server_step_ok by blast
qed

lemma server_reachable_handler: "server_reachable B parse cfg (mm, h) \<Longrightarrow> handler_ok h"
  by (drule server_reachable_ok) (simp add: server_ok_def)

section \<open>Progress\<close>

text \<open>
  How many steps the runners can make before all of them wait for a payload: the work a
  queued payload needs, plus what each runner has in hand.
\<close>

fun pc_wait :: "('f, 'p) runner_pc \<Rightarrow> nat" where
  "pc_wait In_Pop = 0"
| "pc_wait At_Test = 1"
| "pc_wait (Finished _ _) = 2"
| "pc_wait (In_Call _ _) = 3"
| "pc_wait (Copied _ _) = 4"
| "pc_wait (Got _) = 5"
| "pc_wait Exited = 0"

definition sched_wait :: "('f, 'p) scheduler \<Rightarrow> nat" where
  "sched_wait s = 6 * bq_size (sc_queue s) + sum_list (map (pc_wait \<circ> snd) (sc_threads s))"

definition server_wait :: "server \<Rightarrow> nat" where
  "server_wait sh = sum_list (map (\<lambda>(n, ctx). sched_wait (rc_scheduler ctx)) (mm_model_map (fst sh)))"

definition has_runners :: "'p manager \<Rightarrow> bool" where
  "has_runners mm \<longleftrightarrow> (\<forall>e \<in> set (mm_model_map mm). sc_threads (rc_scheduler (snd e)) \<noteq> [])"

lemma sum_list_update_nat:
  fixes g :: "'a \<Rightarrow> nat"
  shows "i < length xs \<Longrightarrow> sum_list (map g (xs[i := y])) + g (xs ! i) = sum_list (map g xs) + g y"
proof (induction xs arbitrary: i)
  case (Cons x xs)
  then show ?case
    by (cases i) auto
qed simp

lemma runner_step_wait:
  assumes "sc_running s" "\<not> bq_broken (sc_queue s)" "i < length (sc_threads s)"
    "runner_step st i s = Some (s', out)"
  shows "sched_wait s' < sched_wait s"
proof -
  let ?f = "pc_wait \<circ> snd"
  note upd = sum_list_update_nat [OF assms(3), of ?f]
  show ?thesis
  proof (cases "snd (sc_threads s ! i)")
    case In_Pop
    then obtain p ps where "bq_buffer (sc_queue s) = p # ps"
      "s' = set_runner i (Got p) (s\<lparr>sc_queue := sc_queue s\<lparr>bq_buffer := ps\<rparr>\<rparr>)"
      using assms(2,4)
      by (cases "bq_buffer (sc_queue s)") (auto simp: runner_step_def pop_def pop_ready_def)
    then show ?thesis
      using In_Pop upd [of "(fst (sc_threads s ! i), Got p)"] by (simp add: sched_wait_def bq_size_def)
  next
    case At_Test
    then show ?thesis
      using assms upd [of "(fst (sc_threads s ! i), In_Pop)"]
      by (auto simp: runner_step_def sched_wait_def)
  next
    case (Got p)
    then show ?thesis
      using assms(4) upd [of "(fst (sc_threads s ! i), Copied p (sc_infer_func s))"]
      by (auto simp: runner_step_def sched_wait_def)
  next
    case (Copied p f)
    then show ?thesis
      using assms(4) upd [of "(fst (sc_threads s ! i), In_Call p (sc_infer_func s))"]
      by (auto simp: runner_step_def sched_wait_def)
  next
    case (In_Call p f)
    then show ?thesis
      using assms(4) upd [of "(fst (sc_threads s ! i), Finished p st)"]
      by (auto simp: runner_step_def sched_wait_def)
  next
    case (Finished p st')
    then show ?thesis
      using assms(4) upd [of "(fst (sc_threads s ! i), At_Test)"]
      by (auto simp: runner_step_def sched_wait_def)
  next
    case Exited
    then show ?thesis
      using assms(4) by (simp add: runner_step_def)
  qed
qed

lemma advance_Returns:
  assumes "advance n ctx i st (mm, h) = Returns (mm', h')"
  obtains s' out where "runner_step st i (rc_scheduler ctx) = Some (s', out)"
    "mm' = put_sched n ctx s' mm"
    "out = None \<and> h' = h \<or> (\<exists>p st' m. out = Some (p, st', m) \<and> infer_callback p st' m h = Returns (Inr h'))"
  using assms by (auto simp: advance_def split: option.splits call_result.splits sum.splits)

lemma backend_call_map:
  "backend_call idx p a mm = Returns (st, mm') \<Longrightarrow> mm_model_map mm' = mm_model_map mm"
  by (auto simp: backend_call_def split: option.splits prod.splits run_outcome.splits)

lemma model_runner_Returns:
  assumes "model_runner n i (mm, h) = Returns (mm', h')"
  obtains ctx st s' out mm1 where "um_find (mm_model_map mm) n = Some ctx"
    "i < length (sc_threads (rc_scheduler ctx))" "mm_model_map mm1 = mm_model_map mm"
    "runner_step st i (rc_scheduler ctx) = Some (s', out)" "mm' = put_sched n ctx s' mm1"
    "out = None \<and> h' = h \<or> (\<exists>p st' m. out = Some (p, st', m) \<and> infer_callback p st' m h = Returns (Inr h'))"
proof -
  obtain ctx idx pc where c: "um_find (mm_model_map mm) n = Some ctx"
    "i < length (sc_threads (rc_scheduler ctx))" "sc_threads (rc_scheduler ctx) ! i = (idx, pc)"
    using assms by (auto simp: model_runner_def not_le split: option.splits if_splits prod.splits)
  obtain st mm1 where "mm_model_map mm1 = mm_model_map mm" "advance n ctx i st (mm1, h) = Returns (mm', h')"
    using assms c backend_call_map
    by (cases pc) (fastforce simp: model_runner_def split: call_result.splits prod.splits)+
  then show ?thesis
    using advance_Returns that c by metis
qed

lemma infer_callback_Returns:
  assumes "infer_callback p st message h = Returns (Inr h')"
  shows "\<exists>resp. h' = OnCompleted (payload_tag p) (set_response (payload_tag p) resp h)"
proof (cases "h_states h (payload_tag p)")
  case None
  then show ?thesis
    using assms by (simp add: infer_callback_def)
next
  case (Some hs)
  then show ?thesis
    using assms
    by (cases "OnInferCompleted st message
        \<lparr>ctx_request = hs_request hs, ctx_response = hs_response hs, ctx_payload = p\<rparr>")
      (auto simp: infer_callback_def Let_def)
qed

lemma model_runner_effect:
  assumes ok: "server_ok (mm, h)" and run: "model_runner n i (mm, h) = Returns (mm', h')"
  shows "server_wait (mm', h') < server_wait (mm, h)" "has_runners mm' \<longleftrightarrow> has_runners mm"
    "step_of h t \<in> {Some PROCESS, Some FINISH} \<Longrightarrow> step_of h' t \<in> {Some PROCESS, Some FINISH}"
proof -
  from run obtain ctx st s' out mm1 where r: "um_find (mm_model_map mm) n = Some ctx"
    "i < length (sc_threads (rc_scheduler ctx))" "mm_model_map mm1 = mm_model_map mm"
    "runner_step st i (rc_scheduler ctx) = Some (s', out)" "mm' = put_sched n ctx s' mm1"
    "out = None \<and> h' = h \<or> (\<exists>p st' m. out = Some (p, st', m) \<and> infer_callback p st' m h = Returns (Inr h'))"
    by (rule model_runner_Returns)
  note ok' = ok [unfolded server_ok_def Let_def prod.case]
  obtain xs ys where m: "mm_model_map mm1 = xs @ (n, ctx) # ys"
    "n \<notin> set (um_keys xs)" "n \<notin> set (um_keys ys)"
    using um_split [OF r(1)] ok' r(3) by metis
  have mm': "mm_model_map mm' = xs @ (n, ctx\<lparr>rc_scheduler := s'\<rparr>) # ys"
    using put_sched_split [OF m] r(5) by simp
  have "serving (contexts_at mm) ctx"
    using ok' m(1) r(3) by force
  then have "sched_wait s' < sched_wait (rc_scheduler ctx)"
    using runner_step_wait [OF _ _ r(2,4)] by (simp add: serving_def Let_def)
  then show "server_wait (mm', h') < server_wait (mm, h)"
    using m(1) r(3) by (simp add: server_wait_def mm')
  have "sc_threads s' = [] \<longleftrightarrow> sc_threads (rc_scheduler ctx) = []"
    using runner_step_frame(6) [OF r(4)] by (metis length_0_conv)
  then show "has_runners mm' \<longleftrightarrow> has_runners mm"
    using m(1) r(3) by (auto simp: has_runners_def mm')
  show "step_of h t \<in> {Some PROCESS, Some FINISH} \<Longrightarrow> step_of h' t \<in> {Some PROCESS, Some FINISH}"
    using r(6) by (auto dest!: infer_callback_Returns split: if_splits)
qed

lemma stuck_idle:
  assumes ok: "server_ok (mm, h)" and runners: "has_runners mm"
    and stuck: "\<And>n i. model_runner n i (mm, h) = Blocks"
  shows "map_work (mm_model_map mm) = {#}"
proof -
  note ok' = ok [unfolded server_ok_def Let_def prod.case]
  have idle: "sched_work (rc_scheduler ctx) = {#}" if e: "(n, ctx) \<in> set (mm_model_map mm)" for n ctx
  proof -
    let ?s = "rc_scheduler ctx"
    have find: "um_find (mm_model_map mm) n = Some ctx"
      using e ok' um_find_set by metis
    have sv: "serving (contexts_at mm) ctx"
      using e ok' by force
    have waits: "snd (sc_threads ?s ! i) = In_Pop \<and> bq_buffer (sc_queue ?s) = []"
      if i: "i < length (sc_threads ?s)" for i
    proof -
      obtain idx pc where t: "sc_threads ?s ! i = (idx, pc)"
        by (cases "sc_threads ?s ! i")
      then have mem: "(idx, pc) \<in> set (sc_threads ?s)"
        using i nth_mem by metis
      have pcb: "pc_bound (bi_backend (rc_backend_info ctx)) pc"
        using sv mem by (force simp: serving_def Let_def)
      have "\<nexists>p a. pc = In_Call p a"
      proof
        assume "\<exists>p a. pc = In_Call p a"
        then obtain p a where pc: "pc = In_Call p a"
          by blast
        then obtain k where "contexts_at mm a = Some k" "0 \<le> sint idx" "nat (sint idx) < k"
          using sv mem pcb by (force simp: serving_def Let_def)
        from backend_call_ok [OF this, of p] obtain st mm1 where "backend_call idx p a mm = Returns (st, mm1)"
          by blast
        then show False
          using stuck [of n i] find i t pc
          by (simp add: model_runner_def advance_def runner_step_def)
      qed
      then have adv: "advance n ctx i Success (mm, h) = Blocks"
        using stuck [of n i] find i t by (cases pc) (auto simp: model_runner_def)
      have "\<not> (\<exists>p st. pc = Finished p st)"
      proof
        assume "\<exists>p st. pc = Finished p st"
        then obtain p st where pc: "pc = Finished p st"
          by blast
        have "p \<in># handled ?s"
          unfolding handled_def by (rule somes_mem [OF mem]) (simp add: pc)
        then have "p \<in># sched_work ?s"
          by (simp add: sched_work_def)
        moreover have "sched_work ?s \<subseteq># map_work (mm_model_map mm)"
          using split_list [OF e] by auto
        ultimately have "payload_wf p" "step_of h (payload_tag p) = Some PROCESS"
          using sv count_tags [OF ok] by (auto simp: serving_def Let_def dest: mset_subset_eqD)
        then obtain resp where "infer_callback p st (completion_message st) h =
            Returns (Inr (OnCompleted (payload_tag p) (set_response (payload_tag p) resp h)))"
          using infer_callback_ok by metis
        then show False
          using adv pc t by (simp add: advance_def runner_step_def)
      qed
      then show ?thesis
        using adv pcb t sv
        by (cases pc) (auto simp: advance_def runner_step_def pop_def pop_ready_def serving_def
            Let_def split: option.splits if_splits)
    qed
    have "sc_threads ?s \<noteq> []"
      using runners e by (force simp: has_runners_def)
    then have "bq_buffer (sc_queue ?s) = []"
      using waits [of 0] by simp
    moreover have "handled ?s = {#}"
      unfolding handled_def by (rule somes_empty) (use waits in \<open>fastforce simp: in_set_conv_nth\<close>)
    ultimately show ?thesis
      by (simp add: sched_work_def)
  qed
  have "map_work m = {#}" if "\<forall>(n, ctx) \<in> set m. sched_work (rc_scheduler ctx) = {#}"
    for m :: "(string, tag payload run_context) umap"
    using that by (induction m) auto
  then show ?thesis
    using idle by blast
qed

text \<open>Every runner of every model waits.\<close>

definition is_blocked :: "'a call_result \<Rightarrow> bool" where
  "is_blocked r = (case r of Blocks \<Rightarrow> True | _ \<Rightarrow> False)"

definition runners_wait :: "server \<Rightarrow> bool" where
  "runners_wait sh \<longleftrightarrow> (\<forall>(n, ctx) \<in> set (mm_model_map (fst sh)).
     \<forall>i \<in> set [0..<length (sc_threads (rc_scheduler ctx))]. is_blocked (model_runner n i sh))"

lemma runners_wait_blocks:
  assumes "runners_wait sh" "server_ok sh"
  shows "model_runner n i sh = Blocks"
proof (cases "\<exists>ctx. um_find (mm_model_map (fst sh)) n = Some ctx \<and> i < length (sc_threads (rc_scheduler ctx))")
  case False
  then show ?thesis
    by (cases sh) (auto simp: model_runner_def split: option.split)
next
  case True
  then obtain ctx where ctx: "um_find (mm_model_map (fst sh)) n = Some ctx"
    "i < length (sc_threads (rc_scheduler ctx))"
    by blast
  then have "(n, ctx) \<in> set (mm_model_map (fst sh))"
    using assms(2) um_find_set by (cases sh) (fastforce simp: server_ok_def)
  then have "is_blocked (model_runner n i sh)"
    using assms(1) ctx(2) by (fastforce simp: runners_wait_def)
  then show ?thesis
    by (simp add: is_blocked_def split: call_result.splits)
qed

text \<open>Any order of runner steps ends, and ends with every call answered.\<close>

definition runner_moves :: "server \<Rightarrow> server \<Rightarrow> bool" where
  "runner_moves sh sh' \<longleftrightarrow> (\<exists>n i. model_runner n i sh = Returns sh')"

lemma runners_finish:
  assumes "server_ok sh" "has_runners (fst sh)"
  shows "\<exists>sh'. runner_moves\<^sup>*\<^sup>* sh sh' \<and> map_work (mm_model_map (fst sh')) = {#} \<and> server_ok sh' \<and>
    (\<forall>t. step_of (snd sh) t = Some PROCESS \<longrightarrow> step_of (snd sh') t = Some FINISH)"
proof -
  have "\<exists>sh'. runner_moves\<^sup>*\<^sup>* sh sh' \<and> map_work (mm_model_map (fst sh')) = {#} \<and> server_ok sh' \<and>
    (\<forall>t. step_of (snd sh) t \<in> {Some PROCESS, Some FINISH} \<longrightarrow>
       step_of (snd sh') t \<in> {Some PROCESS, Some FINISH})"
    using assms
  proof (induction "server_wait sh" arbitrary: sh rule: less_induct)
    case less
    obtain mm h where sh: "sh = (mm, h)"
      by (cases sh)
    show ?case
    proof (cases "\<exists>n i. model_runner n i sh \<noteq> Blocks")
      case False
      then show ?thesis
        using stuck_idle [of mm h] less.prems sh by (intro exI [of _ sh]) auto
    next
      case True
      then obtain n i sh1 where sh1: "model_runner n i sh = Returns sh1" "server_ok sh1"
        using model_runner_ok [OF less.prems(1)] by metis
      obtain mm1 h1 where p1: "sh1 = (mm1, h1)"
        by (cases sh1)
      note eff = model_runner_effect [OF less.prems(1) [unfolded sh] sh1(1) [unfolded sh p1]]
      have "server_wait sh1 < server_wait sh" "has_runners (fst sh1)"
        using eff(1,2) less.prems(2) by (simp_all add: sh p1)
      from less.hyps [OF this(1) sh1(2) this(2)] obtain sh' where sh': "runner_moves\<^sup>*\<^sup>* sh1 sh'"
        "map_work (mm_model_map (fst sh')) = {#}" "server_ok sh'"
        "\<forall>t. step_of (snd sh1) t \<in> {Some PROCESS, Some FINISH} \<longrightarrow>
          step_of (snd sh') t \<in> {Some PROCESS, Some FINISH}"
        by blast
      have "runner_moves sh sh1"
        using sh1(1) by (auto simp: runner_moves_def)
      then have "runner_moves\<^sup>*\<^sup>* sh sh'"
        using sh'(1) by (rule converse_rtranclp_into_rtranclp)
      then show ?thesis
        using sh'(2-4) eff(3) unfolding sh p1 snd_conv by (intro exI [of _ sh']) blast
    qed
  qed
  then obtain sh' where sh': "runner_moves\<^sup>*\<^sup>* sh sh'" "map_work (mm_model_map (fst sh')) = {#}"
    "server_ok sh'" "\<forall>t. step_of (snd sh) t \<in> {Some PROCESS, Some FINISH} \<longrightarrow>
       step_of (snd sh') t \<in> {Some PROCESS, Some FINISH}"
    by blast
  then have "step_of (snd sh') t \<noteq> Some PROCESS" for t
    by (cases sh') (auto simp: server_ok_def split: if_splits)
  then show ?thesis
    using sh' by blast
qed

end
