(* ===== verification/Service_Config.thy ===== *)
theory Service_Config
  imports Basic_Data "HOL-Library.Monad_Syntax"
begin

text \<open>
  \<open>src/core/service_config.cc\<close>: reading the server configuration. The YAML library
  is a parameter: a record of the operations the code calls. A conversion or a
  subscript of a scalar node, which throw, are \<open>None\<close>; \<open>as<T>(default)\<close> returns the default for an undefined node and
  for a failed conversion, as yaml-cpp documents.
\<close>

record 'n yaml_api =
  LoadFile :: "string \<Rightarrow> 'n option"
  yget :: "'n \<Rightarrow> string \<Rightarrow> 'n option"
  ydefined :: "'n \<Rightarrow> bool"
  as_string :: "'n \<Rightarrow> string option"
  as_bool :: "'n \<Rightarrow> bool option"
  as_int :: "'n \<Rightarrow> i32 option"

definition as_or :: "'a option \<Rightarrow> 'a \<Rightarrow> 'a" where
  "as_or r d = (case r of Some v \<Rightarrow> v | None \<Rightarrow> d)"

text \<open>\<open>std::make_shared<ServerConfig>()\<close> value-initialises: every scalar is zero.\<close>

definition zero_server_config :: server_config where
  "zero_server_config =
     \<lparr>model_repo_path = '''',
      model_control_cfg = \<lparr>auto_update = False, update_interval = 0, auto_warmup = False,
                           specific_model_version = []\<rparr>,
      grpc_server_cfg = \<lparr>grpc_server_addr = ''''\<rparr>,
      scheduler_cfg = \<lparr>sched_type = SCHEDULER_SIMPLE, max_queue_size = 0\<rparr>\<rparr>"

definition max_i32 :: "i32 \<Rightarrow> i32 \<Rightarrow> i32" where
  "max_i32 a b = (if sint a < sint b then b else a)"

definition load_model_control ::
  "'n yaml_api \<Rightarrow> 'n \<Rightarrow> model_control_config \<Rightarrow> model_control_config option" where
  "load_model_control Y node cfg =
     (if ydefined Y node then do {
        aun \<leftarrow> yget Y node ''enable_automatic_refresh'';
        au \<leftarrow> as_bool Y aun;
        cfg1 \<leftarrow> (if au then do {
            ivn \<leftarrow> yget Y node ''refresh_interval'';
            iv \<leftarrow> as_int Y ivn;
            Some (cfg\<lparr>auto_update := au,
                      update_interval := max_i32 MIN_MODEL_REFRESH_INTERVAL iv\<rparr>)
          } else Some (cfg\<lparr>auto_update := au\<rparr>));
        wn \<leftarrow> yget Y node ''enable_warmup'';
        w \<leftarrow> as_bool Y wn;
        Some (cfg1\<lparr>auto_warmup := w\<rparr>)
      } else Some cfg)"

definition load_grpc_server ::
  "'n yaml_api \<Rightarrow> 'n \<Rightarrow> grpc_server_config \<Rightarrow> grpc_server_config option" where
  "load_grpc_server Y node cfg =
     (if ydefined Y node then do {
        an \<leftarrow> yget Y node ''addr'';
        Some (cfg\<lparr>grpc_server_addr := as_or (as_string Y an) ''0.0.0.0:50051''\<rparr>)
      } else Some cfg)"

definition load_scheduler ::
  "'n yaml_api \<Rightarrow> 'n \<Rightarrow> scheduler_config \<Rightarrow> scheduler_config option" where
  "load_scheduler Y node cfg =
     (if ydefined Y node then do {
        qn \<leftarrow> yget Y node ''max_queue_size'';
        Some (cfg\<lparr>max_queue_size := as_or (as_int Y qn) DEFAULT_SCHEDUELR_QUEUE_SIZE\<rparr>)
      } else Some cfg)"

definition LoadServerConfig :: "'n yaml_api \<Rightarrow> string \<Rightarrow> server_config option" where
  "LoadServerConfig Y config_file = do {
     node \<leftarrow> LoadFile Y config_file;
     rn \<leftarrow> yget Y node ''model_repo_path'';
     repo \<leftarrow> as_string Y rn;
     mn \<leftarrow> yget Y node ''model_control'';
     mc \<leftarrow> load_model_control Y mn (model_control_cfg zero_server_config);
     gn \<leftarrow> yget Y node ''grpc_server'';
     gc \<leftarrow> load_grpc_server Y gn (grpc_server_cfg zero_server_config);
     sn \<leftarrow> yget Y node ''scheduler'';
     sc \<leftarrow> load_scheduler Y sn (scheduler_cfg zero_server_config);
     Some \<lparr>model_repo_path = repo, model_control_cfg = mc, grpc_server_cfg = gc,
           scheduler_cfg = sc\<rparr>
   }"

text \<open>The text of a configuration in the log; a boolean is printed as a digit.\<close>

definition endl :: string where
  "endl = [CHR 0x0A]"

definition show_bool :: "bool \<Rightarrow> string" where
  "show_bool b = (if b then ''1'' else ''0'')"

definition show_server_config :: "server_config \<Rightarrow> string" where
  "show_server_config cfg =
     ''######## Server configuration ########'' @ endl @
     ''model_repo_path: '' @ model_repo_path cfg @ endl @
     ''grpc_server.addr_port: '' @ grpc_server_addr (grpc_server_cfg cfg) @ endl @
     ''model_control.enable_automatic_refresh: '' @ show_bool (auto_update (model_control_cfg cfg)) @ endl @
     ''model_control.update_interval_: '' @ to_string (sint (update_interval (model_control_cfg cfg))) @ endl @
     ''model_control.require_warmup_succeed: '' @ show_bool (auto_warmup (model_control_cfg cfg)) @ endl @
     ''scheduler.max_queue_size: '' @ to_string (sint (max_queue_size (scheduler_cfg cfg))) @ endl @
     ''####################################'' @ endl"

section \<open>Properties\<close>

lemma sint_max_i32: "sint (max_i32 a b) = max (sint a) (sint b)"
  by (simp add: max_i32_def)

lemma load_model_control_Some:
  assumes "load_model_control Y node cfg = Some cfg'"
  shows "ydefined Y node \<Longrightarrow> auto_update cfg' \<Longrightarrow> 5 \<le> sint (update_interval cfg')"
    and "\<not> ydefined Y node \<Longrightarrow> cfg' = cfg"
  using assms
  by (auto simp: load_model_control_def sint_max_i32 MIN_MODEL_REFRESH_INTERVAL_def
      split: if_splits Option.bind_splits)

lemma load_model_control_off:
  assumes "load_model_control Y node cfg = Some cfg'" "ydefined Y node" "\<not> auto_update cfg'"
  shows "update_interval cfg' = update_interval cfg"
  using assms by (auto simp: load_model_control_def split: if_splits Option.bind_splits)

text \<open>What a successful load found in the file, section by section.\<close>

lemma LoadServerConfig_Some:
  assumes "LoadServerConfig Y f = Some cfg"
  obtains node mn gn sn where
    "LoadFile Y f = Some node"
    "yget Y node ''model_control'' = Some mn"
    "load_model_control Y mn (model_control_cfg zero_server_config) = Some (model_control_cfg cfg)"
    "yget Y node ''grpc_server'' = Some gn"
    "load_grpc_server Y gn (grpc_server_cfg zero_server_config) = Some (grpc_server_cfg cfg)"
    "yget Y node ''scheduler'' = Some sn"
    "load_scheduler Y sn (scheduler_cfg zero_server_config) = Some (scheduler_cfg cfg)"
  using assms by (auto simp: LoadServerConfig_def split: Option.bind_splits)

lemma load_scheduler_Some:
  assumes "load_scheduler Y node cfg = Some cfg'"
  shows "\<not> ydefined Y node \<Longrightarrow> cfg' = cfg"
    and "ydefined Y node \<Longrightarrow> \<exists>qn. yget Y node ''max_queue_size'' = Some qn \<and>
           max_queue_size cfg' = as_or (as_int Y qn) DEFAULT_SCHEDUELR_QUEUE_SIZE"
  using assms by (auto simp: load_scheduler_def split: if_splits Option.bind_splits)

text \<open>
  The refresh interval of a loaded configuration: at least the minimum whenever the
  automatic refresh is on, so the update loop never spins.
\<close>

lemma loaded_interval_aux:
  assumes "LoadServerConfig Y f = Some cfg" "auto_update (model_control_cfg cfg)"
  shows "sint MIN_MODEL_REFRESH_INTERVAL \<le> sint (update_interval (model_control_cfg cfg))"
proof -
  from LoadServerConfig_Some [OF assms(1)] obtain mn where
    mn: "load_model_control Y mn (model_control_cfg zero_server_config) = Some (model_control_cfg cfg)"
    by metis
  have "ydefined Y mn"
    using load_model_control_Some(2) [OF mn] assms(2) by (fastforce simp: zero_server_config_def)
  then show ?thesis
    using load_model_control_Some(1) [OF mn] assms(2) by (simp add: MIN_MODEL_REFRESH_INTERVAL_def)
qed

end
