(* ===== verification/Repository_Update.thy ===== *)
theory Repository_Update
  imports Server_System Service_Config
begin

text \<open>
  What a pass of the update thread does to a server with calls in progress. The manager
  deletes the old backend right after the scheduler got the new inference function, and
  does not wait for runners that are inside the old one; the number of runners stays.
\<close>

section \<open>Ownership while serving\<close>

lemma put_sched_wf:
  assumes wf: "manager_wf mm" and find: "um_find (mm_model_map mm) n = Some ctx"
    and s: "sc_running s" "sc_infer_func s = sc_infer_func (rc_scheduler ctx)"
  shows "manager_wf (put_sched n ctx s mm)"
proof -
  obtain xs ys where m: "mm_model_map mm = xs @ (n, ctx) # ys"
    "n \<notin> set (um_keys xs)" "n \<notin> set (um_keys ys)"
    using um_split [OF find manager_wfD(1) [OF wf]] by metis
  have "context_ok (mm_heap mm) (n, ctx\<lparr>rc_scheduler := s\<rparr>)"
    using manager_wfD(2) [OF wf, of "(n, ctx)"] m(1) s by (simp add: context_ok_def Let_def)
  then show ?thesis
    using wf unfolding put_sched_split [OF m] manager_wf_def m(1) by (auto simp: um_wf_def)
qed

lemma Run_fields:
  "mb_name (snd (ModelBackend_Run run idx ps b)) = mb_name b"
  "mb_version (snd (ModelBackend_Run run idx ps b)) = mb_version b"
  by (simp_all add: ModelBackend_Run_def Let_def)

lemma backend_call_wf:
  assumes wf: "manager_wf mm" and call: "backend_call idx p a mm = Returns (st, mm')"
  shows "manager_wf mm'"
proof -
  obtain b b' where b: "mm_heap mm a = Some b" "mm' = mm\<lparr>mm_heap := (mm_heap mm)(a := Some b')\<rparr>"
    "mb_name b' = mb_name b" "mb_version b' = mb_version b"
    using call Run_fields [of DemoContext_Run idx "[p]"]
    by (auto simp: backend_call_def split: option.splits prod.splits run_outcome.splits)
      (metis snd_conv)
  have "context_ok ((mm_heap mm)(a := Some b')) e" if "context_ok (mm_heap mm) e" for e :: "string \<times> 'a run_context"
    using that b by (auto simp: context_ok_def Let_def split: prod.splits)
  moreover have "dom ((mm_heap mm)(a := Some b')) = dom (mm_heap mm)"
    using b(1) by auto
  ultimately show ?thesis
    using wf unfolding manager_wf_def b(2) by simp
qed

lemma InferAsync_wf:
  assumes "manager_wf mm" "InferAsync p mm = Some (st, mm')"
  shows "manager_wf mm'"
proof (cases "um_find (mm_model_map mm) (pl_model_name p)")
  case None
  then show ?thesis
    using assms by (simp add: InferAsync_def)
next
  case (Some ctx)
  then have "(pl_model_name p, ctx) \<in> set (mm_model_map mm)"
    using manager_wfD(1) [OF assms(1)] um_find_set by metis
  then have run: "sc_running (rc_scheduler ctx)"
    using manager_wfD(2) [OF assms(1)] by (fastforce simp: context_ok_def Let_def)
  obtain q where "mm' = put_sched (pl_model_name p) ctx ((rc_scheduler ctx)\<lparr>sc_queue := q\<rparr>) mm"
    using assms(2) Some run by (auto simp: InferAsync_def Enqueue_Some put_sched_def split: option.splits)
  then show ?thesis
    using put_sched_wf [OF assms(1) Some] run by simp
qed

text \<open>What a step of the server does to the manager: nothing, a submission, or a runner.\<close>

lemma server_step_manager:
  assumes "server_step (mm, h) (mm', h')" "handler_ok h"
  obtains (same) "mm' = mm"
  | (submit) p st where "InferAsync p mm = Some (st, mm')"
  | (run) n i where "model_runner n i (mm, h) = Returns (mm', h')"
  using assms(1)
proof cases
  case (runner n i)
  then show ?thesis
    by (rule run)
next
  case rpc
  then show ?thesis
    using assms(2) by (rule rpc_effect) (auto intro: same submit)
qed

lemma model_runner_wf:
  assumes wf: "manager_wf mm" and run: "model_runner n i (mm, h) = Returns (mm', h')"
  shows "manager_wf mm'"
proof -
  obtain ctx idx pc where c: "um_find (mm_model_map mm) n = Some ctx"
    "i < length (sc_threads (rc_scheduler ctx))" "sc_threads (rc_scheduler ctx) ! i = (idx, pc)"
    using run by (auto simp: model_runner_def not_le split: option.splits if_splits prod.splits)
  have "\<exists>st mm1. manager_wf mm1 \<and> mm_model_map mm1 = mm_model_map mm \<and>
      advance n ctx i st (mm1, h) = Returns (mm', h')"
  proof (cases "\<exists>p a. pc = In_Call p a")
    case True
    then obtain p a where pc: "pc = In_Call p a"
      by blast
    then obtain st mm1 where call: "backend_call idx p a mm = Returns (st, mm1)"
      "advance n ctx i st (mm1, h) = Returns (mm', h')"
      using run c by (auto simp: model_runner_def split: call_result.splits)
    then show ?thesis
      using backend_call_wf [OF wf call(1)] backend_call_map [OF call(1)] by blast
  next
    case False
    then have "advance n ctx i Success (mm, h) = Returns (mm', h')"
      using run c by (cases pc) (auto simp: model_runner_def)
    then show ?thesis
      using wf by blast
  qed
  then obtain st mm1 where "manager_wf mm1" "mm_model_map mm1 = mm_model_map mm"
    "advance n ctx i st (mm1, h) = Returns (mm', h')"
    by blast
  moreover from this(3) obtain s' out where "runner_step st i (rc_scheduler ctx) = Some (s', out)"
    "mm' = put_sched n ctx s' mm1"
    by (rule advance_Returns)
  moreover have "sc_running (rc_scheduler ctx)"
    using c(1) manager_wfD(1,2) [OF wf] um_find_set by (fastforce simp: context_ok_def Let_def)
  ultimately show ?thesis
    using put_sched_wf [of mm1 n ctx s'] c(1) runner_step_frame(1,5) by metis
qed

lemma server_reachable_wf: "server_reachable B parse cfg sh \<Longrightarrow> manager_wf (fst sh)"
proof (induction rule: server_reachable.induct)
  case (start mm)
  then show ?case
    using ModelManager_idle by (auto simp: idle_manager_def)
next
  case (step sh sh')
  obtain mm h mm' h' where sh: "sh = (mm, h)" "sh' = (mm', h')"
    by (cases sh; cases sh')
  from server_step_manager [OF step.hyps(2) [unfolded sh] server_reachable_handler [OF step.hyps(1) [unfolded sh]]]
  show ?case
    by cases (use step.IH InferAsync_wf model_runner_wf in \<open>auto simp: sh\<close>)
qed

section \<open>The state after an update\<close>

lemma update_model_served:
  assumes wf: "manager_wf mm" and find: "um_find (mm_model_map mm) n = Some ctx"
    and load: "loadable B parse (mm_server_cfg mm) n"
  obtains b bi where
    "read_config B parse (mm_server_cfg mm) n = Some (bi_model_config bi)"
    "length (mb_contexts b) =
       sum_list (map (\<lambda>g. nat (sint (grp_count g))) (mc_instance_group (bi_model_config bi)))"
    "mm_heap (update_model B parse (n, v) mm) =
       (mm_heap mm)(mm_next mm := Some b, bi_backend (rc_backend_info ctx) := None)"
    "bi_backend (rc_backend_info ctx) \<noteq> mm_next mm"
    "um_find (mm_model_map (update_model B parse (n, v) mm)) n =
       Some \<lparr>rc_scheduler = (rc_scheduler ctx)\<lparr>sc_infer_func := mm_next mm\<rparr>, rc_backend_info = bi\<rparr>"
proof (cases rule: LoadModel_cases [of B parse n v mm])
  case refused
  then show ?thesis
    using load by blast
next
  case (loaded bi b)
  have "(n, ctx) \<in> set (mm_model_map mm)"
    using find manager_wfD(1) [OF wf] um_find_set by metis
  from manager_wfD(6) [OF wf owned_memI [OF this]] have "bi_backend (rc_backend_info ctx) \<noteq> mm_next mm"
    by simp
  then show ?thesis
    using loaded find manager_wfD(1) [OF wf]
    by (intro that [of bi b])
      (simp_all add: update_model_def free_info_def Let_def UpdateBackendInferFunc_def)
qed

text \<open>A runner inside the old backend dereferences a freed pointer.\<close>

lemma update_frees_running_backend:
  assumes "manager_wf mm" "um_find (mm_model_map mm) n = Some ctx"
    "loadable B parse (mm_server_cfg mm) n" "i < length (sc_threads (rc_scheduler ctx))"
    "snd (sc_threads (rc_scheduler ctx) ! i) = In_Call p (bi_backend (rc_backend_info ctx))"
  shows "model_runner n i (update_model B parse (n, v) mm, h) = Dangling"
proof -
  obtain idx where t: "sc_threads (rc_scheduler ctx) ! i = (idx, In_Call p (bi_backend (rc_backend_info ctx)))"
    using assms(5) by (cases "sc_threads (rc_scheduler ctx) ! i") simp
  from update_model_served [OF assms(1-3), of v] obtain bi where
    "mm_heap (update_model B parse (n, v) mm) (bi_backend (rc_backend_info ctx)) = None"
    "um_find (mm_model_map (update_model B parse (n, v) mm)) n =
       Some \<lparr>rc_scheduler = (rc_scheduler ctx)\<lparr>sc_infer_func := mm_next mm\<rparr>, rc_backend_info = bi\<rparr>"
    by (metis fun_upd_same)
  then show ?thesis
    using assms(4) t by (simp add: model_runner_def backend_call_def)
qed

text \<open>
  A runner whose index is the number of contexts of the new backend: its next call gets
  through the index test and reads past the vector.
\<close>

lemma update_fewer_instances:
  assumes "manager_wf mm" "um_find (mm_model_map mm) n = Some ctx"
    "loadable B parse (mm_server_cfg mm) n" "i < length (sc_threads (rc_scheduler ctx))"
    "sc_threads (rc_scheduler ctx) ! i = (idx, Copied p f)"
    "read_config B parse (mm_server_cfg mm) n = Some config"
    "0 \<le> sint idx"
    "nat (sint idx) = sum_list (map (\<lambda>g. nat (sint (grp_count g))) (mc_instance_group config))"
  shows "\<exists>sh. model_runner n i (update_model B parse (n, v) mm, h) = Returns sh \<and>
     model_runner n i sh = Dangling"
proof -
  let ?mm = "update_model B parse (n, v) mm"
  obtain b bi where b0: "read_config B parse (mm_server_cfg mm) n = Some (bi_model_config bi)"
    "length (mb_contexts b) =
       sum_list (map (\<lambda>g. nat (sint (grp_count g))) (mc_instance_group (bi_model_config bi)))"
    and b: "mm_heap ?mm = (mm_heap mm)(mm_next mm := Some b, bi_backend (rc_backend_info ctx) := None)"
    "bi_backend (rc_backend_info ctx) \<noteq> mm_next mm"
    "um_find (mm_model_map ?mm) n =
       Some \<lparr>rc_scheduler = (rc_scheduler ctx)\<lparr>sc_infer_func := mm_next mm\<rparr>, rc_backend_info = bi\<rparr>"
    by (rule update_model_served [OF assms(1-3), of v])
  have len: "length (mb_contexts b) = nat (sint idx)"
    using b0 assms(6,8) by simp
  define ctx' where "ctx' = \<lparr>rc_scheduler = (rc_scheduler ctx)\<lparr>sc_infer_func := mm_next mm\<rparr>, rc_backend_info = bi\<rparr>"
  define s' where "s' = set_runner i (In_Call p (mm_next mm)) (rc_scheduler ctx')"
  define mm1 where "mm1 = put_sched n ctx' s' ?mm"
  have wf: "um_wf (mm_model_map ?mm)"
    using update_model_wf [OF assms(1)] manager_wfD(1) by blast
  have first: "model_runner n i (?mm, h) = Returns (mm1, h)"
    using b(3) assms(4,5)
    by (simp add: model_runner_def advance_def runner_step_def ctx'_def s'_def mm1_def)
  have "um_find (mm_model_map mm1) n = Some (ctx'\<lparr>rc_scheduler := s'\<rparr>)" "mm_heap mm1 = mm_heap ?mm"
    using wf by (simp_all add: mm1_def put_sched_def)
  then have "model_runner n i (mm1, h) = Dangling"
    using b len assms(4,5,7)
    by (simp add: model_runner_def s'_def ctx'_def backend_call_def ModelBackend_Run_def Let_def)
  then show ?thesis
    using first by blast
qed

text \<open>In a server that was started on a repository, every call in progress is such a call.\<close>

lemma reachable_call_owned:
  assumes "server_reachable B parse cfg (mm, h)" "um_find (mm_model_map mm) n = Some ctx"
    "t \<in> set (sc_threads (rc_scheduler ctx))" "snd t = In_Call p a \<or> snd t = Copied p a"
  shows "a = bi_backend (rc_backend_info ctx)"
proof -
  note ok = server_reachable_ok [OF assms(1), unfolded server_ok_def Let_def prod.case]
  have "(n, ctx) \<in> set (mm_model_map mm)"
    using assms(2) ok um_find_set by metis
  then have "serving (contexts_at mm) ctx"
    using ok by force
  then have "pc_bound (bi_backend (rc_backend_info ctx)) (snd t)"
    using assms(3) by (simp add: serving_def Let_def)
  then show ?thesis
    using assms(4) by auto
qed

section \<open>Deletion and shutdown\<close>

text \<open>
  A deleted model's backend is freed before its scheduler is stopped: a runner that is in
  a call then, or gets a payload while the scheduler drains, uses a freed pointer.
\<close>

lemma delete_frees_backend:
  assumes "um_find (mm_model_map mm) n = Some ctx"
  shows "backend_call idx p (bi_backend (rc_backend_info ctx)) (delete_model n mm) = Dangling"
  using assms by (simp add: delete_model_def free_info_def backend_call_def)

text \<open>
  When gRPC has shut the queue of the infer handler, every call has been answered, so no
  payload is left: the queues are empty and the runners wait.
\<close>

lemma calls_over_no_work:
  assumes "server_reachable B parse cfg (mm, h)" "cq_shut h"
  shows "map_work (mm_model_map mm) = {#}"
proof -
  note ok = server_reachable_ok [OF assms(1), unfolded server_ok_def Let_def prod.case]
  have "step_of h t \<noteq> Some PROCESS" for t
    using ok assms(2) by (simp add: handler_ok_def shutdown_ok_def)
  then have "count (image_mset payload_tag (map_work (mm_model_map mm))) t = 0" for t
    using ok by simp
  then have "image_mset payload_tag (map_work (mm_model_map mm)) = {#}"
    by (metis multiset_eqI zero_multiset.rep_eq count_empty)
  then show ?thesis
    by simp
qed

lemma handled_empty_pc:
  assumes "handled s = {#}" "t \<in> set (sc_threads s)" "snd t \<noteq> Exited"
  shows "snd t = At_Test \<or> snd t = In_Pop"
proof (rule ccontr)
  assume "\<not> ?thesis"
  then obtain p where "in_flight (snd t) = Some p"
    using assms(3) by (cases "snd t") auto
  then have "p \<in># handled s"
    unfolding handled_def using assms(2) by (intro somes_mem) auto
  then show False
    using assms(1) by simp
qed

lemma stop_runners_idle:
  assumes "server_reachable B parse cfg (mm, h)" "cq_shut h" "(n, ctx) \<in> set (mm_model_map mm)"
  shows "bq_buffer (sc_queue (rc_scheduler ctx)) = []"
    "t \<in> set (sc_threads (rc_scheduler ctx)) \<Longrightarrow> snd t = At_Test \<or> snd t = In_Pop"
proof -
  note ok = server_reachable_ok [OF assms(1), unfolded server_ok_def Let_def prod.case]
  have "sched_work (rc_scheduler ctx) \<subseteq># map_work (mm_model_map mm)"
    using split_list [OF assms(3)] by auto
  then have work: "sched_work (rc_scheduler ctx) = {#}"
    using calls_over_no_work [OF assms(1,2)] by simp
  then show "bq_buffer (sc_queue (rc_scheduler ctx)) = []"
    by (simp add: sched_work_def)
  assume t: "t \<in> set (sc_threads (rc_scheduler ctx))"
  have "serving (contexts_at mm) ctx"
    using ok assms(3) by force
  then have "pc_bound (bi_backend (rc_backend_info ctx)) (snd t)"
    using t by (simp add: serving_def Let_def)
  then show "snd t = At_Test \<or> snd t = In_Pop"
    using handled_empty_pc [OF _ t] work by (cases "snd t") (auto simp: sched_work_def)
qed

section \<open>The size of the queues\<close>

definition queues_sized :: "size_t \<Rightarrow> 'p manager \<Rightarrow> bool" where
  "queues_sized c mm \<longleftrightarrow>
     (\<forall>e \<in> set (mm_model_map mm). bq_capacity (sc_queue (rc_scheduler (snd e))) = c)"

lemma add_model_sized:
  assumes "queues_sized c mm" "c = scast (max_queue_size (scheduler_cfg (mm_server_cfg mm)))"
  shows "queues_sized c (add_model B parse (name, v) mm)"
proof (cases rule: LoadModel_cases [of B parse name v mm])
  case refused
  then show ?thesis
    using assms by (simp add: add_model_def)
next
  case (loaded bi b)
  then show ?thesis
    using assms
    by (cases "um_find (mm_model_map mm) name")
      (auto simp: add_model_def free_info_def queues_sized_def um_insert_def new_run_context_def
        Start_def SimpleScheduler_def BlockingQueue_def)
qed

lemma fold_add_sized:
  "queues_sized c mm \<Longrightarrow> c = scast (max_queue_size (scheduler_cfg (mm_server_cfg mm))) \<Longrightarrow>
   queues_sized c (fold (add_model B parse) infos mm)"
proof (induction infos arbitrary: mm)
  case (Cons a infos)
  then show ?case
    using Cons.IH [of "add_model B parse a mm"] add_model_sized [of c mm B parse "fst a" "snd a"]
    by simp
qed simp

lemma ModelManager_sized:
  assumes "ModelManager B parse cfg = Inr mm"
  shows "queues_sized (scast (max_queue_size (scheduler_cfg cfg))) mm"
proof -
  let ?mm0 = "(new_manager cfg)\<lparr>mm_running := True\<rparr> :: 'a manager"
  obtain mm1 where mm1: "LoadModels B parse ?mm0 = Inr mm1" "mm_model_map mm = mm_model_map mm1"
    using assms
    by (auto simp: ModelManager_def ModelManager_Start_def new_manager_def map_sum_def
        split: sum.splits if_splits)
  from LoadModels_listed [OF mm1(1)] obtain names where
    "mm1 = fold delete_model (filter (\<lambda>n. n \<notin> set names) (um_keys (mm_model_map ?mm0)))
       (fold (update_model B parse) (scan_updated B parse (mm_server_cfg ?mm0) (mm_model_map ?mm0) names)
         (fold (add_model B parse) (scan_added B parse (mm_server_cfg ?mm0) (mm_model_map ?mm0) names) ?mm0))"
    by metis
  then have "mm1 = fold (add_model B parse) (scan_added B parse cfg (mm_model_map ?mm0) names) ?mm0"
    by (simp add: new_manager_def scan_updated_empty um_keys_def)
  moreover have "queues_sized (scast (max_queue_size (scheduler_cfg cfg))) ?mm0"
    by (simp add: queues_sized_def new_manager_def)
  ultimately show ?thesis
    using fold_add_sized [of _ ?mm0] mm1(2) by (simp add: new_manager_def queues_sized_def)
qed

lemma set_um_assign: "e \<in> set (um_assign k v m) \<Longrightarrow> e = (k, v) \<or> e \<in> set m"
  by (auto simp: um_assign_def split: option.splits if_splits prod.splits)

lemma put_sched_sized:
  assumes "queues_sized c mm" "bq_capacity (sc_queue s) = c"
  shows "queues_sized c (put_sched n ctx s mm)"
  using assms unfolding queues_sized_def put_sched_def
  by (auto dest: set_um_assign)

lemma found_sized:
  "queues_sized c mm \<Longrightarrow> um_find (mm_model_map mm) n = Some ctx \<Longrightarrow>
   bq_capacity (sc_queue (rc_scheduler ctx)) = c"
  by (force simp: queues_sized_def um_find_def dest: map_of_SomeD)

lemma InferAsync_sized:
  assumes "queues_sized c mm" "InferAsync p mm = Some (st, mm')"
  shows "queues_sized c mm'"
proof (cases "um_find (mm_model_map mm) (pl_model_name p)")
  case None
  then show ?thesis
    using assms by (simp add: InferAsync_def)
next
  case (Some ctx)
  then obtain s' where s': "Enqueue p (rc_scheduler ctx) = Some (st, s')"
    "mm' = put_sched (pl_model_name p) ctx s' mm"
    using assms(2) by (auto simp: InferAsync_def put_sched_def split: option.splits)
  have "bq_capacity (sc_queue s') = bq_capacity (sc_queue (rc_scheduler ctx))"
    using s'(1) by (auto simp: Enqueue_def push_def split: if_splits option.splits)
  then show ?thesis
    using put_sched_sized [OF assms(1)] found_sized [OF assms(1) Some] s'(2) by simp
qed

lemma model_runner_sized:
  assumes sz: "queues_sized c mm" and run: "model_runner n i (mm, h) = Returns (mm', h')"
  shows "queues_sized c mm'"
proof -
  from run obtain ctx st s' out mm1 where r: "um_find (mm_model_map mm) n = Some ctx"
    "i < length (sc_threads (rc_scheduler ctx))" "mm_model_map mm1 = mm_model_map mm"
    "runner_step st i (rc_scheduler ctx) = Some (s', out)" "mm' = put_sched n ctx s' mm1"
    by (rule model_runner_Returns)
  have "queues_sized c mm1"
    using sz r(3) by (simp add: queues_sized_def)
  then show ?thesis
    using put_sched_sized found_sized [OF sz r(1)] runner_step_frame(3) [OF r(4)] r(5) by simp
qed

lemma server_reachable_sized:
  "server_reachable B parse cfg sh \<Longrightarrow>
   queues_sized (scast (max_queue_size (scheduler_cfg cfg))) (fst sh)"
proof (induction rule: server_reachable.induct)
  case (start mm)
  then show ?case
    by (simp add: ModelManager_sized)
next
  case (step sh sh')
  obtain mm h mm' h' where sh: "sh = (mm, h)" "sh' = (mm', h')"
    by (cases sh; cases sh')
  from server_step_manager [OF step.hyps(2) [unfolded sh] server_reachable_handler [OF step.hyps(1) [unfolded sh]]]
  show ?case
    by cases (use step.IH InferAsync_sized model_runner_sized in \<open>auto simp: sh\<close>)
qed

text \<open>With a queue of size 0 the event loop blocks at the first call for a served model.\<close>

lemma InferAsync_zero:
  assumes "serving (contexts_at mm) ctx" "bq_capacity (sc_queue (rc_scheduler ctx)) = 0"
    "um_find (mm_model_map mm) (pl_model_name p) = Some ctx"
  shows "InferAsync p mm = None"
  using assms push_capacity_zero [of "sc_queue (rc_scheduler ctx)" p]
  by (simp add: InferAsync_def Enqueue_def serving_def Let_def)

lemma zero_queue_blocks:
  assumes "server_reachable B parse cfg (mm, h)" "max_queue_size (scheduler_cfg cfg) = 0"
    "cq_events h = (t, True) # es" "h_states h t = Some st" "hs_step st = START"
    "irq_model_name (hs_request st) \<in> set (um_keys (mm_model_map mm))"
  shows "Process Infer_TakeAction t True (mm, h\<lparr>cq_events := es\<rparr>) = Blocks"
proof -
  note ok = server_reachable_ok [OF assms(1), unfolded server_ok_def Let_def prod.case]
  obtain ctx where ctx: "um_find (mm_model_map mm) (irq_model_name (hs_request st)) = Some ctx"
    using assms(6) um_find_None by fastforce
  have "(irq_model_name (hs_request st), ctx) \<in> set (mm_model_map mm)"
    using ctx ok um_find_set by metis
  then have sv: "serving (contexts_at mm) ctx"
    using ok by force
  have cap: "bq_capacity (sc_queue (rc_scheduler ctx)) = 0"
    using found_sized [OF _ ctx] server_reachable_sized [OF assms(1)] assms(2) by fastforce
  let ?h = "set_step t PROCESS (StartNewRequest (set_step t START (h\<lparr>cq_events := es\<rparr>)))"
  have "t < h_next h"
    using tags_live(2) [of h t] ok assms(3) by (simp add: cq_tags_def)
  then have hs: "h_states ?h t = Some (st\<lparr>hs_step := PROCESS\<rparr>)"
    using assms(4)
    by (simp add: set_step_def upd_state_def StartNewRequest_def StateNew_def Let_def)
  obtain c where "GrpcInferRequestContext (hs_request st) (hs_response st) t = Inr c"
    "pl_model_name (ctx_payload c) = irq_model_name (hs_request st)"
    using GrpcInferRequestContext_Inr [of "hs_request st" "hs_response st" t] by metis
  then have "Infer_TakeAction t (mm, ?h) = Blocks"
    using hs InferAsync_zero [OF sv cap] ctx
    by (simp add: Infer_TakeAction_def InferenceCore_InferAsync_def)
  then show ?thesis
    using assms(4,5) by (simp add: Process_def Let_def)
qed

end
