(* ===== verification/Main_Process.thy ===== *)
theory Main_Process
  imports Inference_Core Service_Config
begin

text \<open>
  \<open>src/core/main.cc\<close>: start-up, the signal handler, and the wait of the main thread. The
  handler runs between any two steps of the main thread, on the main thread or on another
  one; \<open>exit_mu_\<close> is held while main is between the lock and the wait.
\<close>

section \<open>Start-up\<close>

text \<open>A configuration file that cannot be read throws; no exception is caught.\<close>

definition main_start ::
  "'n yaml_api \<Rightarrow> boost_fs \<Rightarrow> (string \<Rightarrow> model_config option) \<Rightarrow> (string \<Rightarrow> bool) \<Rightarrow> string \<Rightarrow>
   exn + (int + inference_core)" where
  "main_start Y B parse bind_port config_file =
     (case LoadServerConfig Y config_file of
        None \<Rightarrow> Inl Yaml_error
      | Some cfg \<Rightarrow>
          (case InferenceCore B parse (Some cfg) of
             Inl e \<Rightarrow> Inl e
           | Inr core \<Rightarrow>
               (case InferenceCore_Start bind_port core of
                  Inl e \<Rightarrow> Inl e
                | Inr (st, core') \<Rightarrow> if st \<noteq> Success then Inr (Inl (-1)) else Inr (Inr core'))))"

section \<open>The signal handler\<close>

datatype os_signal = SIGTERM | SIGINT | SIGPIPE

definition exit_kind :: "os_signal \<Rightarrow> exit_signal" where
  "exit_kind signum = (if signum = SIGTERM then GraceExit else ImmediateExit)"

text \<open>
  The new value of \<open>exiting_\<close>, and whether the handler reached \<open>notify_all\<close>. \<open>SIGPIPE\<close> has a
  handler that only logs.
\<close>

definition signalHandler :: "os_signal \<Rightarrow> exit_signal \<Rightarrow> exit_signal \<times> bool" where
  "signalHandler signum exiting =
     (if exiting \<noteq> NoSignal then (exiting, False) else (exit_kind signum, True))"

definition handle_signal :: "os_signal \<Rightarrow> exit_signal \<Rightarrow> exit_signal \<times> bool" where
  "handle_signal signum exiting =
     (if signum = SIGPIPE then (exiting, False) else signalHandler signum exiting)"

section \<open>The main thread\<close>

text \<open>
  Where main is: starting the service; at the loop test; after a test that saw no signal,
  before the lock; with the mutex, before the wait;
  waiting; with the mutex again, after the wait; out of the loop; in the sleep of a
  graceful exit; stopping the service; returned. \<open>Stuck\<close> is the handler, on the main
  thread, locking the mutex that thread holds.
\<close>

datatype main_pc =
    Start_Up | Loop_Test | Tested | Holds_Mutex | Waits | Woken | Left_Loop | Sleeps | Stops
  | Ended int | Stuck

record main_state =
  ms_exiting :: exit_signal
  ms_pc :: main_pc

definition main_init :: main_state where
  "main_init = \<lparr>ms_exiting = NoSignal, ms_pc = Start_Up\<rparr>"

text \<open>
  \<open>Move st\<close> is the next statement of main, \<open>st\<close> what the call it makes returns; a wait
  ends by a notification, or by \<open>Timeout\<close> (also a spurious one). \<open>Signal signum on_main\<close>:
  while main holds the mutex, a handler on another thread waits for it.
\<close>

datatype main_event = Move status | Timeout | Signal os_signal bool

fun main_move :: "status \<Rightarrow> main_state \<Rightarrow> main_state option" where
  "main_move st ms =
     (case ms_pc ms of
        Start_Up \<Rightarrow>
          Some (if st \<noteq> Success then ms\<lparr>ms_pc := Ended (-1)\<rparr>
                else ms\<lparr>ms_exiting := NoSignal, ms_pc := Loop_Test\<rparr>)
      | Loop_Test \<Rightarrow> Some (ms\<lparr>ms_pc := if ms_exiting ms = NoSignal then Tested else Left_Loop\<rparr>)
      | Tested \<Rightarrow> Some (ms\<lparr>ms_pc := Holds_Mutex\<rparr>)
      | Holds_Mutex \<Rightarrow> Some (ms\<lparr>ms_pc := Waits\<rparr>)
      | Waits \<Rightarrow> None
      | Woken \<Rightarrow> Some (ms\<lparr>ms_pc := Loop_Test\<rparr>)
      | Left_Loop \<Rightarrow> Some (ms\<lparr>ms_pc := if ms_exiting ms = GraceExit then Sleeps else Stops\<rparr>)
      | Sleeps \<Rightarrow> Some (ms\<lparr>ms_pc := Stops\<rparr>)
      | Stops \<Rightarrow> Some (ms\<lparr>ms_pc := Ended (if st \<noteq> Success then -1 else 0)\<rparr>)
      | Ended _ \<Rightarrow> None
      | Stuck \<Rightarrow> None)"

definition deliver :: "os_signal \<Rightarrow> bool \<Rightarrow> main_state \<Rightarrow> main_state option" where
  "deliver signum on_main ms =
     (let (e, notified) = handle_signal signum (ms_exiting ms) in
      if notified \<and> ms_pc ms \<in> {Holds_Mutex, Woken} then
        (if on_main then Some (ms\<lparr>ms_pc := Stuck\<rparr>) else None)
      else if ms_pc ms \<in> {Stuck} \<union> range Ended then None
      else Some (ms\<lparr>ms_exiting := e,
                    ms_pc := if notified \<and> ms_pc ms = Waits then Woken else ms_pc ms\<rparr>))"

definition main_step :: "main_event \<Rightarrow> main_state \<Rightarrow> main_state option" where
  "main_step ev ms =
     (case ev of
        Move st \<Rightarrow> main_move st ms
      | Timeout \<Rightarrow> if ms_pc ms = Waits then Some (ms\<lparr>ms_pc := Woken\<rparr>) else None
      | Signal signum on_main \<Rightarrow> deliver signum on_main ms)"

fun main_run :: "main_event list \<Rightarrow> main_state \<Rightarrow> main_state option" where
  "main_run [] ms = Some ms"
| "main_run (ev # evs) ms =
     (case main_step ev ms of None \<Rightarrow> None | Some ms' \<Rightarrow> main_run evs ms')"

section \<open>The first signal decides\<close>

lemma handle_signal_once: "ex \<noteq> NoSignal \<Longrightarrow> handle_signal signum ex = (ex, False)"
  by (simp add: handle_signal_def signalHandler_def)

lemma exit_kind_not_NoSignal [simp]: "exit_kind signum \<noteq> NoSignal"
  by (simp add: exit_kind_def)

text \<open>
  After any signals, \<open>exiting_\<close> is what the first one that is not \<open>SIGPIPE\<close> asks for.
\<close>

definition first_exit :: "os_signal list \<Rightarrow> exit_signal" where
  "first_exit sigs = (case filter (\<lambda>s. s \<noteq> SIGPIPE) sigs of [] \<Rightarrow> NoSignal | s # _ \<Rightarrow> exit_kind s)"

lemma signals_fold:
  "fold (\<lambda>s ex. fst (handle_signal s ex)) sigs NoSignal = first_exit sigs"
proof (induction sigs)
  case Nil
  then show ?case by (simp add: first_exit_def)
next
  case (Cons s sigs)
  have stay: "ex \<noteq> NoSignal \<Longrightarrow> fold (\<lambda>s ex. fst (handle_signal s ex)) sigs ex = ex" for ex
    by (induction sigs) (simp_all add: handle_signal_once)
  show ?case
    using Cons stay [of "exit_kind s"]
    by (simp add: first_exit_def handle_signal_def signalHandler_def)
qed

section \<open>What main does about it\<close>

text \<open>
  Out of the loop there was a signal; the long sleep is only for a graceful exit; and the
  signal cannot change any more.
\<close>

definition main_ok :: "main_state \<Rightarrow> bool" where
  "main_ok ms \<longleftrightarrow>
     (ms_pc ms \<in> {Left_Loop, Stops} \<longrightarrow> ms_exiting ms \<noteq> NoSignal) \<and>
     (ms_pc ms = Sleeps \<longrightarrow> ms_exiting ms = GraceExit) \<and>
     (ms_pc ms = Ended 0 \<longrightarrow> ms_exiting ms \<noteq> NoSignal)"

lemma deliver_Some:
  assumes "deliver signum on_main ms = Some ms'"
  shows "ms_exiting ms \<noteq> NoSignal \<Longrightarrow> ms' = ms"
    and "ms_pc ms' = ms_pc ms \<or> ms_pc ms' = Stuck \<or> (ms_pc ms = Waits \<and> ms_pc ms' = Woken)"
  using assms handle_signal_once [of "ms_exiting ms" signum]
  by (auto simp: deliver_def Let_def split: if_splits prod.splits)

lemma main_step_ok:
  assumes "main_ok ms" "main_step ev ms = Some ms'"
  shows "main_ok ms'"
proof (cases ev)
  case (Move st)
  then show ?thesis
    using assms by (auto simp: main_step_def main_ok_def split: main_pc.splits if_splits)
next
  case Timeout
  then show ?thesis
    using assms by (auto simp: main_step_def main_ok_def split: if_splits)
next
  case (Signal signum on_main)
  then have d: "deliver signum on_main ms = Some ms'"
    using assms(2) by (simp add: main_step_def)
  show ?thesis
  proof (cases "ms_exiting ms = NoSignal")
    case False
    then show ?thesis
      using deliver_Some(1) [OF d] assms(1) by simp
  next
    case True
    then show ?thesis
      using deliver_Some(2) [OF d] assms(1) by (auto simp: main_ok_def)
  qed
qed

lemma main_run_ok: "main_ok ms \<Longrightarrow> main_run evs ms = Some ms' \<Longrightarrow> main_ok ms'"
  by (induction evs arbitrary: ms) (auto intro: main_step_ok split: option.splits)

lemma main_init_ok: "main_ok main_init"
  by (simp add: main_ok_def main_init_def)

text \<open>
  Once the loop is entered a signal is never lost: it stays until main has returned, and
  at most one more timeout of the wait brings main out of the loop.
\<close>

definition moves_left :: "main_state \<Rightarrow> nat" where
  "moves_left ms = (case ms_pc ms of
     Tested \<Rightarrow> 8 | Holds_Mutex \<Rightarrow> 7 | Waits \<Rightarrow> 6 | Woken \<Rightarrow> 5 | Loop_Test \<Rightarrow> 4 | Left_Loop \<Rightarrow> 3 | Sleeps \<Rightarrow> 2
   | Stops \<Rightarrow> 1 | _ \<Rightarrow> 0)"

lemma main_step_signalled:
  assumes "ms_exiting ms \<noteq> NoSignal" "ms_pc ms \<notin> {Start_Up, Stuck} \<union> range Ended"
  shows "\<exists>ev ms'. ev \<in> {Move Success, Timeout} \<and> main_step ev ms = Some ms' \<and>
     ms_exiting ms' = ms_exiting ms \<and> moves_left ms' < moves_left ms \<and>
     ms_pc ms' \<notin> {Start_Up, Stuck} \<and> (ms_pc ms' \<in> range Ended \<longrightarrow> ms_pc ms' = Ended 0)"
proof (cases "ms_pc ms = Waits")
  case True
  then show ?thesis
    by (intro exI [of _ Timeout]) (auto simp: main_step_def moves_left_def)
next
  case False
  then show ?thesis
    using assms
    by (intro exI [of _ "Move Success"]) (cases "ms_pc ms"; auto simp: main_step_def moves_left_def)
qed

lemma main_exits:
  assumes "ms_exiting ms \<noteq> NoSignal" "ms_pc ms \<notin> {Start_Up, Stuck} \<union> range Ended"
  shows "\<exists>evs ms'. set evs \<subseteq> {Move Success, Timeout} \<and> length evs \<le> 8 \<and>
     main_run evs ms = Some ms' \<and> ms_pc ms' = Ended 0"
proof -
  have "\<exists>evs ms'. set evs \<subseteq> {Move Success, Timeout} \<and> length evs \<le> moves_left ms \<and>
     main_run evs ms = Some ms' \<and> ms_pc ms' = Ended 0"
    using assms
  proof (induction "moves_left ms" arbitrary: ms rule: less_induct)
    case less
    from main_step_signalled [OF less.prems] obtain ev ms1 where
      s: "ev \<in> {Move Success, Timeout}" "main_step ev ms = Some ms1"
      "ms_exiting ms1 = ms_exiting ms" "moves_left ms1 < moves_left ms"
      "ms_pc ms1 \<notin> {Start_Up, Stuck}" "ms_pc ms1 \<in> range Ended \<longrightarrow> ms_pc ms1 = Ended 0"
      by blast
    show ?case
    proof (cases "ms_pc ms1 \<in> range Ended")
      case True
      then show ?thesis
        using s by (intro exI [of _ "[ev]"] exI [of _ ms1]) auto
    next
      case False
      then obtain evs ms' where "set evs \<subseteq> {Move Success, Timeout}" "length evs \<le> moves_left ms1"
        "main_run evs ms1 = Some ms'" "ms_pc ms' = Ended 0"
        using less.hyps [OF s(4)] s(3,5) less.prems(1) by auto
      then show ?thesis
        using s by (intro exI [of _ "ev # evs"] exI [of _ ms']) auto
    qed
  qed
  moreover have "moves_left ms \<le> 8"
    by (simp add: moves_left_def split: main_pc.split)
  ultimately show ?thesis
    using order_trans by blast
qed

text \<open>A main thread that waits with a signal already set is not woken by another signal.\<close>

lemma waits_signalled:
  "ms_pc ms = Waits \<Longrightarrow> ms_exiting ms \<noteq> NoSignal \<Longrightarrow> deliver signum on_main ms = Some ms"
  by (cases ms) (simp add: deliver_def handle_signal_once image_iff)

lemma start_up_signals:
  "ms_pc ms = Start_Up \<Longrightarrow>
   \<exists>ms'. main_run (map (\<lambda>(s, m). Signal s m) sigs) ms = Some ms' \<and> ms_pc ms' = Start_Up"
proof (induction sigs arbitrary: ms)
  case (Cons sm sigs)
  obtain s m where sm: "sm = (s, m)"
    by (cases sm)
  obtain ms1 where "deliver s m ms = Some ms1" "ms_pc ms1 = Start_Up"
    using Cons.prems by (cases "handle_signal s (ms_exiting ms)") (auto simp: deliver_def image_iff)
  then show ?case
    using Cons.IH [of ms1] by (simp add: sm main_step_def)
qed simp

lemma main_run_append:
  "main_run (evs @ evs') ms = (case main_run evs ms of None \<Rightarrow> None | Some ms' \<Rightarrow> main_run evs' ms')"
  by (induction evs arbitrary: ms) (simp_all split: option.split)

text \<open>Signals that arrive while the service starts are forgotten.\<close>

lemma start_up_signals_are_forgotten:
  "main_run (map (\<lambda>(s, m). Signal s m) sigs @ [Move Success]) main_init =
     Some \<lparr>ms_exiting = NoSignal, ms_pc = Loop_Test\<rparr>"
proof -
  obtain ms where "main_run (map (\<lambda>(s, m). Signal s m) sigs) main_init = Some ms" "ms_pc ms = Start_Up"
    using start_up_signals [of main_init sigs] by (auto simp: main_init_def)
  then show ?thesis
    by (cases ms) (simp add: main_run_append main_step_def)
qed

text \<open>
  A server that cannot bind its address starts all the same: the result of \<open>BuildAndStart\<close> is
  not tested.
\<close>

lemma start_ignores_bind_failure:
  assumes "main_start Y B parse bind_port f = Inr (Inr core)"
    "\<not> bind_port (grpc_server_addr (grpc_server_cfg (gs_cfg (ic_grpc core))))"
  shows "ic_running core \<and> gs_running (ic_grpc core) \<and> \<not> gs_listening (ic_grpc core) \<and>
    h_thread (gs_infer (ic_grpc core)) = Entering"
  using assms
  by (auto simp: main_start_def InferenceCore_Start_def GrpcServer_Start_def Handler_Start_def
      split: option.splits sum.splits if_splits)

end
