(* ===== verification/Infer_Client.thy ===== *)
theory Infer_Client
  imports Grpc_Context Inference_Core
begin

text \<open>
  \<open>src/clients\<close>: the client side of the protocol. \<open>InferRequestContext\<close> builds a request, sends
  it through \<open>InferRpcClient\<close> and reads the response; the three clients of \<open>example_client.cc\<close>
  make the three calls. The channel is an argument: \<open>stub\<close> for the first, and \<open>rpc\<close> for the
  others, the response of a call, \<open>None\<close> when gRPC reports an error or the deadline passes. A
  pointer argument is the list of bytes readable from it; reading past them is
  \<open>Out_of_bounds\<close>.
\<close>

section \<open>\<open>InferRequestContext\<close>\<close>

record client_context =
  cc_request :: infer_request
  cc_response :: infer_response

definition new_client_context :: client_context where
  "new_client_context = \<lparr>cc_request = empty_infer_request, cc_response = empty_infer_response\<rparr>"

datatype 'a client_result = Result bool 'a | Out_of_bounds

definition add_input ::
  "string \<Rightarrow> bytes \<Rightarrow> u32 \<Rightarrow> u32 list \<Rightarrow> data_type \<Rightarrow> infer_request \<Rightarrow> infer_request" where
  "add_input name raw sz dims dt req =
     req\<lparr>irq_meta_data := (irq_meta_data req)
            \<lparr>rq_batch_size := 1,
             rq_input := rq_input (irq_meta_data req) @
               [\<lparr>in_name = name, in_dims = map ucast dims, in_batch_byte_size = ucast sz,
                 in_data_type = dt\<rparr>]\<rparr>,
         irq_raw_input := irq_raw_input req @ [take (unat sz) raw]\<rparr>"

definition AddInferInput_typed ::
  "string \<Rightarrow> bytes \<Rightarrow> u32 \<Rightarrow> u32 list \<Rightarrow> data_type \<Rightarrow> client_context \<Rightarrow> client_context client_result" where
  "AddInferInput_typed name raw sz dims dt c =
     (if length raw < unat sz then Out_of_bounds
      else Result True (c\<lparr>cc_request := add_input name raw sz dims dt (cc_request c)\<rparr>))"

definition AddInferInput ::
  "string \<Rightarrow> bytes \<Rightarrow> u32 \<Rightarrow> u32 list \<Rightarrow> client_context \<Rightarrow> client_context client_result" where
  "AddInferInput name raw sz dims c = AddInferInput_typed name raw sz dims TYPE_INVALID c"

text \<open>The loop swaps an empty tensor of the request with each of the caller's.\<close>

fun swap_tensors ::
  "nat list \<Rightarrow> tensor_proto list \<Rightarrow> infer_request \<Rightarrow> tensor_proto list \<times> infer_request" where
  "swap_tensors [] tensors req = (tensors, req)"
| "swap_tensors (i # idxs) tensors req =
     swap_tensors idxs (tensors[i := empty_tensor_proto])
       (req\<lparr>irq_tensors := irq_tensors req @ [tensors ! i]\<rparr>)"

definition AddInferInputTensor ::
  "tensor_proto list \<Rightarrow> client_context \<Rightarrow> bool \<times> tensor_proto list \<times> client_context" where
  "AddInferInputTensor tensors c =
     (if tensors = [] then (False, tensors, c)
      else let (tensors', req) = swap_tensors [0..<length tensors] tensors (cc_request c)
           in (True, tensors', c\<lparr>cc_request := req\<rparr>))"

definition default_input_name :: "nat \<Rightarrow> string" where
  "default_input_name i = ''INPUT__'' @ to_string (int i)"

fun add_inputs ::
  "nat list \<Rightarrow> (bytes \<times> u32) list \<Rightarrow> u32 list list \<Rightarrow> string list option \<Rightarrow> client_context \<Rightarrow>
   client_context client_result" where
  "add_inputs [] inputs shapes names c = Result True c"
| "add_inputs (i # idxs) inputs shapes names c =
     (let name = (case names of Some ns \<Rightarrow> ns ! i | None \<Rightarrow> default_input_name i) in
      case AddInferInput name (fst (inputs ! i)) (snd (inputs ! i)) (shapes ! i) c of
        Out_of_bounds \<Rightarrow> Out_of_bounds
      | Result r c' \<Rightarrow> if \<not> r then Result False c' else add_inputs idxs inputs shapes names c')"

definition AddInferInputs ::
  "(bytes \<times> u32) list \<Rightarrow> u32 list list \<Rightarrow> string list option \<Rightarrow> client_context \<Rightarrow>
   client_context client_result" where
  "AddInferInputs inputs shapes names c =
     (if length inputs \<noteq> length shapes \<or>
         (case names of Some ns \<Rightarrow> length ns \<noteq> length inputs | None \<Rightarrow> False)
      then Result False c
      else add_inputs [0..<length inputs] inputs shapes names c)"

definition RequestInferOuput :: "string \<Rightarrow> client_context \<Rightarrow> bool \<times> client_context" where
  "RequestInferOuput name c =
     (let req = cc_request c; h = irq_meta_data req
      in (True, c\<lparr>cc_request := req\<lparr>irq_meta_data := h\<lparr>rq_output := rq_output h @ [name]\<rparr>\<rparr>\<rparr>))"

text \<open>
  \<open>InferRpcClient::MakeInferRequest\<close>. \<open>stub\<close> is the call of the stub: whether its status is ok, and
  what it leaves in the response it was given.
\<close>

definition MakeInferRequest ::
  "(infer_request \<Rightarrow> infer_response \<Rightarrow> bool \<times> infer_response) \<Rightarrow> infer_request \<Rightarrow> infer_response \<Rightarrow>
   bool \<times> infer_response" where
  "MakeInferRequest stub request response =
     (let (status_ok, response') = stub request response
      in if \<not> status_ok then (False, response') else (True, response'))"

text \<open>\<open>next_id\<close> is the function's static counter; the result has the counter after the call.\<close>

definition Infer ::
  "(infer_request \<Rightarrow> infer_response \<Rightarrow> bool \<times> infer_response) \<Rightarrow> string \<Rightarrow> int \<Rightarrow> u64 \<Rightarrow> client_context \<Rightarrow>
   bool \<times> u64 \<times> client_context" where
  "Infer stub name version next_id c =
     (let req = cc_request c;
          req' = req\<lparr>irq_model_name := name, irq_model_version := version,
                     irq_meta_data := (irq_meta_data req)\<lparr>rq_id := next_id\<rparr>\<rparr>;
          (ret, resp) = MakeInferRequest stub req' (cc_response c);
          c' = c\<lparr>cc_request := req', cc_response := resp\<rparr>
      in if \<not> ret then (False, next_id + 1, c')
         else if rst_code (irs_request_status resp) \<noteq> SUCCESS then (False, next_id + 1, c')
         else (True, next_id + 1, c'))"

text \<open>
  The test on the index casts it to \<open>int32_t\<close>; an index that gets through is used as it
  is. The caller's vector of dimensions is extended before the second test.
\<close>

datatype output_result =
    Output bytes u32 "u32 list"
  | No_output "u32 list"
  | Bad_index

definition GetInferOutput :: "u32 \<Rightarrow> u32 list \<Rightarrow> client_context \<Rightarrow> output_result" where
  "GetInferOutput idx dims c =
     (let h = irs_meta_data (cc_response c); raws = irs_raw_output (cc_response c) in
      if int (length (rs_output h)) \<le> sint (ucast idx :: i32) then No_output dims
      else if length (rs_output h) \<le> unat idx then Bad_index
      else let dims' = dims @ map ucast (raw_dims (out_raw (rs_output h ! unat idx))) in
           if length raws \<le> unat idx then No_output dims'
           else Output (raws ! unat idx) (word_of_nat (length (raws ! unat idx))) dims')"

definition GetInferServerName :: "client_context \<Rightarrow> string" where
  "GetInferServerName c = rst_server_id (irs_request_status (cc_response c))"

definition GetInferErrorMessage :: "client_context \<Rightarrow> string" where
  "GetInferErrorMessage c = rst_msg (irs_request_status (cc_response c))"

definition Clear :: "client_context \<Rightarrow> bool \<times> client_context" where
  "Clear c = (True, new_client_context)"

section \<open>The example clients\<close>

definition ModelReady :: "(status_request \<Rightarrow> status_response option) \<Rightarrow> string \<Rightarrow> bool" where
  "ModelReady rpc model_name =
     (case rpc \<lparr>srq_model_name = model_name\<rparr> of
        None \<Rightarrow> False
      | Some resp \<Rightarrow>
          if rst_code (srs_request_status resp) \<noteq> SUCCESS then False
          else if sst_ready_state (srs_server_status resp) \<noteq> SERVER_READY then False
          else True)"

definition MakeHealthRequest :: "(health_request \<Rightarrow> health_response option) \<Rightarrow> string \<Rightarrow> bool" where
  "MakeHealthRequest rpc mode =
     (case rpc \<lparr>hrq_mode = mode\<rparr> of
        None \<Rightarrow> False
      | Some resp \<Rightarrow> if rst_code (hrs_request_status resp) \<noteq> SUCCESS then False else hrs_health resp)"

definition ProbeReadiness :: "(health_request \<Rightarrow> health_response option) \<Rightarrow> bool" where
  "ProbeReadiness rpc = MakeHealthRequest rpc ''ready''"

definition ProbeLiveness :: "(health_request \<Rightarrow> health_response option) \<Rightarrow> bool" where
  "ProbeLiveness rpc = MakeHealthRequest rpc ''live''"

text \<open>
  \<open>InferClient::RequestInference\<close>: the vectors are indexed without a test, so a short one
  is \<open>Out_of_bounds\<close>.
\<close>

definition client_input ::
  "string list \<Rightarrow> (bytes \<times> u32) list \<Rightarrow> u32 list list \<Rightarrow> data_type list \<Rightarrow> nat \<Rightarrow> request_input" where
  "client_input names inputs shapes dtypes i =
     \<lparr>in_name = names ! i, in_dims = map ucast (shapes ! i),
      in_batch_byte_size = ucast (snd (inputs ! i)),
      in_data_type = (if dtypes = [] then TYPE_INVALID else dtypes ! i)\<rparr>"

definition client_request ::
  "string \<Rightarrow> string list \<Rightarrow> (bytes \<times> u32) list \<Rightarrow> u32 list list \<Rightarrow> data_type list \<Rightarrow> u32 \<Rightarrow> u64 \<Rightarrow>
   infer_request" where
  "client_request model_name names inputs shapes dtypes batch_size rid =
     \<lparr>irq_model_name = model_name, irq_model_version = -1,
      irq_meta_data = \<lparr>rq_batch_size = batch_size,
        rq_input = map (client_input names inputs shapes dtypes) [0..<length inputs],
        rq_output = [], rq_id = rid\<rparr>,
      irq_raw_input = map (\<lambda>(raw, sz). take (unat sz) raw) inputs, irq_tensors = []\<rparr>"

definition RequestInference ::
  "(infer_request \<Rightarrow> infer_response option) \<Rightarrow> string \<Rightarrow> string list \<Rightarrow> (bytes \<times> u32) list \<Rightarrow>
   u32 list list \<Rightarrow> data_type list \<Rightarrow> u32 \<Rightarrow> u64 \<Rightarrow> (infer_response option \<times> u64) client_result" where
  "RequestInference rpc model_name names inputs shapes dtypes batch_size rid =
     (if length names < length inputs \<or> length shapes < length inputs \<or>
         (dtypes \<noteq> [] \<and> length dtypes < length inputs) \<or>
         (\<exists>(raw, sz) \<in> set inputs. length raw < unat sz)
      then Out_of_bounds
      else case rpc (client_request model_name names inputs shapes dtypes batch_size rid) of
             None \<Rightarrow> Result False (None, rid + 1)
           | Some resp \<Rightarrow>
               Result (rst_code (irs_request_status resp) = SUCCESS) (Some resp, rid + 1))"

text \<open>
  \<open>main\<close>: the bytes of a vector of \<open>uint32_t\<close> as a little-endian machine has them, the request
  of its inference call, and the three booleans it prints. \<open>None\<close> is an access out of bounds.
\<close>

definition u32_bytes :: "u32 list \<Rightarrow> bytes" where
  "u32_bytes ws =
     concat (map (\<lambda>w. map (\<lambda>k. ucast (drop_bit (8 * k) w)) [0, 1, 2, 3]) ws)"

definition example_main ::
  "(health_request \<Rightarrow> health_response option) \<Rightarrow> (status_request \<Rightarrow> status_response option) \<Rightarrow>
   (infer_request \<Rightarrow> infer_response option) \<Rightarrow> (bool list \<times> infer_response option) option" where
  "example_main health_rpc status_rpc infer_rpc =
     (let model_name = ''demo'';
          ret1 = ProbeLiveness health_rpc;
          ret2 = ModelReady status_rpc model_name;
          input_names = [''INPUT__0'', ''INPUT__1''];
          input_data0 = [1, 2, 3, 4];
          input_data1 = [5, 6, 7, 8];
          input_size = 4 * 4;
          inputs = [(u32_bytes input_data0, input_size), (u32_bytes input_data1, input_size)];
          input_shapes = [[1, 16], [1, 16]];
          input_dtypes = [TYPE_INT32, TYPE_INT32]
      in case RequestInference infer_rpc model_name input_names inputs input_shapes input_dtypes 1 0 of
           Out_of_bounds \<Rightarrow> None
         | Result ret3 (infer_response, _) \<Rightarrow> Some ([ret1, ret2, ret3], infer_response))"

section \<open>Inputs reach the backend\<close>

lemma add_inputs_spec:
  assumes "\<forall>i \<in> set idxs. unat (snd (inputs ! i)) \<le> length (fst (inputs ! i))"
  shows "\<exists>c'. add_inputs idxs inputs shapes names c = Result True c' \<and>
     irq_raw_input (cc_request c') =
       irq_raw_input (cc_request c) @ map (\<lambda>i. take (unat (snd (inputs ! i))) (fst (inputs ! i))) idxs \<and>
     map in_name (rq_input (irq_meta_data (cc_request c'))) =
       map in_name (rq_input (irq_meta_data (cc_request c))) @
       map (\<lambda>i. case names of Some ns \<Rightarrow> ns ! i | None \<Rightarrow> default_input_name i) idxs"
  using assms
proof (induction idxs arbitrary: c)
  case (Cons i idxs)
  let ?name = "case names of Some ns \<Rightarrow> ns ! i | None \<Rightarrow> default_input_name i"
  let ?c = "c\<lparr>cc_request := add_input ?name (fst (inputs ! i)) (snd (inputs ! i)) (shapes ! i)
      TYPE_INVALID (cc_request c)\<rparr>"
  have "AddInferInput ?name (fst (inputs ! i)) (snd (inputs ! i)) (shapes ! i) c = Result True ?c"
    using Cons.prems by (simp add: AddInferInput_def AddInferInput_typed_def)
  then have "add_inputs (i # idxs) inputs shapes names c = add_inputs idxs inputs shapes names ?c"
    by simp
  then show ?case
    using Cons.IH [of ?c] Cons.prems by (auto simp: add_input_def simp del: add_inputs.simps)
qed simp

lemma default_names_distinct: "distinct (map default_input_name [0..<n])"
  by (auto simp: distinct_map inj_on_def default_input_name_def to_string_def dest: show_nat_inj)

lemma input_memory_at:
  assumes "GrpcInferRequestContext req resp f = Inr ctx" "i < length (irq_raw_input req)"
    "length (irq_raw_input req) < 2 ^ 31"
  shows "GetInputMemory (word_of_nat i) (ctx_payload ctx) =
     Some \<lparr>mem_addr = irq_raw_input req ! i, mem_length = word_of_nat (length (irq_raw_input req ! i))\<rparr>"
proof -
  have "pl_inputs_memory (ctx_payload ctx) = input_memory req"
    using assms(1) by (auto simp: GrpcInferRequestContext_def InferencePayload_def)
  moreover have "sint (word_of_nat i :: i32) = int i"
    using assms(2,3) by (intro sint_of_nat_i32) simp
  ultimately show ?thesis
    using assms(2) by (simp add: GetInputMemory_def input_memory_def)
qed

text \<open>Tensors are moved: the request has them in order, the caller keeps empty ones.\<close>

lemma swap_tensors_eq:
  assumes "distinct idxs" "\<forall>i \<in> set idxs. i < length tensors"
  shows "fst (swap_tensors idxs tensors req) =
      map (\<lambda>i. if i \<in> set idxs then empty_tensor_proto else tensors ! i) [0..<length tensors] \<and>
    snd (swap_tensors idxs tensors req) =
      req\<lparr>irq_tensors := irq_tensors req @ map ((!) tensors) idxs\<rparr>"
  using assms
proof (induction idxs arbitrary: tensors req)
  case Nil
  then show ?case by (simp add: map_nth)
next
  case (Cons i idxs)
  have "map ((!) (tensors[i := empty_tensor_proto])) idxs = map ((!) tensors) idxs"
    using Cons.prems by (auto intro!: map_cong [OF refl] nth_list_update_neq)
  moreover have "map (\<lambda>j. if j \<in> set idxs then empty_tensor_proto else tensors[i := empty_tensor_proto] ! j)
      [0..<length tensors] =
      map (\<lambda>j. if j \<in> set (i # idxs) then empty_tensor_proto else tensors ! j) [0..<length tensors]"
    using Cons.prems by (intro map_cong [OF refl]) (auto simp: nth_list_update)
  ultimately show ?case
    using Cons.prems
      Cons.IH [of "tensors[i := empty_tensor_proto]" "req\<lparr>irq_tensors := irq_tensors req @ [tensors ! i]\<rparr>"]
    by simp
qed

lemma AddInferInputTensor_moves:
  assumes "tensors \<noteq> []"
  shows "AddInferInputTensor tensors c =
     (True, replicate (length tensors) empty_tensor_proto,
      c\<lparr>cc_request := (cc_request c)
        \<lparr>irq_tensors := irq_tensors (cc_request c) @ tensors\<rparr>\<rparr>)"
proof -
  have "map (\<lambda>j. if j < length tensors then empty_tensor_proto else tensors ! j) [0..<length tensors] =
      replicate (length tensors) empty_tensor_proto"
    by (rule nth_equalityI) simp_all
  then show ?thesis
    using swap_tensors_eq [of "[0..<length tensors]" tensors "cc_request c"] assms
    by (simp add: AddInferInputTensor_def split_beta map_nth)
qed

text \<open>What \<open>main\<close> of the example sends, and what it prints.\<close>

definition example_request :: infer_request where
  "example_request =
     \<lparr>irq_model_name = ''demo'', irq_model_version = -1,
      irq_meta_data =
        \<lparr>rq_batch_size = 1,
         rq_input =
           [\<lparr>in_name = ''INPUT__0'', in_dims = [1, 16], in_batch_byte_size = 16, in_data_type = TYPE_INT32\<rparr>,
            \<lparr>in_name = ''INPUT__1'', in_dims = [1, 16], in_batch_byte_size = 16, in_data_type = TYPE_INT32\<rparr>],
         rq_output = [], rq_id = 0\<rparr>,
      irq_raw_input =
        [[1, 0, 0, 0, 2, 0, 0, 0, 3, 0, 0, 0, 4, 0, 0, 0],
         [5, 0, 0, 0, 6, 0, 0, 0, 7, 0, 0, 0, 8, 0, 0, 0]],
      irq_tensors = []\<rparr>"

lemma example_main_prints:
  "example_main health_rpc status_rpc infer_rpc =
     Some ([ProbeLiveness health_rpc, ModelReady status_rpc ''demo'',
        (case infer_rpc example_request of
           Some resp \<Rightarrow> rst_code (irs_request_status resp) = SUCCESS | None \<Rightarrow> False)],
      infer_rpc example_request)"
proof -
  have bytes: "u32_bytes [1, 2, 3, 4] = [1, 0, 0, 0, 2, 0, 0, 0, 3, 0, 0, 0, 4, 0, 0, 0]"
    "u32_bytes [5, 6, 7, 8] = [5, 0, 0, 0, 6, 0, 0, 0, 7, 0, 0, 0, 8, 0, 0, 0]"
    by code_simp+
  have "client_request ''demo'' [''INPUT__0'', ''INPUT__1'']
      [(u32_bytes [1, 2, 3, 4], 4 * 4), (u32_bytes [5, 6, 7, 8], 4 * 4)] [[1, 16], [1, 16]]
      [TYPE_INT32, TYPE_INT32] 1 0 = example_request"
    by (simp add: bytes client_request_def client_input_def example_request_def)
  then show ?thesis
    by (simp add: example_main_def RequestInference_def bytes split: option.split)
qed

section \<open>Outputs reach the client\<close>

text \<open>A backend that registers its outputs at 0, 1, 2, ... in this order.\<close>

definition in_order :: "output_tensor list \<Rightarrow> bool" where
  "in_order ts \<longleftrightarrow> length ts < 2 ^ 31 \<and> (\<forall>i < length ts. tensor_index (ts ! i) = word_of_nat i)"

definition tensor_content :: "output_tensor \<Rightarrow> bytes" where
  "tensor_content = (\<lambda>(n, i, c, sh). c)"

definition tensor_shape :: "output_tensor \<Rightarrow> i64 list" where
  "tensor_shape = (\<lambda>(n, i, c, sh). sh)"

lemma in_order_sint: "in_order ts \<Longrightarrow> i < length ts \<Longrightarrow> sint (tensor_index (ts ! i)) = int i"
  by (simp add: in_order_def sint_of_nat_i32)

lemma in_order_max:
  assumes "in_order ts" "ts \<noteq> []"
  shows "Suc (max_tensor_index ts) = length ts"
proof -
  have "(\<lambda>t. sint (tensor_index t)) ` set ts = int ` {..<length ts}"
    using in_order_sint [OF assms(1)] by (force simp: set_conv_nth)
  moreover have "Max (insert 0 (int ` {..<length ts})) = int (length ts - 1)"
    using assms(2) by (intro Max_eqI) (auto intro!: image_eqI [of _ _ "length ts - 1"])
  ultimately show ?thesis
    using assms(2) by (simp add: max_tensor_index_def)
qed

lemma in_order_last_at:
  assumes "in_order ts" "i < length ts"
  shows "last_at ts (word_of_nat i) = Some (tensor_content (ts ! i))"
proof -
  let ?kv = "map (\<lambda>(n, i, c, sh). (i, c)) ts"
  have keys: "map fst ?kv = map tensor_index ts"
    by (simp add: tensor_index_def case_prod_beta comp_def)
  have "tensor_index (ts ! j) \<noteq> tensor_index (ts ! k)" if "j < length ts" "k < length ts" "j \<noteq> k" for j k
    using in_order_sint [OF assms(1)] that by (metis of_nat_eq_iff)
  then have "distinct (map fst ?kv)"
    unfolding keys by (simp add: distinct_conv_nth)
  then have "distinct (map fst (rev ?kv))"
    by (simp only: rev_map [symmetric] distinct_rev)
  moreover have "(tensor_index (ts ! i), tensor_content (ts ! i)) \<in> set ?kv"
    using assms(2) by (auto simp: tensor_index_def tensor_content_def case_prod_beta
        intro!: image_eqI [of _ _ "ts ! i"])
  ultimately show ?thesis
    using map_of_is_SomeI [of "rev ?kv"] assms by (simp add: last_at_def in_order_def)
qed

lemma client_reads_output:
  assumes "in_order ts" "\<forall>t \<in> set ts. small_tensor t" "i < length ts"
  shows "\<exists>resp. serve_call req ts Success message = Inr resp \<and>
     GetInferOutput (word_of_nat i) dims (c\<lparr>cc_response := resp\<rparr>) =
       Output (tensor_content (ts ! i)) (word_of_nat (length (tensor_content (ts ! i))))
         (dims @ map ucast (tensor_shape (ts ! i)))"
proof -
  have ne: "ts \<noteq> []"
    using assms(3) by auto
  obtain resp where resp: "serve_call req ts Success message = Inr resp"
    "rs_output (irs_meta_data resp) = map tensor_header ts"
    "irs_raw_output resp =
       map (\<lambda>i. case last_at ts (word_of_nat i) of Some c \<Rightarrow> c | None \<Rightarrow> []) [0..<length ts]"
    using serve_call_success [OF assms(2), of req message] in_order_max [OF assms(1) ne] by metis
  have i31: "i < 2 ^ 31"
    using assms(1,3) by (simp add: in_order_def)
  have u: "unat (word_of_nat i :: u32) = i"
    using i31 by (simp add: unat_of_nat)
  have s: "sint (ucast (word_of_nat i :: u32) :: i32) = int i"
    using i31 by (simp add: sint_of_nat_i32)
  have "raw_dims (out_raw (tensor_header (ts ! i))) = tensor_shape (ts ! i)"
    by (simp add: tensor_header_def tensor_shape_def case_prod_beta)
  then show ?thesis
    using resp u s assms(3) in_order_last_at [OF assms(1,3)]
    by (simp add: GetInferOutput_def Let_def)
qed

text \<open>
  A channel to a server whose backend registers \<open>ts\<close> and whose runner completes the call with a
  status and a message.
\<close>

definition served ::
  "output_tensor list \<Rightarrow> status \<Rightarrow> string \<Rightarrow> infer_request \<Rightarrow> infer_response \<Rightarrow> bool \<times> infer_response" where
  "served ts st message req resp =
     (case serve_call req ts st message of Inl e \<Rightarrow> (False, resp) | Inr resp' \<Rightarrow> (True, resp'))"

lemma infer_reads_output:
  assumes "in_order ts" "\<forall>t \<in> set ts. small_tensor t" "i < length ts"
  shows "\<exists>c'. Infer (served ts Success message) name version next_id c = (True, next_id + 1, c') \<and>
     GetInferOutput (word_of_nat i) dims c' =
       Output (tensor_content (ts ! i)) (word_of_nat (length (tensor_content (ts ! i))))
         (dims @ map ucast (tensor_shape (ts ! i)))"
proof -
  define c1 where "c1 = c\<lparr>cc_request := (cc_request c)\<lparr>irq_model_name := name, irq_model_version := version,
    irq_meta_data := (irq_meta_data (cc_request c))\<lparr>rq_id := next_id\<rparr>\<rparr>\<rparr>"
  from client_reads_output [OF assms, of "cc_request c1" message dims c1] obtain resp where
    resp: "serve_call (cc_request c1) ts Success message = Inr resp"
    "GetInferOutput (word_of_nat i) dims (c1\<lparr>cc_response := resp\<rparr>) =
       Output (tensor_content (ts ! i)) (word_of_nat (length (tensor_content (ts ! i))))
         (dims @ map ucast (tensor_shape (ts ! i)))"
    by blast
  have "rst_code (irs_request_status resp) = SUCCESS"
    using serve_call_success [OF assms(2), of "cc_request c1" message] resp(1) by auto
  then show ?thesis
    using resp by (simp add: Infer_def MakeInferRequest_def served_def c1_def Let_def)
qed

lemma infer_reports_failure:
  assumes "st \<noteq> Success"
  shows "\<exists>c'. Infer (served ts st message) name version next_id c = (False, next_id + 1, c') \<and>
     GetInferErrorMessage c' = message"
proof -
  define req where "req = (cc_request c)\<lparr>irq_model_name := name, irq_model_version := version,
    irq_meta_data := (irq_meta_data (cc_request c))\<lparr>rq_id := next_id\<rparr>\<rparr>"
  obtain ctx where ctx: "GrpcInferRequestContext req empty_infer_response () = Inr ctx"
    using GrpcInferRequestContext_Inr by metis
  from OnInferCompleted_failure [OF assms, of message
      "ctx\<lparr>ctx_payload := snd (register_all ts (ctx_payload ctx))\<rparr>"] obtain ctx' where
    "OnInferCompleted st message (ctx\<lparr>ctx_payload := snd (register_all ts (ctx_payload ctx))\<rparr>) = Inr ctx'"
    "rst_code (irs_request_status (ctx_response ctx')) = INTERNAL"
    "rst_msg (irs_request_status (ctx_response ctx')) = message"
    by blast
  then obtain resp where "serve_call req ts st message = Inr resp"
    "rst_code (irs_request_status resp) = INTERNAL" "rst_msg (irs_request_status resp) = message"
    by (simp add: serve_call_def ctx)
  then show ?thesis
    by (simp add: Infer_def MakeInferRequest_def served_def GetInferErrorMessage_def req_def Let_def)
qed

lemma GetInferOutput_bad_index:
  assumes "2 ^ 31 \<le> unat idx" "length (rs_output (irs_meta_data (cc_response c))) < 2 ^ 31"
  shows "GetInferOutput idx dims c = Bad_index"
proof -
  have "sint idx < 0"
    using assms(1) unat_below_i32 [of idx] by (meson not_le)
  then show ?thesis
    using assms by (simp add: GetInferOutput_def Let_def)
qed

end
