(* ===== verification/Queue_Monitor.thy ===== *)
theory Queue_Monitor
  imports Blocking_Queue
begin

text \<open>
  The blocking queue as its threads see it: the mutex makes every critical section one
  step, a \<open>wait\<close> whose predicate is false puts the thread to sleep on its condition
  variable, \<open>notify_one\<close> wakes one sleeper if there is one, \<open>notify_all\<close> wakes all, and
  a sleeper may wake spuriously. A woken thread tests its predicate again.
\<close>

section \<open>Threads and steps\<close>

datatype 'a thread_pc =
    Outside
  | Pushing 'a
  | Push_Asleep 'a
  | Popping
  | Pop_Asleep

fun is_pushing :: "'a thread_pc \<Rightarrow> bool" where
  "is_pushing (Pushing _) = True" | "is_pushing _ = False"

fun is_push_asleep :: "'a thread_pc \<Rightarrow> bool" where
  "is_push_asleep (Push_Asleep _) = True" | "is_push_asleep _ = False"

fun is_popping :: "'a thread_pc \<Rightarrow> bool" where
  "is_popping Popping = True" | "is_popping _ = False"

fun is_pop_asleep :: "'a thread_pc \<Rightarrow> bool" where
  "is_pop_asleep Pop_Asleep = True" | "is_pop_asleep _ = False"

fun wake :: "'a thread_pc \<Rightarrow> 'a thread_pc" where
  "wake (Push_Asleep x) = Pushing x"
| "wake Pop_Asleep = Popping"
| "wake c = c"

text \<open>\<open>mq_in\<close> and \<open>mq_out\<close> record the items stored and handed out so far.\<close>

record 'a monitor =
  mon_queue :: "'a blocking_queue"
  mon_threads :: "'a thread_pc list"
  mon_in :: "'a list"
  mon_out :: "'a list"

inductive notify_one :: "('a thread_pc \<Rightarrow> bool) \<Rightarrow> 'a thread_pc list \<Rightarrow> 'a thread_pc list \<Rightarrow> bool" where
  nobody: "\<forall>c \<in> set ts. \<not> asleep c \<Longrightarrow> notify_one asleep ts ts"
| somebody: "j < length ts \<Longrightarrow> asleep (ts ! j) \<Longrightarrow> notify_one asleep ts (ts[j := wake (ts ! j)])"

definition notify_all :: "('a thread_pc \<Rightarrow> bool) \<Rightarrow> 'a thread_pc list \<Rightarrow> 'a thread_pc list" where
  "notify_all asleep ts = map (\<lambda>c. if asleep c then wake c else c) ts"

inductive monitor_step :: "'a monitor \<Rightarrow> 'a monitor \<Rightarrow> bool" where
  call_push: "i < length (mon_threads m) \<Longrightarrow> mon_threads m ! i = Outside \<Longrightarrow>
    monitor_step m (m\<lparr>mon_threads := (mon_threads m)[i := Pushing x]\<rparr>)"
| call_pop: "i < length (mon_threads m) \<Longrightarrow> mon_threads m ! i = Outside \<Longrightarrow>
    monitor_step m (m\<lparr>mon_threads := (mon_threads m)[i := Popping]\<rparr>)"
| push_wait: "i < length (mon_threads m) \<Longrightarrow> mon_threads m ! i = Pushing x \<Longrightarrow>
    push x (mon_queue m) = None \<Longrightarrow>
    monitor_step m (m\<lparr>mon_threads := (mon_threads m)[i := Push_Asleep x]\<rparr>)"
| push_done: "i < length (mon_threads m) \<Longrightarrow> mon_threads m ! i = Pushing x \<Longrightarrow>
    \<not> broken (mon_queue m) \<Longrightarrow> push x (mon_queue m) = Some q \<Longrightarrow>
    notify_one is_pop_asleep ((mon_threads m)[i := Outside]) ts \<Longrightarrow>
    monitor_step m (m\<lparr>mon_queue := q, mon_threads := ts, mon_in := mon_in m @ [x]\<rparr>)"
| push_broken: "i < length (mon_threads m) \<Longrightarrow> mon_threads m ! i = Pushing x \<Longrightarrow>
    broken (mon_queue m) \<Longrightarrow> push x (mon_queue m) = Some q \<Longrightarrow>
    monitor_step m (m\<lparr>mon_queue := q, mon_threads := (mon_threads m)[i := Outside]\<rparr>)"
| pop_wait: "i < length (mon_threads m) \<Longrightarrow> mon_threads m ! i = Popping \<Longrightarrow>
    pop (mon_queue m) = None \<Longrightarrow>
    monitor_step m (m\<lparr>mon_threads := (mon_threads m)[i := Pop_Asleep]\<rparr>)"
| pop_done: "i < length (mon_threads m) \<Longrightarrow> mon_threads m ! i = Popping \<Longrightarrow>
    pop (mon_queue m) = Some (Some x, q) \<Longrightarrow>
    notify_one is_push_asleep ((mon_threads m)[i := Outside]) ts \<Longrightarrow>
    monitor_step m (m\<lparr>mon_queue := q, mon_threads := ts, mon_out := mon_out m @ [x]\<rparr>)"
| pop_broken: "i < length (mon_threads m) \<Longrightarrow> mon_threads m ! i = Popping \<Longrightarrow>
    pop (mon_queue m) = Some (None, q) \<Longrightarrow>
    monitor_step m (m\<lparr>mon_queue := q, mon_threads := (mon_threads m)[i := Outside]\<rparr>)"
| spurious: "i < length (mon_threads m) \<Longrightarrow>
    monitor_step m (m\<lparr>mon_threads := (mon_threads m)[i := wake (mon_threads m ! i)]\<rparr>)"
| break_all: "monitor_step m (m\<lparr>mon_queue := breakAll (mon_queue m),
    mon_threads := notify_all is_push_asleep (notify_all is_pop_asleep (mon_threads m))\<rparr>)"

definition monitor_init :: "size_t \<Rightarrow> nat \<Rightarrow> 'a monitor" where
  "monitor_init cap n =
     \<lparr>mon_queue = BlockingQueue cap, mon_threads = replicate n Outside, mon_in = [], mon_out = []\<rparr>"

inductive monitor_reachable :: "size_t \<Rightarrow> nat \<Rightarrow> 'a monitor \<Rightarrow> bool" for cap n where
  start: "monitor_reachable cap n (monitor_init cap n)"
| step: "monitor_reachable cap n m \<Longrightarrow> monitor_step m m' \<Longrightarrow> monitor_reachable cap n m'"

section \<open>What a notification does to the counts\<close>

abbreviation n_pushing where "n_pushing ts \<equiv> count_if is_pushing ts"
abbreviation n_push_asleep where "n_push_asleep ts \<equiv> count_if is_push_asleep ts"
abbreviation n_popping where "n_popping ts \<equiv> count_if is_popping ts"
abbreviation n_pop_asleep where "n_pop_asleep ts \<equiv> count_if is_pop_asleep ts"

lemma asleep_cases:
  "is_pop_asleep c \<longleftrightarrow> c = Pop_Asleep"
  "is_popping c \<longleftrightarrow> c = Popping"
  by (cases c; simp)+

lemma count_wake:
  assumes "j < length ts"
  shows "is_pop_asleep (ts ! j) \<Longrightarrow>
      n_pop_asleep ts = Suc (n_pop_asleep (ts[j := wake (ts ! j)])) \<and>
      n_popping (ts[j := wake (ts ! j)]) = Suc (n_popping ts) \<and>
      n_push_asleep (ts[j := wake (ts ! j)]) = n_push_asleep ts \<and>
      n_pushing (ts[j := wake (ts ! j)]) = n_pushing ts"
    and "is_push_asleep (ts ! j) \<Longrightarrow>
      n_push_asleep ts = Suc (n_push_asleep (ts[j := wake (ts ! j)])) \<and>
      n_pushing (ts[j := wake (ts ! j)]) = Suc (n_pushing ts) \<and>
      n_pop_asleep (ts[j := wake (ts ! j)]) = n_pop_asleep ts \<and>
      n_popping (ts[j := wake (ts ! j)]) = n_popping ts"
  using count_if_update [OF assms, of is_pop_asleep "wake (ts ! j)"]
    count_if_update [OF assms, of is_popping "wake (ts ! j)"]
    count_if_update [OF assms, of is_push_asleep "wake (ts ! j)"]
    count_if_update [OF assms, of is_pushing "wake (ts ! j)"]
  by (cases "ts ! j"; simp)+

lemma notify_one_pop:
  assumes "notify_one is_pop_asleep ts ts'"
  shows "n_push_asleep ts' = n_push_asleep ts \<and> n_pushing ts' = n_pushing ts \<and>
    length ts' = length ts \<and>
    (n_pop_asleep ts = 0 \<and> n_pop_asleep ts' = 0 \<and> n_popping ts' = n_popping ts \<or>
     n_pop_asleep ts = Suc (n_pop_asleep ts') \<and> n_popping ts' = Suc (n_popping ts))"
  using assms
proof cases
  case nobody
  then show ?thesis
    by (simp add: count_if_zero_iff)
next
  case (somebody j)
  then show ?thesis
    using count_wake(1) [of j ts] by simp
qed

lemma notify_one_push:
  assumes "notify_one is_push_asleep ts ts'"
  shows "n_pop_asleep ts' = n_pop_asleep ts \<and> n_popping ts' = n_popping ts \<and>
    length ts' = length ts \<and>
    (n_push_asleep ts = 0 \<and> n_push_asleep ts' = 0 \<and> n_pushing ts' = n_pushing ts \<or>
     n_push_asleep ts = Suc (n_push_asleep ts') \<and> n_pushing ts' = Suc (n_pushing ts))"
  using assms
proof cases
  case nobody
  then show ?thesis
    by (simp add: count_if_zero_iff)
next
  case (somebody j)
  then show ?thesis
    using count_wake(2) [of j ts] by simp
qed

lemma wake_awake [simp]: "\<not> is_push_asleep (wake c)" "\<not> is_pop_asleep (wake c)"
  by (cases c; simp)+

lemma notify_all_wakes:
  "n_push_asleep (notify_all is_push_asleep (notify_all is_pop_asleep ts)) = 0"
  "n_pop_asleep (notify_all is_push_asleep (notify_all is_pop_asleep ts)) = 0"
  by (auto simp: count_if_zero_iff notify_all_def split: if_splits)

section \<open>The invariant\<close>

text \<open>
  Items leave in the order they came; the buffer is bounded; no thread sleeps at a
  broken queue; and as long as a consumer sleeps, every item in the buffer has a
  consumer awake for it (and every free slot a producer awake while one sleeps). The
  last two are what makes \<open>notify_one\<close> enough.
\<close>

definition monitor_inv :: "'a monitor \<Rightarrow> bool" where
  "monitor_inv m \<longleftrightarrow>
     (let q = mon_queue m; ts = mon_threads m in
        mon_in m = mon_out m @ bq_buffer q \<and>
        length (bq_buffer q) \<le> unat (bq_capacity q) \<and>
        (broken q \<longrightarrow> n_push_asleep ts = 0 \<and> n_pop_asleep ts = 0) \<and>
        (0 < n_pop_asleep ts \<longrightarrow> length (bq_buffer q) \<le> n_popping ts) \<and>
        (0 < n_push_asleep ts \<longrightarrow>
           unat (bq_capacity q) \<le> length (bq_buffer q) + n_pushing ts))"

lemma monitor_invI:
  assumes "mon_in m = mon_out m @ bq_buffer (mon_queue m)"
    "length (bq_buffer (mon_queue m)) \<le> unat (bq_capacity (mon_queue m))"
    "broken (mon_queue m) \<Longrightarrow> n_push_asleep (mon_threads m) = 0 \<and> n_pop_asleep (mon_threads m) = 0"
    "0 < n_pop_asleep (mon_threads m) \<Longrightarrow>
       length (bq_buffer (mon_queue m)) \<le> n_popping (mon_threads m)"
    "0 < n_push_asleep (mon_threads m) \<Longrightarrow> unat (bq_capacity (mon_queue m)) \<le>
       length (bq_buffer (mon_queue m)) + n_pushing (mon_threads m)"
  shows "monitor_inv m"
  using assms by (simp add: monitor_inv_def Let_def)

lemma monitor_invD:
  assumes "monitor_inv m"
  shows "mon_in m = mon_out m @ bq_buffer (mon_queue m)"
    "length (bq_buffer (mon_queue m)) \<le> unat (bq_capacity (mon_queue m))"
    "broken (mon_queue m) \<Longrightarrow> n_push_asleep (mon_threads m) = 0 \<and> n_pop_asleep (mon_threads m) = 0"
    "0 < n_pop_asleep (mon_threads m) \<Longrightarrow>
       length (bq_buffer (mon_queue m)) \<le> n_popping (mon_threads m)"
    "0 < n_push_asleep (mon_threads m) \<Longrightarrow> unat (bq_capacity (mon_queue m)) \<le>
       length (bq_buffer (mon_queue m)) + n_pushing (mon_threads m)"
  using assms by (simp_all add: monitor_inv_def Let_def)

text \<open>How the four counts change when one thread moves.\<close>

lemma counts_move:
  fixes ts :: "'a thread_pc list"
  assumes "i < length ts"
  shows "n_pushing (ts[i := c]) + (if is_pushing (ts ! i) then 1 else 0) =
      n_pushing ts + (if is_pushing c then 1 else 0)"
    "n_popping (ts[i := c]) + (if is_popping (ts ! i) then 1 else 0) =
      n_popping ts + (if is_popping c then 1 else 0)"
    "n_push_asleep (ts[i := c]) + (if is_push_asleep (ts ! i) then 1 else 0) =
      n_push_asleep ts + (if is_push_asleep c then 1 else 0)"
    "n_pop_asleep (ts[i := c]) + (if is_pop_asleep (ts ! i) then 1 else 0) =
      n_pop_asleep ts + (if is_pop_asleep c then 1 else 0)"
  by (simp_all only: count_if_update [OF assms])

lemma monitor_step_inv:
  assumes "monitor_step m m'" "monitor_inv m"
  shows "monitor_inv m'"
  using assms(1)
proof cases
  case (call_push i x)
  then show ?thesis
    using monitor_invD [OF assms(2)] counts_move [of i "mon_threads m" "Pushing x"]
    by (intro monitor_invI) simp_all
next
  case (call_pop i)
  then show ?thesis
    using monitor_invD [OF assms(2)] counts_move [of i "mon_threads m" Popping]
    by (intro monitor_invI) simp_all
next
  case (push_wait i x)
  then have "\<not> broken (mon_queue m)" "unat (bq_capacity (mon_queue m)) \<le> length (bq_buffer (mon_queue m))"
    using bq.enq_blocks [of x "mon_queue m"] by simp_all
  moreover have "n_popping (mon_threads m') = n_popping (mon_threads m)"
    "n_pop_asleep (mon_threads m') = n_pop_asleep (mon_threads m)"
    "mon_queue m' = mon_queue m" "mon_in m' = mon_in m" "mon_out m' = mon_out m"
    using push_wait counts_move [of i "mon_threads m" "Push_Asleep x"] by simp_all
  ultimately show ?thesis
    using monitor_invD [OF assms(2)] by (intro monitor_invI) (simp_all only: trans_le_add1)
next
  case (push_done i x q ts)
  have q: "q = mon_queue m\<lparr>bq_buffer := bq_buffer (mon_queue m) @ [x]\<rparr>"
    "length (bq_buffer (mon_queue m)) < unat (bq_capacity (mon_queue m))"
    using push_done by (auto simp: broken_def push_unbroken)
  show ?thesis
    using push_done q monitor_invD [OF assms(2)] counts_move [of i "mon_threads m" Outside]
      notify_one_pop [OF push_done(6)]
    by (intro monitor_invI) (auto simp: broken_def)
next
  case (push_broken i x q)
  then have "q = mon_queue m"
    by (simp add: broken_def push_on_broken)
  then show ?thesis
    using push_broken monitor_invD [OF assms(2)] counts_move [of i "mon_threads m" Outside]
    by (intro monitor_invI) simp_all
next
  case (pop_wait i)
  then have "\<not> broken (mon_queue m)" "bq_buffer (mon_queue m) = []"
    using bq.deq_blocks [of "mon_queue m"] by simp_all
  then show ?thesis
    using pop_wait monitor_invD [OF assms(2)] counts_move [of i "mon_threads m" Pop_Asleep]
    by (intro monitor_invI) simp_all
next
  case (pop_done i x q ts)
  have nb: "\<not> bq_broken (mon_queue m)"
    using pop_done(4) by (auto simp: pop_def split: if_splits)
  obtain xs where q: "bq_buffer (mon_queue m) = x # xs" "q = mon_queue m\<lparr>bq_buffer := xs\<rparr>"
    using pop_done(4) nb by (auto simp: pop_unbroken)
  show ?thesis
    using pop_done nb q monitor_invD [OF assms(2)] counts_move [of i "mon_threads m" Outside]
      notify_one_push [OF pop_done(5)]
    by (intro monitor_invI) (auto simp: broken_def)
next
  case (pop_broken i q)
  then have "q = mon_queue m" "broken (mon_queue m)"
    by (auto simp: pop_def broken_def split: if_splits)
  then show ?thesis
    using pop_broken monitor_invD [OF assms(2)] counts_move [of i "mon_threads m" Outside]
    by (intro monitor_invI) simp_all
next
  case (spurious i)
  then show ?thesis
    using monitor_invD [OF assms(2)] counts_move [of i "mon_threads m" "wake (mon_threads m ! i)"]
    by (intro monitor_invI; cases "mon_threads m ! i") auto
next
  case break_all
  then show ?thesis
    using monitor_invD(1,2) [OF assms(2)] notify_all_wakes [of "mon_threads m"]
    by (intro monitor_invI) (simp_all add: breakAll_def)
qed

lemma monitor_reachable_inv: "monitor_reachable cap n m \<Longrightarrow> monitor_inv m"
proof (induction rule: monitor_reachable.induct)
  case start
  show ?case
    by (rule monitor_invI)
      (auto simp: monitor_init_def BlockingQueue_def broken_def count_if_pos_iff)
next
  case (step m m')
  then show ?case by (blast intro: monitor_step_inv)
qed

lemma monitor_step_capacity:
  "monitor_step m m' \<Longrightarrow> bq_capacity (mon_queue m') = bq_capacity (mon_queue m)"
  by (induction rule: monitor_step.induct) (auto simp: push_def pop_def breakAll_def split: if_splits)

lemma monitor_reachable_capacity: "monitor_reachable cap n m \<Longrightarrow> bq_capacity (mon_queue m) = cap"
  by (induction rule: monitor_reachable.induct)
    (simp_all add: monitor_init_def BlockingQueue_def monitor_step_capacity)

text \<open>Nobody is left asleep while the queue could serve it.\<close>

definition quiescent :: "'a monitor \<Rightarrow> bool" where
  "quiescent m \<longleftrightarrow> (\<forall>c \<in> set (mon_threads m). \<not> is_pushing c \<and> \<not> is_popping c)"

lemma quiescent_sleepers:
  assumes "monitor_reachable cap n m" "quiescent m"
  shows "Pop_Asleep \<in> set (mon_threads m) \<Longrightarrow> \<not> broken (mon_queue m) \<and> bq_buffer (mon_queue m) = []"
    and "Push_Asleep x \<in> set (mon_threads m) \<Longrightarrow>
      \<not> broken (mon_queue m) \<and> length (bq_buffer (mon_queue m)) = unat cap"
proof -
  note inv = monitor_invD [OF monitor_reachable_inv [OF assms(1)]]
  have zero: "n_pushing (mon_threads m) = 0" "n_popping (mon_threads m) = 0"
    using assms(2) by (simp_all add: quiescent_def count_if_zero_iff)
  show "\<not> broken (mon_queue m) \<and> bq_buffer (mon_queue m) = []"
    if "Pop_Asleep \<in> set (mon_threads m)"
  proof -
    have "0 < n_pop_asleep (mon_threads m)"
      using that by (force simp: count_if_pos_iff)
    then show ?thesis
      using inv zero by fastforce
  qed
  show "\<not> broken (mon_queue m) \<and> length (bq_buffer (mon_queue m)) = unat cap"
    if "Push_Asleep x \<in> set (mon_threads m)"
  proof -
    have "0 < n_push_asleep (mon_threads m)"
      using that unfolding count_if_pos_iff by (auto intro!: bexI [of _ "Push_Asleep x"])
    then show ?thesis
      using inv zero monitor_reachable_capacity [OF assms(1)] by fastforce
  qed
qed

end
