(* ===== verification/Demo_Repository.thy ===== *)
theory Demo_Repository
  imports Repository_Update Main_Process Infer_Client Queue_Monitor
begin

text \<open>
  A concrete repository, configuration and server, on which the properties are
  instantiated: one model \<open>demo\<close> with the version directories 1 and 3, a directory that is
  no version, and two CPU instances.
\<close>

definition demo_path :: "string \<Rightarrow> string" where
  "demo_path s = ''repo/demo/'' @ s"

definition demo_fs :: boost_fs where
  "demo_fs =
     \<lparr>bf_exists = (\<lambda>_. True),
      bf_directory_iterator = (\<lambda>p.
        if p = ''repo'' then Some [''repo/demo'']
        else if p = ''repo/demo'' then
          Some [demo_path ''1'', demo_path ''3'', demo_path ''tmp'', demo_path ''config.pbtxt'']
        else None),
      bf_is_directory = (\<lambda>p. p \<noteq> demo_path ''config.pbtxt''),
      bf_is_regular_file = (\<lambda>p. p = demo_path ''config.pbtxt''),
      bf_filename = (\<lambda>p. rev (takeWhile (\<lambda>c. c \<noteq> CHR ''/'') (rev p))),
      bf_append = (\<lambda>a b. a @ ''/'' @ b),
      bf_last_write_time = (\<lambda>_. 0),
      ifstream_text = Some\<rparr>"

definition demo_config :: "i32 \<Rightarrow> model_config" where
  "demo_config instances =
     \<lparr>mc_name = ''demo'', mc_platform = kDemoPlatform, mc_max_batch_size = 1,
      mc_input = [\<lparr>mi_name = ''INPUT__0'', mi_data_type = TYPE_INT32, mi_dims = [4]\<rparr>],
      mc_output = [\<lparr>mo_name = ''OUTPUT__0'', mo_data_type = TYPE_INT32, mo_dims = [4]\<rparr>],
      mc_instance_group =
        [\<lparr>grp_name = ''g'', grp_kind = KIND_CPU, grp_count = instances, grp_gpus = []\<rparr>],
      mc_default_model_filename = ''''\<rparr>"

definition demo_parse :: "i32 \<Rightarrow> string \<Rightarrow> model_config option" where
  "demo_parse instances text =
     (if text = demo_path kModelConfigPbTxt then Some (demo_config instances) else None)"

definition demo_server_config :: "i32 \<Rightarrow> server_config" where
  "demo_server_config queue =
     \<lparr>model_repo_path = ''repo'',
      model_control_cfg = \<lparr>auto_update = False, update_interval = 0, auto_warmup = False,
                           specific_model_version = []\<rparr>,
      grpc_server_cfg = \<lparr>grpc_server_addr = ''0.0.0.0:50051''\<rparr>,
      scheduler_cfg = \<lparr>sched_type = SCHEDULER_SIMPLE, max_queue_size = queue\<rparr>\<rparr>"

definition demo_manager :: "i32 \<Rightarrow> core_manager" where
  "demo_manager queue =
     (case ModelManager demo_fs (demo_parse 2) (demo_server_config queue) of
        Inr mm \<Rightarrow> mm | Inl _ \<Rightarrow> new_manager (demo_server_config queue))"

section \<open>A run of the server\<close>

text \<open>
  The event loop requests a call; a request for the model arrives; the loop takes it; then
  runner 0 makes \<open>k\<close> steps.
\<close>

definition demo_request :: infer_request where
  "demo_request = add_input ''INPUT__0'' [1, 2, 3, 4] 4 [1, 4] TYPE_INT32
     (empty_infer_request\<lparr>irq_model_name := ''demo''\<rparr>)"

definition or_else :: "'a call_result \<Rightarrow> 'a \<Rightarrow> 'a" where
  "or_else r d = (case r of Returns x \<Rightarrow> x | _ \<Rightarrow> d)"

definition is_returned :: "'a call_result \<Rightarrow> bool" where
  "is_returned r = (case r of Returns x \<Rightarrow> True | _ \<Rightarrow> False)"

lemma or_else_returned: "is_returned r \<Longrightarrow> r = Returns (or_else r d)"
  by (cases r) (simp_all add: is_returned_def or_else_def)

definition call_entered :: "core_manager \<Rightarrow> server" where
  "call_entered mm = (mm, StartNewRequest (new_infer_handler\<lparr>h_thread := Looping\<rparr>))"

definition request_arrived :: "infer_request \<Rightarrow> core_manager \<Rightarrow> server" where
  "request_arrived req mm =
     (let (mm', h) = call_entered mm in
      (mm', upd_state 0 (hs_request_update (\<lambda>_. req))
        (h\<lparr>cq_requested := remove1 0 (cq_requested h), cq_events := cq_events h @ [(0, True)]\<rparr>)))"

definition request_turn :: "infer_request \<Rightarrow> core_manager \<Rightarrow> server call_result" where
  "request_turn req mm =
     (let (mm', h) = request_arrived req mm
      in Process Infer_TakeAction 0 True (mm', h\<lparr>cq_events := []\<rparr>))"

abbreviation call_arrived :: "core_manager \<Rightarrow> server" where
  "call_arrived mm \<equiv> request_arrived demo_request mm"

abbreviation call_turn :: "core_manager \<Rightarrow> server call_result" where
  "call_turn mm \<equiv> request_turn demo_request mm"

abbreviation demo_arrived :: "i32 \<Rightarrow> server" where
  "demo_arrived queue \<equiv> call_arrived (demo_manager queue)"

abbreviation demo_turn :: "i32 \<Rightarrow> server call_result" where
  "demo_turn queue \<equiv> call_turn (demo_manager queue)"

fun demo_run :: "nat \<Rightarrow> i32 \<Rightarrow> server" where
  "demo_run 0 queue = or_else (demo_turn queue) (demo_arrived queue)"
| "demo_run (Suc k) queue = (let sh = demo_run k queue in or_else (model_runner ''demo'' 0 sh) sh)"

text \<open>
  The answer to a request that is alone in the server: it arrives, the loop takes it, and
  runner 0 of the model works on it until it is answered.
\<close>

definition answer_alone :: "core_manager \<Rightarrow> infer_request \<Rightarrow> infer_response option" where
  "answer_alone mm req =
     (let sh0 = or_else (request_turn req mm) (request_arrived req mm);
          (mm', h) = ((\<lambda>sh. or_else (model_runner (irq_model_name req) 0 sh) sh) ^^ 6) sh0
      in if step_of h 0 = Some FINISH then map_option hs_response (h_states h 0) else None)"

lemma demo_manager_eq: "ModelManager demo_fs (demo_parse 2) (demo_server_config 4) = Inr (demo_manager 4)"
  "ModelManager demo_fs (demo_parse 2) (demo_server_config 0) = Inr (demo_manager 0)"
proof -
  have "\<not> isl (ModelManager demo_fs (demo_parse 2) (demo_server_config 4) :: exn + core_manager)"
    "\<not> isl (ModelManager demo_fs (demo_parse 2) (demo_server_config 0) :: exn + core_manager)"
    by code_simp+
  then show "ModelManager demo_fs (demo_parse 2) (demo_server_config 4) = Inr (demo_manager 4)"
    "ModelManager demo_fs (demo_parse 2) (demo_server_config 0) = Inr (demo_manager 0)"
    by (auto simp: demo_manager_def isl_def split: sum.splits)
qed

abbreviation demo_reachable :: "i32 \<Rightarrow> server \<Rightarrow> bool" where
  "demo_reachable queue \<equiv> server_reachable demo_fs (demo_parse 2) (demo_server_config queue)"

lemma request_arrived_reachable:
  assumes "ModelManager B parse cfg = Inr mm"
  shows "server_reachable B parse cfg (request_arrived req mm)"
proof -
  let ?h = "StartNewRequest (new_infer_handler\<lparr>h_thread := Looping\<rparr>)"
  have "server_reachable B parse cfg (mm, new_infer_handler)"
    using assms by (rule server_reachable.start)
  moreover have "server_step (mm, new_infer_handler) (mm, ?h)"
    by (intro server_step.rpc queue_step.enter) (simp add: new_infer_handler_def Handler_Start_def)
  ultimately have entered: "server_reachable B parse cfg (mm, ?h)"
    by (rule server_reachable.step)
  have h: "0 \<in> set (cq_requested ?h)" "\<not> srv_shut ?h"
    by (simp_all add: new_infer_handler_def Handler_Start_def new_handler_def)
  have "queue_step Infer_TakeAction (mm, ?h) (request_arrived req mm)"
    using queue_step.arrive [OF h, of Infer_TakeAction mm req]
    by (simp only: request_arrived_def call_entered_def Let_def prod.case)
  from server_reachable.step [OF entered server_step.rpc [OF this]] show ?thesis .
qed

lemma request_taken_reachable:
  assumes "ModelManager B parse cfg = Inr mm" "request_turn req mm = Returns sh"
  shows "server_reachable B parse cfg sh"
proof -
  obtain mm' h where a: "request_arrived req mm = (mm', h)"
    by (cases "request_arrived req mm")
  have h: "h_thread h = Looping" "cq_events h = [(0, True)]"
    using a by (auto simp: request_arrived_def call_entered_def new_infer_handler_def Handler_Start_def
        new_handler_def)
  have "queue_step Infer_TakeAction (mm', h) sh"
    using assms(2) h by (intro queue_step.next_event [of _ 0 True "[]"]) (simp_all add: request_turn_def a)
  from server_reachable.step [OF _ server_step.rpc [OF this]] show ?thesis
    using request_arrived_reachable [OF assms(1), of req] by (simp add: a)
qed

lemma demo_run_reachable: "k \<le> 6 \<Longrightarrow> demo_reachable 4 (demo_run k 4)"
proof (induction k)
  case 0
  have "is_returned (demo_turn 4)"
    by code_simp
  then have "demo_turn 4 = Returns (demo_run 0 4)"
    unfolding demo_run.simps by (rule or_else_returned)
  from request_taken_reachable [OF demo_manager_eq(1) this] show ?case .
next
  case (Suc k)
  have "list_all (\<lambda>k. is_returned (model_runner ''demo'' 0 (demo_run k 4))) [0..<6]"
    by code_simp
  then have "is_returned (model_runner ''demo'' 0 (demo_run k 4))"
    using Suc.prems unfolding list_all_iff by (metis Suc_le_eq atLeastLessThan_iff atLeastLessThan_upt le0)
  then have "model_runner ''demo'' 0 (demo_run k 4) = Returns (demo_run (Suc k) 4)"
    unfolding demo_run.simps Let_def by (rule or_else_returned)
  from server_reachable.step [OF Suc.IH server_step.runner [OF this]] Suc.prems show ?case
    by simp
qed

lemma demo_run_step: "k < 6 \<Longrightarrow> model_runner ''demo'' 0 (demo_run k 4) = Returns (demo_run (Suc k) 4)"
proof -
  assume k: "k < 6"
  have "list_all (\<lambda>k. is_returned (model_runner ''demo'' 0 (demo_run k 4))) [0..<6]"
    by code_simp
  then have "is_returned (model_runner ''demo'' 0 (demo_run k 4))"
    using k unfolding list_all_iff by simp
  then show ?thesis
    unfolding demo_run.simps Let_def by (rule or_else_returned)
qed

text \<open>A server whose two runners have come to wait for a payload.\<close>

definition demo_rest0 :: server where
  "demo_rest0 = or_else (model_runner ''demo'' 0 (demo_manager 4, new_infer_handler))
     (demo_manager 4, new_infer_handler)"

definition demo_rest :: server where
  "demo_rest = or_else (model_runner ''demo'' 1 demo_rest0) demo_rest0"

lemma demo_rest_reachable: "demo_reachable 4 demo_rest"
proof -
  have "is_returned (model_runner ''demo'' 0 (demo_manager 4, new_infer_handler))"
    by code_simp
  then have "model_runner ''demo'' 0 (demo_manager 4, new_infer_handler) = Returns demo_rest0"
    unfolding demo_rest0_def by (rule or_else_returned)
  note s0 = server_reachable.step [OF server_reachable.start [OF demo_manager_eq(1)] server_step.runner [OF this]]
  have "is_returned (model_runner ''demo'' 1 demo_rest0)"
    by code_simp
  then have "model_runner ''demo'' 1 demo_rest0 = Returns demo_rest"
    unfolding demo_rest_def by (rule or_else_returned)
  from server_reachable.step [OF s0 server_step.runner [OF this]] show ?thesis .
qed

lemma demo_rest_waits: "runners_wait demo_rest" "has_runners (fst demo_rest)"
  unfolding has_runners_def by code_simp+

text \<open>A server without calls that is shut down.\<close>

definition demo_stopped :: server where
  "demo_stopped =
     (demo_manager 4, StartNewRequest (new_infer_handler\<lparr>h_thread := Looping\<rparr>)
        \<lparr>srv_shut := True, cq_shut := True\<rparr>)"

lemma demo_stopped_steps:
  "queue_step act (s, new_infer_handler) (s, StartNewRequest (new_infer_handler\<lparr>h_thread := Looping\<rparr>))"
  "queue_step act (s, StartNewRequest (new_infer_handler\<lparr>h_thread := Looping\<rparr>))
    (s, (StartNewRequest (new_infer_handler\<lparr>h_thread := Looping\<rparr>))\<lparr>srv_shut := True\<rparr>)"
  "queue_step act (s, (StartNewRequest (new_infer_handler\<lparr>h_thread := Looping\<rparr>))\<lparr>srv_shut := True\<rparr>)
    (s, (StartNewRequest (new_infer_handler\<lparr>h_thread := Looping\<rparr>))\<lparr>srv_shut := True, cq_shut := True\<rparr>)"
proof -
  let ?h = "StartNewRequest (new_infer_handler\<lparr>h_thread := Looping\<rparr>)"
  show "queue_step act (s, new_infer_handler) (s, ?h)"
    by (rule queue_step.enter) (simp add: new_infer_handler_def Handler_Start_def)
  show "queue_step act (s, ?h) (s, ?h\<lparr>srv_shut := True\<rparr>)"
    by (rule queue_step.server_shutdown)
  have "step_of new_infer_handler t = None" for t
    by (simp add: new_infer_handler_def Handler_Start_def new_handler_def step_of_def)
  moreover have "cq_finishing new_infer_handler = []" "cq_events new_infer_handler = []"
    by (simp_all add: new_infer_handler_def Handler_Start_def new_handler_def)
  ultimately have "queue_step act (s, ?h\<lparr>srv_shut := True\<rparr>) (s, ?h\<lparr>srv_shut := True\<rparr>\<lparr>cq_shut := True\<rparr>)"
    by (intro queue_step.queue_shutdown) simp_all
  then show "queue_step act (s, ?h\<lparr>srv_shut := True\<rparr>) (s, ?h\<lparr>srv_shut := True, cq_shut := True\<rparr>)"
    by simp
qed

lemma demo_stopped_reachable: "demo_reachable 4 demo_stopped"
  unfolding demo_stopped_def
  using server_reachable.start [OF demo_manager_eq(1)] demo_stopped_steps [of Infer_TakeAction "demo_manager 4"]
  by (blast intro: server_reachable.step server_step.rpc)

text \<open>The configuration file without the sections that are optional.\<close>

definition demo_yaml :: "string yaml_api" where
  "demo_yaml =
     \<lparr>LoadFile = (\<lambda>_. Some ''root''), yget = (\<lambda>_ key. Some key),
      ydefined = (\<lambda>key. key \<in> {''model_repo_path'', ''grpc_server'', ''addr''}),
      as_string = (\<lambda>key. if key = ''model_repo_path'' then Some ''repo'' else None),
      as_bool = (\<lambda>_. None), as_int = (\<lambda>_. None)\<rparr>"

lemma demo_yaml_config: "LoadServerConfig demo_yaml ''server.yaml'' = Some (demo_server_config 0)"
  by (simp add: LoadServerConfig_def demo_yaml_def load_model_control_def load_grpc_server_def
      load_scheduler_def zero_server_config_def demo_server_config_def as_or_def)

text \<open>A scheduler that handles one payload and is stopped.\<close>

definition demo_schedule :: "(nat, nat) sched_event list" where
  "demo_schedule =
     [Ev_Test 0 7, Ev_Runner 0 Success, Ev_Push 0, Ev_Runner 0 Success, Ev_Stop, Ev_Flag 0,
      Ev_Runner 0 Success, Ev_Runner 0 Success, Ev_Break, Ev_Runner 0 Failed_Generic,
      Ev_Runner 0 Success, Ev_Runner 0 Success, Ev_Join]"

definition demo_sched_init :: "(nat, nat) sched_sys" where
  "demo_sched_init = sched_init \<lparr>sched_type = SCHEDULER_SIMPLE, max_queue_size = 2\<rparr> 1 0 1"

definition demo_sched :: "nat \<Rightarrow> (nat, nat) sched_sys" where
  "demo_sched k = (case sched_run (take k demo_schedule) demo_sched_init of
     Some s \<Rightarrow> s | None \<Rightarrow> demo_sched_init)"

lemma demo_sched_reachable:
  "sched_reachable \<lparr>sched_type = SCHEDULER_SIMPLE, max_queue_size = 2\<rparr> 1 0 1 (demo_sched k)"
proof -
  have "sched_reachable \<lparr>sched_type = SCHEDULER_SIMPLE, max_queue_size = 2\<rparr> 1 0 1 demo_sched_init"
    unfolding demo_sched_init_def by (rule sched_reachable.start)
  then show ?thesis
    using sched_run_reachable by (auto simp: demo_sched_def split: option.split)
qed

lemma demo_sched_end:
  "sys_stop (demo_sched 13) = Stopped" "sys_drained (demo_sched 13)"
  "sys_accepted (demo_sched 13) = [7]"
  "sys_completed (demo_sched 13) = [(7, Failed_Generic, ''Status = 1'')]"
  "sys_stop (demo_sched 9) = Joining"
  by code_simp+

end
