(* ===== verification/Server_Progress.thy ===== *)
theory Server_Progress
  imports Repository_Update
begin

text \<open>
  The infer handler together with the runners settles: when every model has a runner and
  the queues have room, the loop sees every event, the runners finish what it hands over,
  and gRPC sends the answers.
\<close>

section \<open>Handing over a request\<close>

definition able :: "size_t \<Rightarrow> server \<Rightarrow> bool" where
  "able c sh \<longleftrightarrow> server_ok sh \<and> has_runners (fst sh) \<and> queues_sized c (fst sh)"

lemma work_empty_mem:
  assumes "map_work m = {#}" "(n, ctx) \<in> set m"
  shows "sched_work (rc_scheduler ctx) = {#}"
  using split_list [OF assms(2)] assms(1) by auto

lemma InferAsync_runners:
  assumes "um_wf (mm_model_map mm)" "has_runners mm" "InferAsync p mm = Some (st, mm')"
  shows "has_runners mm'"
proof (cases "um_find (mm_model_map mm) (pl_model_name p)")
  case None
  then show ?thesis
    using assms by (simp add: InferAsync_def)
next
  case (Some ctx)
  then have "sc_threads (rc_scheduler ctx) \<noteq> []"
    using assms(1,2) um_find_set by (fastforce simp: has_runners_def)
  moreover obtain s' where "Enqueue p (rc_scheduler ctx) = Some (st, s')"
    "mm' = put_sched (pl_model_name p) ctx s' mm"
    using assms(3) Some by (auto simp: InferAsync_def put_sched_def split: option.splits)
  ultimately show ?thesis
    using assms(2) set_um_assign unfolding has_runners_def put_sched_def
    by (fastforce simp: Enqueue_def split: if_splits option.splits)
qed

lemma InferAsync_accepts:
  assumes "um_wf (mm_model_map mm)" "queues_sized c mm" "c \<noteq> 0" "map_work (mm_model_map mm) = {#}"
  shows "InferAsync p mm \<noteq> None"
proof (cases "um_find (mm_model_map mm) (pl_model_name p)")
  case None
  then show ?thesis
    by (simp add: InferAsync_def)
next
  case (Some ctx)
  then have "(pl_model_name p, ctx) \<in> set (mm_model_map mm)"
    using assms(1) um_find_set by metis
  then have "bq_buffer (sc_queue (rc_scheduler ctx)) = []"
    using work_empty_mem [OF assms(4)] by (simp add: sched_work_def)
  moreover have "0 < unat (bq_capacity (sc_queue (rc_scheduler ctx)))"
    using found_sized [OF assms(2) Some] assms(3) by (simp add: unat_gt_0)
  ultimately show ?thesis
    using Some by (simp add: InferAsync_def Enqueue_def push_def push_ready_def split: option.split)
qed

text \<open>With no work left, the next event is handled without blocking.\<close>

lemma event_returns:
  assumes ok: "able c (mm, h)" and idle: "map_work (mm_model_map mm) = {#}" and c: "c \<noteq> 0"
    and ev: "cq_events h = (t, b) # es"
  shows "\<exists>mm' h'. Process Infer_TakeAction t b (mm, h\<lparr>cq_events := es\<rparr>) = Returns (mm', h') \<and>
     has_runners mm' \<and> queues_sized c mm'"
proof -
  have ok': "handler_ok h" "um_wf (mm_model_map mm)" "has_runners mm" "queues_sized c mm"
    using ok by (simp_all add: able_def server_ok_def)
  from tags_live(1) [OF ok'(1), of t] ev obtain st where
    st: "h_states h t = Some st" "hs_step st = START \<or> hs_step st = FINISH"
    by (auto simp: cq_tags_def step_of_def)
  let ?h = "set_step t PROCESS (StartNewRequest (set_step t START (h\<lparr>cq_events := es\<rparr>)))"
  show ?thesis
  proof (cases "b \<and> hs_step st = START")
    case True
    then have new: "step_of ?h t = Some PROCESS"
      using begin_call_ok(2) [OF ok'(1), of t es] ev st by (simp add: step_of_def)
    then obtain hs where hs: "h_states ?h t = Some hs"
      using step_of_Some by blast
    obtain ctx where ctx: "GrpcInferRequestContext (hs_request hs) (hs_response hs) t = Inr ctx"
      using GrpcInferRequestContext_Inr [of "hs_request hs" "hs_response hs" t] by metis
    obtain s mm' where ia: "InferAsync (ctx_payload ctx) mm = Some (s, mm')"
      using InferAsync_accepts [OF ok'(2,4) c idle, of "ctx_payload ctx"] by auto
    then have "has_runners mm' \<and> queues_sized c mm'"
      using InferAsync_runners InferAsync_sized ok' by blast
    moreover have "\<exists>h'. Infer_TakeAction t (mm, ?h) = Returns (mm', h')"
      using hs ctx ia by (simp add: Infer_TakeAction_def InferenceCore_InferAsync_def)
    moreover have "Process Infer_TakeAction t b (mm, h\<lparr>cq_events := es\<rparr>) = Infer_TakeAction t (mm, ?h)"
      using True st by (simp add: Process_def Let_def)
    ultimately show ?thesis
      by metis
  next
    case False
    then show ?thesis
      using st ok' by (auto simp: Process_def Let_def)
  qed
qed

section \<open>Runners finish\<close>

definition same_loop :: "infer_handler \<Rightarrow> infer_handler \<Rightarrow> bool" where
  "same_loop h h' \<longleftrightarrow> same_flags h h' \<and> h_thread h' = h_thread h \<and> cq_events h' = cq_events h"

lemma runner_handler:
  assumes "model_runner n i sh = Returns sh'"
  shows "same_loop (snd sh) (snd sh')"
proof -
  obtain mm h mm' h' where sh: "sh = (mm, h)" "sh' = (mm', h')"
    by (cases sh; cases sh')
  from assms [unfolded sh] obtain out :: "(tag payload \<times> status \<times> string) option" where
    "out = None \<and> h' = h \<or> (\<exists>p st' m. out = Some (p, st', m) \<and> infer_callback p st' m h = Returns (Inr h'))"
    by (rule model_runner_Returns)
  then show ?thesis
    using infer_callback_Returns by (fastforce simp: sh same_flags_def same_loop_def)
qed

lemma runner_moves_able:
  assumes "runner_moves sh sh'" "able c sh"
  shows "able c sh'"
proof -
  obtain n i where r: "model_runner n i sh = Returns sh'"
    using assms(1) by (auto simp: runner_moves_def)
  obtain mm h mm' h' where sh: "sh = (mm, h)" "sh' = (mm', h')"
    by (cases sh; cases sh')
  show ?thesis
    using server_step_ok [OF server_step.runner [OF r]] model_runner_effect(2) [OF _ r [unfolded sh]]
      model_runner_sized [OF _ r [unfolded sh]] assms(2)
    by (simp add: able_def sh)
qed

lemma runners_moves_keep:
  assumes "runner_moves\<^sup>*\<^sup>* sh sh'" "able c sh"
  shows "able c sh' \<and> same_loop (snd sh) (snd sh')"
  using assms
proof (induction rule: rtranclp_induct)
  case base
  then show ?case
    by (simp add: same_loop_def same_flags_def)
next
  case (step y z)
  obtain n i where "model_runner n i y = Returns z"
    using step.hyps(2) by (auto simp: runner_moves_def)
  then show ?case
    using runner_handler [of n i y z] runner_moves_able [OF step.hyps(2)] step.IH [OF step.prems]
    by (simp add: same_loop_def same_flags_def)
qed

section \<open>The infer handler settles\<close>

definition infer_move :: "server \<Rightarrow> server \<Rightarrow> bool" where
  "infer_move sh sh' \<longleftrightarrow> loop_step Infer_TakeAction sh sh' \<or> runner_moves sh sh'"

lemma infer_move_runners: "runner_moves\<^sup>*\<^sup>* sh sh' \<Longrightarrow> infer_move\<^sup>*\<^sup>* sh sh'"
  by (rule rtranclp_mono [THEN predicate2D, rotated]) (auto simp: infer_move_def)

lemma infer_move_loop: "(loop_step Infer_TakeAction)\<^sup>*\<^sup>* sh sh' \<Longrightarrow> infer_move\<^sup>*\<^sup>* sh sh'"
  by (rule rtranclp_mono [THEN predicate2D, rotated]) (auto simp: infer_move_def)

lemma loop_step_able_ok: "loop_step Infer_TakeAction sh sh' \<Longrightarrow> server_ok sh \<Longrightarrow> server_ok sh'"
  unfolding loop_step_def by (blast intro: server_step_ok server_step.rpc)

lemma runners_rest:
  assumes "able c sh"
  shows "\<exists>sh'. infer_move\<^sup>*\<^sup>* sh sh' \<and> able c sh' \<and> map_work (mm_model_map (fst sh')) = {#} \<and>
    same_loop (snd sh) (snd sh')"
proof -
  have "server_ok sh" "has_runners (fst sh)"
    using assms by (simp_all add: able_def)
  from runners_finish [OF this] obtain sh' where "runner_moves\<^sup>*\<^sup>* sh sh'"
    "map_work (mm_model_map (fst sh')) = {#}"
    by blast
  then show ?thesis
    using runners_moves_keep [OF _ assms] infer_move_runners by blast
qed

lemma infer_sees_events:
  assumes "able c sh" "c \<noteq> 0" "h_thread (snd sh) = Looping"
  shows "\<exists>sh'. infer_move\<^sup>*\<^sup>* sh sh' \<and> able c sh' \<and> map_work (mm_model_map (fst sh')) = {#} \<and>
    h_thread (snd sh') = Looping \<and> cq_events (snd sh') = [] \<and> same_flags (snd sh) (snd sh')"
  using assms(1,3)
proof (induction "cq_events (snd sh)" arbitrary: sh)
  case Nil
  then show ?case
    using runners_rest [OF Nil.prems(1)] by (auto simp: same_loop_def)
next
  case (Cons e es)
  from runners_rest [OF Cons.prems(1)] obtain mm h where
    r: "infer_move\<^sup>*\<^sup>* sh (mm, h)" "able c (mm, h)" "map_work (mm_model_map mm) = {#}"
    "same_loop (snd sh) h"
    by (metis prod.collapse)
  obtain t b where ev: "cq_events h = (t, b) # es"
    using Cons.hyps(2) r(4) by (metis same_loop_def prod.exhaust)
  from event_returns [OF r(2,3) assms(2) ev] obtain mm1 h1 where
    p: "Process Infer_TakeAction t b (mm, h\<lparr>cq_events := es\<rparr>) = Returns (mm1, h1)"
    "has_runners mm1" "queues_sized c mm1"
    by blast
  have ok: "handler_ok h" "server_ok (mm, h)" "h_thread h = Looping"
    using r(2,4) Cons.prems(2) by (simp_all add: able_def server_ok_def same_loop_def)
  note step = infer_h.next_loop_step [OF ok(1,3) ev p(1)]
  have "able c (mm1, h1)"
    using loop_step_able_ok [OF step(1) ok(2)] p(2,3) by (simp add: able_def)
  moreover have "es = cq_events (snd (mm1, h1))" "h_thread (snd (mm1, h1)) = Looping"
    using step(3,4) by simp_all
  ultimately obtain sh' where sh': "infer_move\<^sup>*\<^sup>* (mm1, h1) sh'" "able c sh'"
    "map_work (mm_model_map (fst sh')) = {#}" "h_thread (snd sh') = Looping"
    "cq_events (snd sh') = []" "same_flags h1 (snd sh')"
    using Cons.hyps(1) [of "(mm1, h1)"] by auto
  have "infer_move (mm, h) (mm1, h1)"
    using step(1) by (simp add: infer_move_def)
  then have "infer_move\<^sup>*\<^sup>* sh sh'"
    using r(1) sh'(1) by (meson converse_rtranclp_into_rtranclp rtranclp_trans)
  then show ?case
    using sh'(2-6) r(4) step(5) by (intro exI [of _ sh']) (simp add: same_loop_def same_flags_def)
qed

lemma infer_settles:
  assumes "able c sh" "c \<noteq> 0" "h_thread (snd sh) \<in> {Entering, Looping}"
  shows "\<exists>sh'. infer_move\<^sup>*\<^sup>* sh sh' \<and> calls_over (snd sh') \<and> h_thread (snd sh') = Looping \<and>
    same_flags (snd sh) (snd sh')"
proof -
  have loop: ?thesis if a: "able c sh1" "h_thread (snd sh1) = Looping"
    and steps: "infer_move\<^sup>*\<^sup>* sh sh1" "same_flags (snd sh) (snd sh1)" for sh1
  proof -
    from infer_sees_events [OF a(1) assms(2) a(2)] obtain mm h where
      r: "infer_move\<^sup>*\<^sup>* sh1 (mm, h)" "able c (mm, h)" "map_work (mm_model_map mm) = {#}"
      "h_thread h = Looping" "cq_events h = []" "same_flags (snd sh1) h"
      by (metis prod.collapse)
    then have "handler_ok h" "no_process h"
      by (auto simp: able_def server_ok_def no_process_def split: if_splits)
    from infer_h.send_answers [OF this r(4), of mm] r(5) obtain h' where
      "(loop_step Infer_TakeAction)\<^sup>*\<^sup>* (mm, h) (mm, h')" "calls_over h'" "h_thread h' = Looping"
      "same_flags h h'"
      by auto
    then show ?thesis
      using rtranclp_trans [OF rtranclp_trans [OF steps(1) r(1)] infer_move_loop] steps(2) r(6)
      by (intro exI [of _ "(mm, h')"]) (simp add: same_flags_def)
  qed
  obtain mm h where sh: "sh = (mm, h)"
    by (cases sh)
  show ?thesis
  proof (cases "h_thread h = Looping")
    case True
    then show ?thesis
      using loop [of sh] assms(1) by (simp add: sh same_flags_def)
  next
    case False
    then have e: "h_thread h = Entering"
      using assms(3) by (simp add: sh)
    let ?h = "StartNewRequest (h\<lparr>h_thread := Looping\<rparr>)"
    have step: "loop_step Infer_TakeAction (mm, h) (mm, ?h)"
      by (rule enter_loop_step [OF e])
    then have "able c (mm, ?h)"
      using loop_step_able_ok [OF step] assms(1) by (simp add: able_def sh)
    moreover have "infer_move\<^sup>*\<^sup>* sh (mm, ?h)"
      using step by (auto simp: infer_move_def sh)
    ultimately show ?thesis
      using loop [of "(mm, ?h)"] by (simp add: sh same_flags_def)
  qed
qed

end
