(* ===== verification/Core_System.thy ===== *)
theory Core_System
  imports Server_Progress
begin

text \<open>
  The whole service: \<open>InferenceCore\<close> with its three event loops, the runners and a thread
  that calls \<open>InferenceCore::Stop\<close>. It refines the server of \<open>Server_System\<close>, and each of the
  other two handlers refines the handler system; a stop can always be brought to its end.
  The repository is not updated here.
\<close>

section \<open>Steps\<close>

text \<open>
  Where the stopping thread is: not in \<open>Stop\<close>; in \<open>Server::Shutdown\<close>; after the shutdown of
  the three queues, joining; returned.
\<close>

datatype core_pc = Serving | Server_Shut | Queues_Shut | Stop_Returned

type_synonym core_sys = "inference_core \<times> core_pc"

definition infer_state :: "inference_core \<Rightarrow> server" where
  "infer_state c = (ic_manager c, gs_infer (ic_grpc c))"

definition status_state :: "inference_core \<Rightarrow> core_manager \<times> status_handler" where
  "status_state c = (ic_manager c, gs_status (ic_grpc c))"

definition health_state :: "inference_core \<Rightarrow> core_manager \<times> health_handler" where
  "health_state c = (ic_manager c, gs_health (ic_grpc c))"

definition put_infer :: "server \<Rightarrow> inference_core \<Rightarrow> inference_core" where
  "put_infer sh c = c\<lparr>ic_manager := fst sh, ic_grpc := (ic_grpc c)\<lparr>gs_infer := snd sh\<rparr>\<rparr>"

definition put_status :: "core_manager \<times> status_handler \<Rightarrow> inference_core \<Rightarrow> inference_core" where
  "put_status sh c = c\<lparr>ic_manager := fst sh, ic_grpc := (ic_grpc c)\<lparr>gs_status := snd sh\<rparr>\<rparr>"

definition put_health :: "core_manager \<times> health_handler \<Rightarrow> inference_core \<Rightarrow> inference_core" where
  "put_health sh c = c\<lparr>ic_manager := fst sh, ic_grpc := (ic_grpc c)\<lparr>gs_health := snd sh\<rparr>\<rparr>"

text \<open>
  \<open>Server::Shutdown\<close> is called on the pointer \<open>BuildAndStart\<close> returned, so it must not be
  null. It returns when the calls of all three services are over.
\<close>

inductive core_step :: "core_sys \<Rightarrow> core_sys \<Rightarrow> bool" where
  infer: "loop_step Infer_TakeAction (infer_state c) sh \<Longrightarrow> core_step (c, pc) (put_infer sh c, pc)"
| status: "loop_step Status_TakeAction (status_state c) sh \<Longrightarrow> core_step (c, pc) (put_status sh c, pc)"
| health: "loop_step Health_TakeAction (health_state c) sh \<Longrightarrow> core_step (c, pc) (put_health sh c, pc)"
| runner: "model_runner n i (infer_state c) = Returns sh \<Longrightarrow> core_step (c, pc) (put_infer sh c, pc)"
| stop_server: "InferenceCore_Stop_refused c = None \<Longrightarrow> GrpcServer_Stop_refused (ic_grpc c) = None \<Longrightarrow>
    gs_listening (ic_grpc c) \<Longrightarrow>
    core_step (c, Serving) (c\<lparr>ic_grpc := GrpcServer_Stop_server (ic_grpc c)\<rparr>, Server_Shut)"
| stop_queues: "calls_over (gs_infer (ic_grpc c)) \<Longrightarrow> calls_over (gs_status (ic_grpc c)) \<Longrightarrow>
    calls_over (gs_health (ic_grpc c)) \<Longrightarrow>
    core_step (c, Server_Shut) (c\<lparr>ic_grpc := GrpcServer_Stop_queues (ic_grpc c)\<rparr>, Queues_Shut)"
| stop_end: "InferenceCore_Stop_end c = Some (Inr (st, c')) \<Longrightarrow>
    core_step (c, Queues_Shut) (c', Stop_Returned)"

inductive core_reachable ::
  "boost_fs \<Rightarrow> (string \<Rightarrow> model_config option) \<Rightarrow> server_config \<Rightarrow> (string \<Rightarrow> bool) \<Rightarrow> core_sys \<Rightarrow> bool"
  for B parse cfg bind_port where
  start: "InferenceCore B parse (Some cfg) = Inr c0 \<Longrightarrow>
    InferenceCore_Start bind_port c0 = Inr (Success, c) \<Longrightarrow>
    core_reachable B parse cfg bind_port (c, Serving)"
| step: "core_reachable B parse cfg bind_port x \<Longrightarrow> core_step x y \<Longrightarrow>
    core_reachable B parse cfg bind_port y"

lemma put_sel [simp]:
  "infer_state (put_infer sh c) = sh" "infer_state (put_status ss c) = (fst ss, gs_infer (ic_grpc c))"
  "infer_state (put_health hh c) = (fst hh, gs_infer (ic_grpc c))"
  "status_state (put_infer sh c) = (fst sh, gs_status (ic_grpc c))" "status_state (put_status ss c) = ss"
  "status_state (put_health hh c) = (fst hh, gs_status (ic_grpc c))"
  "health_state (put_infer sh c) = (fst sh, gs_health (ic_grpc c))"
  "health_state (put_status ss c) = (fst ss, gs_health (ic_grpc c))" "health_state (put_health hh c) = hh"
  "ic_running (put_infer sh c) = ic_running c" "ic_running (put_status ss c) = ic_running c"
  "ic_running (put_health hh c) = ic_running c"
  "gs_running (ic_grpc (put_infer sh c)) = gs_running (ic_grpc c)"
  "gs_running (ic_grpc (put_status ss c)) = gs_running (ic_grpc c)"
  "gs_running (ic_grpc (put_health hh c)) = gs_running (ic_grpc c)"
  "gs_listening (ic_grpc (put_infer sh c)) = gs_listening (ic_grpc c)"
  "gs_listening (ic_grpc (put_status ss c)) = gs_listening (ic_grpc c)"
  "gs_listening (ic_grpc (put_health hh c)) = gs_listening (ic_grpc c)"
  by (cases sh; cases ss; cases hh;
      simp add: infer_state_def status_state_def health_state_def put_infer_def put_status_def put_health_def)+

section \<open>Where a stop is\<close>

definition shut_flags :: "bool \<Rightarrow> bool \<Rightarrow> ('req, 'resp) handler \<Rightarrow> bool" where
  "shut_flags a b h \<longleftrightarrow> (srv_shut h \<longleftrightarrow> a) \<and> (cq_shut h \<longleftrightarrow> b)"

definition all_flags :: "bool \<Rightarrow> bool \<Rightarrow> inference_core \<Rightarrow> bool" where
  "all_flags a b c \<longleftrightarrow> shut_flags a b (gs_infer (ic_grpc c)) \<and> shut_flags a b (gs_status (ic_grpc c)) \<and>
     shut_flags a b (gs_health (ic_grpc c))"

text \<open>
  While \<open>Stop\<close> has not returned: the flags fit the place, both objects still run, the
  event loops exist, and the status and health calls are answered in the step they arrive.
\<close>

definition core_ok :: "core_sys \<Rightarrow> bool" where
  "core_ok x \<longleftrightarrow>
     (let (c, pc) = x; g = ic_grpc c in
        all_flags (pc \<noteq> Serving) (pc = Queues_Shut) c \<and> ic_running c \<and> gs_running g \<and>
        h_thread (gs_infer g) \<noteq> No_Thread \<and> h_thread (gs_status g) \<noteq> No_Thread \<and>
        h_thread (gs_health g) \<noteq> No_Thread \<and>
        handler_ok (gs_infer g) \<and> handler_ok (gs_status g) \<and> handler_ok (gs_health g) \<and>
        no_process (gs_status g) \<and> no_process (gs_health g) \<and>
        all_answers status_answer (gs_status g) \<and> all_answers health_answer (gs_health g))"

lemma started_handler:
  "no_process (Handler_Start (new_handler cleared))"
  "shut_flags False False (Handler_Start (new_handler cleared))"
  "h_thread (Handler_Start (new_handler cleared)) \<noteq> No_Thread"
  "all_answers P (Handler_Start (new_handler cleared))"
  by (simp_all add: all_answers_def no_process_def shut_flags_def Handler_Start_def new_handler_def step_of_def)

lemma core_start:
  assumes "InferenceCore B parse (Some cfg) = Inr c0" "InferenceCore_Start bind_port c0 = Inr (Success, c)"
  shows "server_reachable B parse cfg (infer_state c)" "core_ok (c, Serving)"
proof -
  obtain mm where mm: "ModelManager B parse cfg = Inr mm" "ic_manager c0 = mm"
    "ic_grpc c0 = GrpcServer (mm_server_cfg mm)" "ic_running c0 = False"
    using assms(1)
    by (auto simp: InferenceCore_def ModelManager_Create_def map_sum_def GrpcServer_Create_def
        split: sum.splits)
  have c: "ic_manager c = mm" "ic_running c" "gs_running (ic_grpc c)"
    "gs_infer (ic_grpc c) = new_infer_handler"
    "gs_status (ic_grpc c) = Handler_Start (new_handler (\<lparr>srq_model_name = ''''\<rparr>, empty_status_response))"
    "gs_health (ic_grpc c) = Handler_Start (new_handler (\<lparr>hrq_mode = ''''\<rparr>, empty_health_response))"
    using assms(2) mm
    by (auto simp: InferenceCore_Start_def GrpcServer_Start_def GrpcServer_def new_infer_handler_def
        new_handler_def)
  show "server_reachable B parse cfg (infer_state c)"
    using server_reachable.start [OF mm(1)] c by (simp add: infer_state_def)
  show "core_ok (c, Serving)"
    using c by (simp add: core_ok_def all_flags_def new_infer_handler_def started_handler handler_ok_init)
qed

lemma shut_flags_same: "same_flags h h' \<Longrightarrow> shut_flags a b h' = shut_flags a b h"
  by (simp add: same_flags_def shut_flags_def)

lemma shutdown_flag_ok:
  "handler_ok h \<Longrightarrow> handler_ok (h\<lparr>srv_shut := True\<rparr>)"
  "handler_ok h \<Longrightarrow> calls_over h \<Longrightarrow> srv_shut h \<Longrightarrow> handler_ok (h\<lparr>cq_shut := True\<rparr>)"
  "no_process (h\<lparr>srv_shut := True\<rparr>) = no_process h" "no_process (h\<lparr>cq_shut := True\<rparr>) = no_process h"
  using server_shutdown_ok queue_shutdown_ok by (auto simp: calls_over_def no_process_def)

lemma core_step_ok:
  assumes step: "core_step (c, pc) (c', pc')" and ok: "core_ok (c, pc)"
    and srv: "server_ok (infer_state c)" and pc': "pc' \<noteq> Stop_Returned"
  shows "core_ok (c', pc')"
  using step
proof cases
  case (infer sh)
  obtain mm h where sh: "sh = (mm, h)"
    by (cases sh)
  note st = infer(3) [unfolded infer_state_def sh]
  have "handler_ok h" "h_thread h \<noteq> No_Thread" "same_flags (gs_infer (ic_grpc c)) h"
    using infer_h.queue_step_ok infer_h.loop_step_thread [OF st] st ok
    by (auto simp: loop_step_def core_ok_def Let_def)
  then show ?thesis
    using ok infer(1,2)
    by (simp add: core_ok_def Let_def all_flags_def put_infer_def sh shut_flags_same)
next
  case (status sh)
  obtain mm h where sh: "sh = (mm, h)"
    by (cases sh)
  note st = status(3) [unfolded status_state_def sh]
  have "handler_ok h" "no_process h" "h_thread h \<noteq> No_Thread" "same_flags (gs_status (ic_grpc c)) h"
    "all_answers status_answer h"
    using status_h.queue_step_ok status_h.queue_step_sync status_h.loop_step_thread [OF st] st ok
    by (auto simp: loop_step_def core_ok_def Let_def)
  then show ?thesis
    using ok status(1,2)
    by (simp add: core_ok_def Let_def all_flags_def put_status_def sh shut_flags_same)
next
  case (health sh)
  obtain mm h where sh: "sh = (mm, h)"
    by (cases sh)
  note st = health(3) [unfolded health_state_def sh]
  have "handler_ok h" "no_process h" "h_thread h \<noteq> No_Thread" "same_flags (gs_health (ic_grpc c)) h"
    "all_answers health_answer h"
    using health_h.queue_step_ok health_h.queue_step_sync health_h.loop_step_thread [OF st] st ok
    by (auto simp: loop_step_def core_ok_def Let_def)
  then show ?thesis
    using ok health(1,2)
    by (simp add: core_ok_def Let_def all_flags_def put_health_def sh shut_flags_same)
next
  case (runner n i sh)
  obtain mm h where sh: "sh = (mm, h)"
    by (cases sh)
  have "server_ok sh"
    using server_step_ok [OF server_step.runner [OF runner(3)] srv] .
  then have "handler_ok h"
    by (simp add: server_ok_def sh)
  then show ?thesis
    using ok runner(1,2) runner_handler [OF runner(3)] shut_flags_same [of "gs_infer (ic_grpc c)" h]
    by (simp add: same_loop_def core_ok_def Let_def all_flags_def put_infer_def infer_state_def sh)
next
  case stop_server
  then show ?thesis
    using ok
    by (simp add: core_ok_def Let_def all_flags_def shut_flags_def GrpcServer_Stop_server_def
        shutdown_flag_ok)
next
  case stop_queues
  then show ?thesis
    using ok
    by (simp add: core_ok_def Let_def all_flags_def shut_flags_def GrpcServer_Stop_queues_def
        shutdown_flag_ok)
next
  case stop_end
  then show ?thesis
    using pc' by simp
qed

section \<open>The parts see their own systems\<close>

lemma loop_step_server: "loop_step Infer_TakeAction sh sh' \<Longrightarrow> server_step sh sh'"
  by (simp add: loop_step_def server_step.rpc)

lemma core_step_server:
  assumes step: "core_step (c, pc) (c', pc')" and ok: "core_ok (c, pc)" and pc': "pc' \<noteq> Stop_Returned"
  shows "server_step (infer_state c) (infer_state c') \<or> infer_state c' = infer_state c"
  using step
proof cases
  case (infer sh)
  then show ?thesis
    using loop_step_server by simp
next
  case (status sh)
  then have "fst sh = ic_manager c"
    using status_h.queue_step_sync [of "ic_manager c" "gs_status (ic_grpc c)" "fst sh" "snd sh"] ok
    by (simp add: loop_step_def status_state_def core_ok_def Let_def)
  then show ?thesis
    using status(1) by (simp add: infer_state_def put_status_def)
next
  case (health sh)
  then have "fst sh = ic_manager c"
    using health_h.queue_step_sync [of "ic_manager c" "gs_health (ic_grpc c)" "fst sh" "snd sh"] ok
    by (simp add: loop_step_def health_state_def core_ok_def Let_def)
  then show ?thesis
    using health(1) by (simp add: infer_state_def put_health_def)
next
  case (runner n i sh)
  then show ?thesis
    using server_step.runner by simp
next
  case stop_server
  then show ?thesis
    using server_step.rpc [OF queue_step.server_shutdown]
    by (simp add: infer_state_def GrpcServer_Stop_server_def)
next
  case stop_queues
  have "queue_step Infer_TakeAction (ic_manager c, gs_infer (ic_grpc c))
      (ic_manager c, (gs_infer (ic_grpc c))\<lparr>cq_shut := True\<rparr>)"
    using stop_queues ok
    by (intro queue_step.queue_shutdown)
      (auto simp: calls_over_def core_ok_def Let_def all_flags_def shut_flags_def)
  then show ?thesis
    using server_step.rpc stop_queues by (simp add: infer_state_def GrpcServer_Stop_queues_def)
next
  case stop_end
  then show ?thesis
    using pc' by simp
qed

lemma core_reachable_ok:
  "core_reachable B parse cfg bind_port x \<Longrightarrow> snd x \<noteq> Stop_Returned \<Longrightarrow>
   core_ok x \<and> server_reachable B parse cfg (infer_state (fst x))"
proof (induction rule: core_reachable.induct)
  case (start c0 c)
  then show ?case
    using core_start by simp
next
  case (step x y)
  obtain c pc c' pc' where xy: "x = (c, pc)" "y = (c', pc')"
    by (cases x; cases y)
  have "pc \<noteq> Stop_Returned"
    using step.hyps(2) step.prems by (auto simp: xy elim: core_step.cases)
  then have c: "core_ok (c, pc)" "server_reachable B parse cfg (infer_state c)"
    using step.IH by (simp_all add: xy)
  have "server_ok (infer_state c)"
    using server_reachable_ok [OF c(2)] .
  then have "core_ok (c', pc')" "server_step (infer_state c) (infer_state c') \<or> infer_state c' = infer_state c"
    using core_step_ok [OF step.hyps(2) [unfolded xy] c(1)]
      core_step_server [OF step.hyps(2) [unfolded xy] c(1)] step.prems by (simp_all add: xy)
  then show ?case
    using c(2) server_reachable.step [OF c(2), of "infer_state c'"] by (elim disjE) (simp_all add: xy)
qed

section \<open>A stop comes to its end\<close>

lemma put_same [simp]:
  "put_infer (infer_state c) c = c" "put_status (status_state c) c = c" "put_health (health_state c) c = c"
  by (simp_all add: put_infer_def put_status_def put_health_def infer_state_def status_state_def
      health_state_def)

lemma put_put [simp]:
  "put_infer sh (put_infer sh1 c) = put_infer sh c" "put_status ss (put_status ss1 c) = put_status ss c"
  "put_health hh (put_health hh1 c) = put_health hh c"
  by (simp_all add: put_infer_def put_status_def put_health_def)

lemma infer_moves_core:
  assumes "infer_move\<^sup>*\<^sup>* (infer_state c) sh"
  shows "core_step\<^sup>*\<^sup>* (c, pc) (put_infer sh c, pc)"
  using assms
proof (induction rule: rtranclp_induct)
  case (step y z)
  have "core_step (put_infer y c, pc) (put_infer z (put_infer y c), pc)"
    using step.hyps(2) core_step.infer [of "put_infer y c" z pc] core_step.runner [of _ _ "put_infer y c" z pc]
    by (auto simp: infer_move_def runner_moves_def simp del: put_put)
  then show ?case
    using step.IH by simp
qed simp

lemma status_steps_core:
  assumes "(loop_step Status_TakeAction)\<^sup>*\<^sup>* (status_state c) sh"
  shows "core_step\<^sup>*\<^sup>* (c, pc) (put_status sh c, pc)"
  using assms
proof (induction rule: rtranclp_induct)
  case (step y z)
  have "core_step (put_status y c, pc) (put_status z (put_status y c), pc)"
    using step.hyps(2) core_step.status [of "put_status y c" z pc] by (simp del: put_put)
  then show ?case
    using step.IH by simp
qed simp

lemma health_steps_core:
  assumes "(loop_step Health_TakeAction)\<^sup>*\<^sup>* (health_state c) sh"
  shows "core_step\<^sup>*\<^sup>* (c, pc) (put_health sh c, pc)"
  using assms
proof (induction rule: rtranclp_induct)
  case (step y z)
  have "core_step (put_health y c, pc) (put_health z (put_health y c), pc)"
    using step.hyps(2) core_step.health [of "put_health y c" z pc] by (simp del: put_put)
  then show ?case
    using step.IH by simp
qed simp

lemma core_steps_reachable:
  "core_step\<^sup>*\<^sup>* x y \<Longrightarrow> core_reachable B parse cfg bind_port x \<Longrightarrow> core_reachable B parse cfg bind_port y"
  by (induction rule: rtranclp_induct) (auto intro: core_reachable.step)

text \<open>What the process has after a stop: no model, no backend, no call state, no thread.\<close>

definition stopped_core :: "inference_core \<Rightarrow> bool" where
  "stopped_core c \<longleftrightarrow> \<not> ic_running c \<and> \<not> gs_running (ic_grpc c) \<and>
     mm_model_map (ic_manager c) = [] \<and> (\<forall>a. mm_heap (ic_manager c) a = None) \<and>
     (\<forall>t. h_states (gs_infer (ic_grpc c)) t = None) \<and> (\<forall>t. h_states (gs_status (ic_grpc c)) t = None) \<and>
     (\<forall>t. h_states (gs_health (ic_grpc c)) t = None) \<and>
     h_thread (gs_infer (ic_grpc c)) = No_Thread \<and> h_thread (gs_status (ic_grpc c)) = No_Thread \<and>
     h_thread (gs_health (ic_grpc c)) = No_Thread"

lemma joined_stop:
  assumes "h_thread (gs_infer (ic_grpc c)) = event_loop.Returned" "h_thread (gs_status (ic_grpc c)) = event_loop.Returned"
    "h_thread (gs_health (ic_grpc c)) = event_loop.Returned" "manager_wf (ic_manager c)"
    "\<forall>t. h_states (gs_infer (ic_grpc c)) t = None" "\<forall>t. h_states (gs_status (ic_grpc c)) t = None"
    "\<forall>t. h_states (gs_health (ic_grpc c)) t = None"
  shows "\<exists>c'. InferenceCore_Stop_end c = Some (Inr (Success, c')) \<and> stopped_core c'"
proof -
  obtain mm where mm: "ModelManager_Stop (ic_manager c) = (Success, mm)" "mm_model_map mm = []"
    by (simp add: ModelManager_Stop_def Let_def)
  then have "mm_heap mm a = None" for a
    using Stop_frees_all [OF assms(4)] by (metis snd_conv)
  then show ?thesis
    using assms(1-3,5-7) mm
    by (simp add: InferenceCore_Stop_end_def GrpcServer_Stop_join_def Handler_Stop_def stopped_core_def)
qed

text \<open>The event loops have made their first requests.\<close>

definition loops_entered :: "inference_core \<Rightarrow> bool" where
  "loops_entered c \<longleftrightarrow> h_thread (gs_infer (ic_grpc c)) \<noteq> Entering \<and>
     h_thread (gs_status (ic_grpc c)) \<noteq> Entering \<and> h_thread (gs_health (ic_grpc c)) \<noteq> Entering"

lemma stop_from_queues:
  assumes ok: "core_ok (c, Queues_Shut)" and wf: "manager_wf (ic_manager c)" and entered: "loops_entered c"
  shows "\<exists>c'. core_step\<^sup>*\<^sup>* (c, Queues_Shut) (c', Stop_Returned) \<and> stopped_core c'"
proof -
  let ?mm = "ic_manager c" and ?g = "ic_grpc c"
  have h: "handler_ok (gs_infer ?g)" "cq_shut (gs_infer ?g)" "handler_ok (gs_status ?g)"
    "cq_shut (gs_status ?g)" "handler_ok (gs_health ?g)" "cq_shut (gs_health ?g)"
    using ok by (simp_all add: core_ok_def Let_def all_flags_def shut_flags_def)
  have loops: "h_thread (gs_infer ?g) \<in> {Looping, event_loop.Returned}"
    "h_thread (gs_status ?g) \<in> {Looping, event_loop.Returned}"
    "h_thread (gs_health ?g) \<in> {Looping, event_loop.Returned}"
    using ok entered event_loop.exhaust [of "h_thread (gs_infer ?g)"]
      event_loop.exhaust [of "h_thread (gs_status ?g)"] event_loop.exhaust [of "h_thread (gs_health ?g)"]
    by (auto simp: core_ok_def loops_entered_def Let_def)
  from infer_h.drains_by_loop [OF h(1,2) loops(1), of ?mm] obtain hi where
    hi: "(loop_step Infer_TakeAction)\<^sup>*\<^sup>* (infer_state c) (?mm, hi)" "h_thread hi = event_loop.Returned"
    "\<forall>t. h_states hi t = None"
    by (auto simp: infer_state_def)
  let ?c1 = "put_infer (?mm, hi) c"
  from status_h.drains_by_loop [OF h(3,4) loops(2), of ?mm] obtain hs where
    hs: "(loop_step Status_TakeAction)\<^sup>*\<^sup>* (status_state ?c1) (?mm, hs)" "h_thread hs = event_loop.Returned"
    "\<forall>t. h_states hs t = None"
    by auto
  let ?c2 = "put_status (?mm, hs) ?c1"
  from health_h.drains_by_loop [OF h(5,6) loops(3), of ?mm] obtain hh where
    hh: "(loop_step Health_TakeAction)\<^sup>*\<^sup>* (?mm, gs_health ?g) (?mm, hh)" "h_thread hh = event_loop.Returned"
    "\<forall>t. h_states hh t = None"
    by blast
  have hh': "(loop_step Health_TakeAction)\<^sup>*\<^sup>* (health_state ?c2) (?mm, hh)"
    using hh(1) by (simp add: health_state_def put_infer_def put_status_def)
  let ?c3 = "put_health (?mm, hh) ?c2"
  have "\<exists>c'. InferenceCore_Stop_end ?c3 = Some (Inr (Success, c')) \<and> stopped_core c'"
    by (rule joined_stop) (use hi hs hh wf in \<open>simp_all add: put_infer_def put_status_def put_health_def\<close>)
  then obtain c' where c': "InferenceCore_Stop_end ?c3 = Some (Inr (Success, c'))" "stopped_core c'"
    by blast
  have "core_step\<^sup>*\<^sup>* (c, Queues_Shut) (?c3, Queues_Shut)"
    using infer_moves_core [OF infer_move_loop [OF hi(1)]] status_steps_core [OF hs(1)]
      health_steps_core [OF hh'] by (meson rtranclp_trans)
  then have "core_step\<^sup>*\<^sup>* (c, Queues_Shut) (c', Stop_Returned)"
    using core_step.stop_end [OF c'(1)] by (rule rtranclp.rtrancl_into_rtrancl)
  then show ?thesis
    using c'(2) by blast
qed

lemma able_core:
  assumes "server_reachable B parse cfg (infer_state c)" "has_runners (ic_manager c)"
  shows "able (scast (max_queue_size (scheduler_cfg cfg))) (infer_state c)"
  using server_reachable_ok [OF assms(1)] server_reachable_sized [OF assms(1)] assms(2)
  by (simp add: able_def infer_state_def)

text \<open>In \<open>Server::Shutdown\<close>: every call is brought to its end, and then the queues are shut.\<close>

lemma stop_from_shutdown:
  assumes r: "core_reachable B parse cfg bind_port (c, Server_Shut)" and run: "has_runners (ic_manager c)"
    and sz: "scast (max_queue_size (scheduler_cfg cfg)) \<noteq> (0 :: size_t)"
  shows "\<exists>c'. core_step\<^sup>*\<^sup>* (c, Server_Shut) (c', Stop_Returned) \<and> stopped_core c'"
proof -
  let ?g = "ic_grpc c"
  have ok: "core_ok (c, Server_Shut)" and srv: "server_reachable B parse cfg (infer_state c)"
    using core_reachable_ok [OF r] by simp_all
  have h: "handler_ok (gs_status ?g)" "no_process (gs_status ?g)" "handler_ok (gs_health ?g)"
    "no_process (gs_health ?g)"
    using ok by (simp_all add: core_ok_def Let_def)
  have thr: "h_thread (gs_infer ?g) \<in> {Entering, Looping}" "h_thread (gs_status ?g) \<in> {Entering, Looping}"
    "h_thread (gs_health ?g) \<in> {Entering, Looping}"
    using ok open_thread [of "gs_infer ?g"] open_thread [of "gs_status ?g"] open_thread [of "gs_health ?g"]
    by (simp_all add: core_ok_def Let_def all_flags_def shut_flags_def)
  from infer_settles [OF able_core [OF srv run] sz] thr(1) obtain mm hi where
    hi: "infer_move\<^sup>*\<^sup>* (infer_state c) (mm, hi)" "calls_over hi" "h_thread hi = Looping"
    by (auto simp: infer_state_def)
  let ?c1 = "put_infer (mm, hi) c"
  from status_h.settles [OF h(1,2) thr(2), of mm] obtain hs where
    hs: "(loop_step Status_TakeAction)\<^sup>*\<^sup>* (status_state ?c1) (mm, hs)" "calls_over hs" "h_thread hs = Looping"
    by auto
  let ?c2 = "put_status (mm, hs) ?c1"
  from health_h.settles [OF h(3,4) thr(3), of mm] obtain hh where
    hh: "(loop_step Health_TakeAction)\<^sup>*\<^sup>* (mm, gs_health ?g) (mm, hh)" "calls_over hh" "h_thread hh = Looping"
    by blast
  have hh': "(loop_step Health_TakeAction)\<^sup>*\<^sup>* (health_state ?c2) (mm, hh)"
    using hh(1) by (simp add: health_state_def put_infer_def put_status_def)
  let ?c3 = "put_health (mm, hh) ?c2"
  have g3: "ic_manager ?c3 = mm" "gs_infer (ic_grpc ?c3) = hi" "gs_status (ic_grpc ?c3) = hs"
    "gs_health (ic_grpc ?c3) = hh"
    by (simp_all add: put_infer_def put_status_def put_health_def)
  let ?c4 = "?c3\<lparr>ic_grpc := GrpcServer_Stop_queues (ic_grpc ?c3)\<rparr>"
  have "core_step\<^sup>*\<^sup>* (c, Server_Shut) (?c3, Server_Shut)"
    using infer_moves_core [OF hi(1)] status_steps_core [OF hs(1)] health_steps_core [OF hh']
    by (meson rtranclp_trans)
  moreover have "core_step (?c3, Server_Shut) (?c4, Queues_Shut)"
    by (rule core_step.stop_queues) (simp_all only: g3 hi(2) hs(2) hh(2))
  ultimately have steps: "core_step\<^sup>*\<^sup>* (c, Server_Shut) (?c4, Queues_Shut)"
    by (rule rtranclp.rtrancl_into_rtrancl)
  have c4: "core_ok (?c4, Queues_Shut)" "server_reachable B parse cfg (infer_state ?c4)"
    using core_reachable_ok [OF core_steps_reachable [OF steps r]] by simp_all
  have "manager_wf (ic_manager ?c4)"
    using server_reachable_wf [OF c4(2)] by (simp add: infer_state_def)
  from stop_from_queues [OF c4(1) this] obtain c' where
    "core_step\<^sup>*\<^sup>* (?c4, Queues_Shut) (c', Stop_Returned)" "stopped_core c'"
    using hi(3) hs(3) hh(3) by (auto simp: GrpcServer_Stop_queues_def loops_entered_def g3)
  then show ?thesis
    using steps by (meson rtranclp_trans)
qed

lemma stop_from_serving:
  assumes r: "core_reachable B parse cfg bind_port (c, Serving)" and run: "has_runners (ic_manager c)"
    and sz: "scast (max_queue_size (scheduler_cfg cfg)) \<noteq> (0 :: size_t)" and l: "gs_listening (ic_grpc c)"
  shows "\<exists>c'. core_step\<^sup>*\<^sup>* (c, Serving) (c', Stop_Returned) \<and> stopped_core c'"
proof -
  let ?c = "c\<lparr>ic_grpc := GrpcServer_Stop_server (ic_grpc c)\<rparr>"
  have "core_ok (c, Serving)"
    using core_reachable_ok [OF r] by simp
  then have step: "core_step (c, Serving) (?c, Server_Shut)"
    using l by (intro core_step.stop_server)
      (simp_all add: core_ok_def Let_def InferenceCore_Stop_refused_def GrpcServer_Stop_refused_def)
  from stop_from_shutdown [OF core_reachable.step [OF r step] _ sz] run obtain c' where
    "core_step\<^sup>*\<^sup>* (?c, Server_Shut) (c', Stop_Returned)" "stopped_core c'"
    by auto
  then show ?thesis
    using converse_rtranclp_into_rtranclp [of core_step, OF step] by blast
qed

text \<open>Wherever a stop is.\<close>

lemma stop_completes:
  assumes r: "core_reachable B parse cfg bind_port (c, pc)" and pc: "pc \<noteq> Stop_Returned"
    "pc = Queues_Shut \<Longrightarrow> loops_entered c" and l: "gs_listening (ic_grpc c)"
    and run: "has_runners (ic_manager c)" and sz: "max_queue_size (scheduler_cfg cfg) \<noteq> 0"
  shows "\<exists>c'. core_step\<^sup>*\<^sup>* (c, pc) (c', Stop_Returned) \<and> stopped_core c'"
proof -
  have sz': "scast (max_queue_size (scheduler_cfg cfg)) \<noteq> (0 :: size_t)"
    using sz by simp
  show ?thesis
  proof (cases pc)
    case Queues_Shut
    have ok: "core_ok (c, Queues_Shut)" "server_reachable B parse cfg (infer_state c)"
      using core_reachable_ok [OF r] Queues_Shut by simp_all
    then have "manager_wf (ic_manager c)"
      using server_reachable_wf [OF ok(2)] by (simp add: infer_state_def)
    then show ?thesis
      using stop_from_queues [OF ok(1)] pc(2) Queues_Shut by simp
  qed (use stop_from_serving [OF _ run sz' l] stop_from_shutdown [OF _ run sz'] r pc(1) in simp_all)
qed

end
