(* ===== verification/Demo_Core.thy ===== *)
theory Demo_Core
  imports Demo_Repository Core_System
begin

text \<open>
  The service on the concrete repository of \<open>Demo_Repository\<close>: started, and after a health
  call was answered.
\<close>

definition demo_core :: inference_core where
  "demo_core =
     \<lparr>ic_cfg = mm_server_cfg (demo_manager 4), ic_manager = demo_manager 4,
      ic_grpc = snd (GrpcServer_Start (\<lambda>_. True) (GrpcServer (mm_server_cfg (demo_manager 4)))),
      ic_running = True\<rparr>"

abbreviation demo_core_reachable :: "core_sys \<Rightarrow> bool" where
  "demo_core_reachable \<equiv> core_reachable demo_fs (demo_parse 2) (demo_server_config 4) (\<lambda>_. True)"

definition demo_core_idle :: inference_core where
  "demo_core_idle =
     (let cfg = mm_server_cfg (demo_manager 4)
      in \<lparr>ic_cfg = cfg, ic_manager = demo_manager 4, ic_grpc = GrpcServer cfg, ic_running = False\<rparr>)"

lemma demo_core_created:
  "InferenceCore demo_fs (demo_parse 2) (Some (demo_server_config 4)) = Inr demo_core_idle"
  "InferenceCore_Start (\<lambda>_. True) demo_core_idle = Inr (Success, demo_core)"
  by (simp_all add: InferenceCore_def ModelManager_Create_def demo_manager_eq GrpcServer_Create_def
      demo_core_idle_def InferenceCore_Start_def demo_core_def GrpcServer_Start_def Let_def)

lemma demo_core_started: "demo_core_reachable (demo_core, Serving)"
  by (rule core_reachable.start [OF demo_core_created])

section \<open>An answered health call\<close>

definition demo_health_loop :: health_handler where
  "demo_health_loop = StartNewRequest
     (Handler_Start (new_handler (\<lparr>hrq_mode = ''''\<rparr>, empty_health_response))\<lparr>h_thread := Looping\<rparr>)"

definition demo_health_arrived :: health_handler where
  "demo_health_arrived = upd_state 0 (hs_request_update (\<lambda>_. \<lparr>hrq_mode = ''ready''\<rparr>))
     (demo_health_loop\<lparr>cq_requested := remove1 0 (cq_requested demo_health_loop),
       cq_events := cq_events demo_health_loop @ [(0, True)]\<rparr>)"

definition demo_health_turn :: "(core_manager \<times> health_handler) call_result" where
  "demo_health_turn = Process Health_TakeAction 0 True (demo_manager 4, demo_health_arrived\<lparr>cq_events := []\<rparr>)"

definition demo_answered :: inference_core where
  "demo_answered = put_health (or_else demo_health_turn (demo_manager 4, demo_health_arrived)) demo_core"

lemma demo_health_steps:
  "(loop_step Health_TakeAction)\<^sup>*\<^sup>* (health_state demo_core)
     (or_else demo_health_turn (demo_manager 4, demo_health_arrived))"
proof -
  let ?h0 = "Handler_Start (new_handler (\<lparr>hrq_mode = ''''\<rparr>, empty_health_response)) :: health_handler"
  have "health_state demo_core = (demo_manager 4, ?h0)"
    by (simp add: health_state_def demo_core_def GrpcServer_Start_def GrpcServer_def new_handler_def)
  moreover have "loop_step Health_TakeAction (demo_manager 4, ?h0) (demo_manager 4, demo_health_loop)"
    unfolding demo_health_loop_def by (rule enter_loop_step) (simp add: Handler_Start_def)
  moreover have "loop_step Health_TakeAction (demo_manager 4, demo_health_loop) (demo_manager 4, demo_health_arrived)"
    unfolding loop_step_def demo_health_arrived_def
    by (intro conjI queue_step.arrive)
      (simp_all add: demo_health_loop_def Handler_Start_def new_handler_def same_flags_def)
  moreover have "loop_step Health_TakeAction (demo_manager 4, demo_health_arrived)
      (or_else demo_health_turn (demo_manager 4, demo_health_arrived))"
  proof -
    have "is_returned demo_health_turn"
      by code_simp
    note r = or_else_returned [OF this, of "(demo_manager 4, demo_health_arrived)"]
    have h: "h_thread demo_health_arrived = Looping" "cq_events demo_health_arrived = [(0, True)]"
      by (simp_all add: demo_health_arrived_def demo_health_loop_def Handler_Start_def new_handler_def)
    have q: "queue_step Health_TakeAction (demo_manager 4, demo_health_arrived)
        (or_else demo_health_turn (demo_manager 4, demo_health_arrived))"
      by (rule queue_step.next_event [OF h]) (use r in \<open>simp add: demo_health_turn_def\<close>)
    have "cq_shut (snd (or_else demo_health_turn (demo_manager 4, demo_health_arrived))) = False"
      "srv_shut (snd (or_else demo_health_turn (demo_manager 4, demo_health_arrived))) = False"
      by code_simp+
    then show ?thesis
      using q by (simp add: loop_step_def same_flags_def demo_health_arrived_def demo_health_loop_def
          Handler_Start_def new_handler_def)
  qed
  ultimately show ?thesis
    by (metis (no_types) converse_rtranclp_into_rtranclp r_into_rtranclp)
qed

lemma demo_answered_reachable: "demo_core_reachable (demo_answered, Serving)"
  unfolding demo_answered_def
  by (rule core_steps_reachable [OF health_steps_core [OF demo_health_steps] demo_core_started])

lemma demo_answered_answers:
  "map fst (h_answers (gs_health (ic_grpc demo_answered))) = [0]"
  by code_simp

end
