(* ===== verification/Live_Update.thy ===== *)
theory Live_Update
  imports Repository_Update
begin

text \<open>
  The server together with its update thread. A pass is cut where other threads can
  interfere: the scan, each model that is added, the section that swaps a backend and the
  release of the old one, the section that erases a model, and the destruction of the
  erased context, during which its runners still move and answer calls.
\<close>

section \<open>\<open>LoadModels\<close> in its sections\<close>

text \<open>An update up to \<open>backend_info.reset()\<close>: what is left in \<open>backend_info\<close> is yet to be freed.\<close>

definition swap_backend ::
  "boost_fs \<Rightarrow> (string \<Rightarrow> model_config option) \<Rightarrow> load_info \<Rightarrow> 'p manager \<Rightarrow>
   backend_info option \<times> 'p manager" where
  "swap_backend B parse info mm =
     (case LoadModel B parse info mm of
        (None, mm') \<Rightarrow> (None, mm')
      | (Some bi, mm') \<Rightarrow>
          (case um_find (mm_model_map mm') (fst info) of
             None \<Rightarrow> (Some bi, mm')
           | Some ctx \<Rightarrow>
               (let sched = snd (UpdateBackendInferFunc (bi_backend bi) (rc_scheduler ctx));
                    ctx' = \<lparr>rc_scheduler = sched, rc_backend_info = bi\<rparr>
                in (Some (rc_backend_info ctx),
                    mm'\<lparr>mm_model_map := um_assign (fst info) ctx' (mm_model_map mm')\<rparr>))))"

text \<open>A deletion up to \<open>empty_model_run_context.reset()\<close>.\<close>

definition take_context :: "string \<Rightarrow> 'p manager \<Rightarrow> 'p run_context option \<times> 'p manager" where
  "take_context name mm =
     (case um_find (mm_model_map mm) name of
        None \<Rightarrow> (None, mm)
      | Some ctx \<Rightarrow> (Some ctx, mm\<lparr>mm_model_map := um_erase name (mm_model_map mm)\<rparr>))"

lemma update_model_sections:
  "update_model B parse info mm =
     (case swap_backend B parse info mm of (None, mm') \<Rightarrow> mm' | (Some bi, mm') \<Rightarrow> free_info bi mm')"
  by (auto simp: update_model_def swap_backend_def Let_def split: prod.split option.split)

lemma delete_model_sections:
  "delete_model n mm =
     (case take_context n mm of (None, mm') \<Rightarrow> mm' | (Some ctx, mm') \<Rightarrow> free_info (rc_backend_info ctx) mm')"
  by (auto simp: delete_model_def take_context_def split: option.split)

section \<open>A runner with its callback\<close>

text \<open>The code of a runner, wherever its scheduler is: in the map or on its way out.\<close>

definition thread_step ::
  "nat \<Rightarrow> (ptr, tag payload) scheduler \<Rightarrow> server \<Rightarrow>
   ((ptr, tag payload) scheduler \<times> (tag payload \<times> status \<times> string) option \<times> server) call_result" where
  "thread_step i s sh =
     (let (mm, h) = sh in
      if length (sc_threads s) \<le> i then Blocks
      else case (case sc_threads s ! i of
                   (idx, In_Call p a) \<Rightarrow> backend_call idx p a mm
                 | _ \<Rightarrow> Returns (Success, mm)) of
        Returns (st, mm') \<Rightarrow>
          (case runner_step st i s of
             None \<Rightarrow> Blocks
           | Some (s', None) \<Rightarrow> Returns (s', None, mm', h)
           | Some (s', Some (p, st', message)) \<Rightarrow>
               (case infer_callback p st' message h of
                  Returns (Inr h') \<Rightarrow> Returns (s', Some (p, st', message), mm', h')
                | Returns (Inl e) \<Rightarrow> Aborts e
                | Aborts e \<Rightarrow> Aborts e
                | Blocks \<Rightarrow> Blocks
                | Dangling \<Rightarrow> Dangling))
      | Aborts e \<Rightarrow> Aborts e
      | Blocks \<Rightarrow> Blocks
      | Dangling \<Rightarrow> Dangling)"

lemma model_runner_thread:
  "model_runner n i (mm, h) =
     (case um_find (mm_model_map mm) n of
        None \<Rightarrow> Blocks
      | Some ctx \<Rightarrow>
          map_call_result (\<lambda>(s, _, mm', h'). (put_sched n ctx s mm', h')) (thread_step i (rc_scheduler ctx) (mm, h)))"
proof (cases "um_find (mm_model_map mm) n")
  case None
  then show ?thesis
    by (simp add: model_runner_def)
next
  case (Some ctx)
  obtain idx pc where t: "sc_threads (rc_scheduler ctx) ! i = (idx, pc)"
    by (cases "sc_threads (rc_scheduler ctx) ! i")
  have adv: "advance n ctx i st (mm', h) = map_call_result (\<lambda>(s, _, mm', h'). (put_sched n ctx s mm', h'))
      (case runner_step st i (rc_scheduler ctx) of
         None \<Rightarrow> Blocks
       | Some (s', None) \<Rightarrow> Returns (s', None, mm', h)
       | Some (s', Some (p, st', message)) \<Rightarrow>
           (case infer_callback p st' message h of
              Returns (Inr h') \<Rightarrow> Returns (s', Some (p, st', message), mm', h')
            | Returns (Inl e) \<Rightarrow> Aborts e | Aborts e \<Rightarrow> Aborts e | Blocks \<Rightarrow> Blocks
            | Dangling \<Rightarrow> Dangling))" for st mm'
    by (auto simp: advance_def split: option.split call_result.split sum.split)
  show ?thesis
    using Some t
    by (cases pc) (auto simp: model_runner_def thread_step_def adv split: call_result.split)
qed

section \<open>The destruction of a context\<close>

text \<open>
  The members of \<open>ModelRunContext\<close> go in the reverse order of their declaration: the backend
  is freed, and then \<open>~SimpleScheduler\<close> stops a scheduler whose runners are still bound to
  it. Nobody pushes any more, since the context is out of the map.
\<close>

definition deletion_start :: "'p run_context \<Rightarrow> (ptr, 'p) sched_sys" where
  "deletion_start ctx =
     \<lparr>sys_sched = rc_scheduler ctx, sys_callers = [], sys_stop = Not_Stopping, sys_accepted = [],
      sys_completed = [], sys_returned = [], sys_drained = False\<rparr>"

definition after_runner ::
  "(ptr, 'p) scheduler \<Rightarrow> ('p \<times> status \<times> string) option \<Rightarrow> (ptr, 'p) sched_sys \<Rightarrow> (ptr, 'p) sched_sys" where
  "after_runner sc out s = s\<lparr>sys_sched := sc,
     sys_completed := sys_completed s @ (case out of None \<Rightarrow> [] | Some c \<Rightarrow> [c])\<rparr>"

text \<open>A step of \<open>Stop\<close> leaves the runners and the function.\<close>

lemma stop_step_frame:
  assumes "sched_step s s'" "sys_stop s' \<noteq> sys_stop s"
  shows "sc_threads (sys_sched s') = sc_threads (sys_sched s)"
    "sc_infer_func (sys_sched s') = sc_infer_func (sys_sched s)"
    "sys_completed s' = sys_completed s"
    "bq_buffer (sc_queue (sys_sched s')) = bq_buffer (sc_queue (sys_sched s))"
  using assms by (cases; simp add: Stop_lower_flag_def Stop_break_def breakAll_def)+

section \<open>Steps\<close>

text \<open>
  What the update thread has in hand: nothing; the backend an update left in \<open>backend_info\<close>;
  an erased context, first with its backend and then only its scheduler. \<open>lv_lost\<close> records
  the payloads that were in the queue of a deleted model when its scheduler was destroyed.
\<close>

datatype hand =
    Empty_Handed
  | Releasing backend_info
  | Dying "backend_info option" "(ptr, tag payload) sched_sys"

record live =
  lv_server :: server
  lv_added :: "load_info list"
  lv_updated :: "load_info list"
  lv_deleted :: "string list"
  lv_hand :: hand
  lv_lost :: "tag payload multiset"

inductive live_step :: "(string \<Rightarrow> model_config option) \<Rightarrow> live \<Rightarrow> live \<Rightarrow> bool" for parse where
  server: "server_step (lv_server l) sh' \<Longrightarrow> live_step parse l (l\<lparr>lv_server := sh'\<rparr>)"
| scan: "lv_hand l = Empty_Handed \<Longrightarrow> lv_server l = (mm, h) \<Longrightarrow> mm_update_thread mm \<Longrightarrow> mm_running mm \<Longrightarrow>
    lv_added l = [] \<Longrightarrow> lv_updated l = [] \<Longrightarrow> lv_deleted l = [] \<Longrightarrow>
    GetModelStateUpdate B parse mm = Inr (added, updated, deleted) \<Longrightarrow>
    live_step parse l (l\<lparr>lv_added := added, lv_updated := updated, lv_deleted := deleted\<rparr>)"
| add: "lv_hand l = Empty_Handed \<Longrightarrow> lv_server l = (mm, h) \<Longrightarrow> lv_added l = info # added \<Longrightarrow>
    live_step parse l (l\<lparr>lv_server := (add_model B parse info mm, h), lv_added := added\<rparr>)"
| swap: "lv_hand l = Empty_Handed \<Longrightarrow> lv_server l = (mm, h) \<Longrightarrow> lv_added l = [] \<Longrightarrow>
    lv_updated l = info # updated \<Longrightarrow> swap_backend B parse info mm = (out, mm') \<Longrightarrow>
    live_step parse l (l\<lparr>lv_server := (mm', h), lv_updated := updated,
      lv_hand := (case out of None \<Rightarrow> Empty_Handed | Some bi \<Rightarrow> Releasing bi)\<rparr>)"
| release: "lv_hand l = Releasing bi \<Longrightarrow> lv_server l = (mm, h) \<Longrightarrow>
    live_step parse l (l\<lparr>lv_server := (free_info bi mm, h), lv_hand := Empty_Handed\<rparr>)"
| take: "lv_hand l = Empty_Handed \<Longrightarrow> lv_server l = (mm, h) \<Longrightarrow> lv_added l = [] \<Longrightarrow> lv_updated l = [] \<Longrightarrow>
    lv_deleted l = n # deleted \<Longrightarrow> take_context n mm = (out, mm') \<Longrightarrow>
    live_step parse l (l\<lparr>lv_server := (mm', h), lv_deleted := deleted,
      lv_hand := (case out of None \<Rightarrow> Empty_Handed
        | Some ctx \<Rightarrow> Dying (Some (rc_backend_info ctx)) (deletion_start ctx))\<rparr>)"
| free: "lv_hand l = Dying (Some bi) s \<Longrightarrow> lv_server l = (mm, h) \<Longrightarrow>
    live_step parse l (l\<lparr>lv_server := (free_info bi mm, h), lv_hand := Dying None s\<rparr>)"
| dying_runner: "lv_hand l = Dying b s \<Longrightarrow>
    thread_step i (sys_sched s) (lv_server l) = Returns (sc, out, sh') \<Longrightarrow>
    live_step parse l (l\<lparr>lv_server := sh', lv_hand := Dying b (after_runner sc out s)\<rparr>)"
| dying_stop: "lv_hand l = Dying None s \<Longrightarrow> sched_step s s' \<Longrightarrow> sys_stop s' \<noteq> sys_stop s \<Longrightarrow>
    live_step parse l (l\<lparr>lv_hand := Dying None s'\<rparr>)"
| destroyed: "lv_hand l = Dying None s \<Longrightarrow> sys_stop s = Stopped \<Longrightarrow>
    live_step parse l (l\<lparr>lv_hand := Empty_Handed,
      lv_lost := lv_lost l + mset (bq_buffer (sc_queue (sys_sched s)))\<rparr>)"

definition live_start :: "core_manager \<Rightarrow> live" where
  "live_start mm =
     \<lparr>lv_server = (mm, new_infer_handler), lv_added = [], lv_updated = [], lv_deleted = [],
      lv_hand = Empty_Handed, lv_lost = {#}\<rparr>"

inductive live_reachable ::
  "boost_fs \<Rightarrow> (string \<Rightarrow> model_config option) \<Rightarrow> server_config \<Rightarrow> live \<Rightarrow> bool" for B parse cfg where
  start: "ModelManager B parse cfg = Inr mm \<Longrightarrow> live_reachable B parse cfg (live_start mm)"
| step: "live_reachable B parse cfg l \<Longrightarrow> live_step parse l l' \<Longrightarrow> live_reachable B parse cfg l'"

lemma live_reachable_steps:
  assumes "(live_step parse)\<^sup>*\<^sup>* l l'" "live_reachable B parse cfg l"
  shows "live_reachable B parse cfg l'"
  using assms by (induction rule: rtranclp_induct) (auto intro: live_reachable.step)

end
