(* ===== verification/Live_Invariant.thy ===== *)
theory Live_Invariant
  imports Live_Update
begin

text \<open>
  What stays true of a server whose repository is updated while calls run: every call is
  accounted for, no call state is used after it was freed, and the models own their
  backends. What does not stay true is that a call in progress has its backend.
\<close>

section \<open>Heaps that differ in the counters of their backends\<close>

definition heap_like ::
  "(ptr \<Rightarrow> model_backend option) \<Rightarrow> (ptr \<Rightarrow> model_backend option) \<Rightarrow> bool" where
  "heap_like H H' \<longleftrightarrow> (\<forall>a. map_option (\<lambda>b. (mb_name b, mb_version b)) (H a) =
     map_option (\<lambda>b. (mb_name b, mb_version b)) (H' a))"

lemma heap_like_refl [simp]: "heap_like H H"
  by (simp add: heap_like_def)

lemma heap_like_free: "heap_like H H' \<Longrightarrow> heap_like (H(a := None)) (H'(a := None))"
  by (simp add: heap_like_def)

lemma heap_like_dom: "heap_like H H' \<Longrightarrow> dom H = dom H'"
  unfolding heap_like_def dom_def by (metis (no_types, lifting) option.map_disc_iff)

lemma heap_like_context: "heap_like H H' \<Longrightarrow> context_ok H = context_ok H'"
proof (rule ext)
  fix e :: "string \<times> 'p run_context"
  assume like: "heap_like H H'"
  have "(\<exists>b. H a = Some b \<and> mb_name b = n \<and> mb_version b = v) \<longleftrightarrow>
      (\<exists>b. H' a = Some b \<and> mb_name b = n \<and> mb_version b = v)" for a n v
    using like [unfolded heap_like_def, THEN spec, of a] by (cases "H a"; cases "H' a") auto
  then show "context_ok H e = context_ok H' e"
    by (simp add: context_ok_def Let_def split: prod.split)
qed

lemma heap_like_wf:
  assumes "manager_wf mm" "heap_like H (mm_heap mm)"
  shows "manager_wf (mm\<lparr>mm_heap := H\<rparr>)"
  using assms by (simp add: manager_wf_def heap_like_dom [OF assms(2)] heap_like_context [OF assms(2)])

lemma backend_call_heap:
  assumes "backend_call idx p a mm = Returns (st, mm')"
  shows "\<exists>H. mm' = mm\<lparr>mm_heap := H\<rparr> \<and> heap_like H (mm_heap mm)"
proof -
  obtain b b' where b: "mm_heap mm a = Some b" "mm' = mm\<lparr>mm_heap := (mm_heap mm)(a := Some b')\<rparr>"
    "mb_name b' = mb_name b" "mb_version b' = mb_version b"
    using assms Run_fields [of DemoContext_Run idx "[p]"]
    by (auto simp: backend_call_def split: option.splits prod.splits run_outcome.splits)
      (metis snd_conv)
  then show ?thesis
    by (intro exI [of _ "(mm_heap mm)(a := Some b')"]) (simp add: heap_like_def)
qed

section \<open>A runner, wherever its scheduler is\<close>

text \<open>
  A runner of well formed payloads whose calls are in progress waits, uses a backend that
  is gone, or makes a step and answers what it completes.
\<close>

lemma thread_step_cases:
  assumes work: "\<forall>p \<in># sched_work s. payload_wf p \<and> step_of h (payload_tag p) = Some PROCESS"
  obtains (waits) "thread_step i s (mm, h) = Blocks"
  | (gone) idx p a where "thread_step i s (mm, h) = Dangling" "i < length (sc_threads s)"
      "sc_threads s ! i = (idx, In_Call p a)" "backend_call idx p a mm = Dangling"
  | (moves) st s' out H h' where "thread_step i s (mm, h) = Returns (s', out, mm\<lparr>mm_heap := H\<rparr>, h')"
      "i < length (sc_threads s)" "runner_step st i s = Some (s', out)" "heap_like H (mm_heap mm)"
      "case out of None \<Rightarrow> h' = h
        | Some c \<Rightarrow> \<exists>resp. h' = OnCompleted (payload_tag (fst c)) (set_response (payload_tag (fst c)) resp h)"
proof (cases "i < length (sc_threads s)")
  case False
  then show ?thesis
    by (intro waits) (simp add: thread_step_def)
next
  case i: True
  define r where "r = (case sc_threads s ! i of (idx, In_Call p a) \<Rightarrow> backend_call idx p a mm
                        | _ \<Rightarrow> Returns (Success, mm))"
  obtain idx pc where t: "sc_threads s ! i = (idx, pc)"
    by (cases "sc_threads s ! i")
  have r: "r = (case pc of In_Call p a \<Rightarrow> backend_call idx p a mm | _ \<Rightarrow> Returns (Success, mm))"
    using t by (cases pc) (simp_all add: r_def)
  consider (dangling) p a where "pc = In_Call p a" "backend_call idx p a mm = Dangling" "r = Dangling"
    | (returns) st H where "r = Returns (st, mm\<lparr>mm_heap := H\<rparr>)" "heap_like H (mm_heap mm)"
  proof (cases "\<exists>p a. pc = In_Call p a")
    case True
    then obtain p a where pc: "pc = In_Call p a"
      by blast
    show ?thesis
    proof (cases "backend_call idx p a mm")
      case (Returns x)
      then show ?thesis
        using pc r backend_call_heap [of idx p a mm] by (cases x) (auto intro: that(2))
    qed (use pc r that(1) in \<open>auto simp: backend_call_def split: option.splits prod.splits run_outcome.splits\<close>)
  next
    case False
    then have "r = Returns (Success, mm)"
      using r by (cases pc) auto
    then show ?thesis
      by (intro that(2) [of Success "mm_heap mm"]) simp_all
  qed
  then show ?thesis
  proof cases
    case dangling
    then show ?thesis
      using i t by (intro gone) (simp_all add: thread_step_def)
  next
    case (returns st H)
    show ?thesis
    proof (cases "runner_step st i s")
      case None
      then show ?thesis
        using i returns(1) by (intro waits) (simp add: thread_step_def r_def [symmetric])
    next
      case (Some x)
      obtain s' out where x: "runner_step st i s = Some (s', out)"
        using Some by (cases x) simp
      show ?thesis
      proof (cases out)
        case None
        then show ?thesis
          using i returns x by (intro moves [where out = None and h' = h]) (simp_all add: thread_step_def r_def [symmetric])
      next
        case (Some c)
        obtain p st' message where c: "c = (p, st', message)"
          by (cases c)
        have "p \<in># sched_work s"
          using runner_step_work [OF i x] Some c
          by (metis add_mset_add_single case_prod_conv fst_conv option.simps(5) union_single_eq_member)
        then obtain resp where "infer_callback p st' message h =
            Returns (Inr (OnCompleted (payload_tag p) (set_response (payload_tag p) resp h)))"
          using infer_callback_ok work by metis
        then show ?thesis
          using i returns x Some c
          by (intro moves [where out = "Some c"]) (auto simp: thread_step_def r_def [symmetric])
      qed
    qed
  qed
qed

section \<open>The invariant\<close>

text \<open>The manager once the update thread has freed what it holds.\<close>

definition settled :: "hand \<Rightarrow> 'p manager \<Rightarrow> 'p manager" where
  "settled held mm =
     (case held of
        Releasing bi \<Rightarrow> free_info bi mm
      | Dying (Some bi) s \<Rightarrow> free_info bi mm
      | _ \<Rightarrow> mm)"

fun dying_work :: "hand \<Rightarrow> tag payload multiset" where
  "dying_work (Dying b s) = sched_work (sys_sched s)"
| "dying_work _ = {#}"

fun hand_ok :: "hand \<Rightarrow> bool" where
  "hand_ok (Dying b s) \<longleftrightarrow> (sys_stop s = Stopped \<longrightarrow> b = None \<and> all_exited (sys_sched s))"
| "hand_ok _ \<longleftrightarrow> True"

definition live_work :: "live \<Rightarrow> tag payload multiset" where
  "live_work l = map_work (mm_model_map (fst (lv_server l))) + dying_work (lv_hand l) + lv_lost l"

definition open_queues :: "'p manager \<Rightarrow> bool" where
  "open_queues mm \<longleftrightarrow> (\<forall>e \<in> set (mm_model_map mm). \<not> bq_broken (sc_queue (rc_scheduler (snd e))))"

definition work_ok :: "tag payload multiset \<Rightarrow> infer_handler \<Rightarrow> bool" where
  "work_ok w h \<longleftrightarrow> handler_ok h \<and> (\<forall>p \<in># w. payload_wf p) \<and>
     (\<forall>t. count (image_mset payload_tag w) t = (if step_of h t = Some PROCESS then 1 else 0))"

definition live_ok :: "live \<Rightarrow> bool" where
  "live_ok l \<longleftrightarrow>
     (let (mm, h) = lv_server l in
        manager_wf (settled (lv_hand l) mm) \<and> open_queues mm \<and> hand_ok (lv_hand l) \<and>
        work_ok (live_work l) h)"

lemma work_okD:
  assumes "work_ok w h" "p \<in># w"
  shows "payload_wf p \<and> step_of h (payload_tag p) = Some PROCESS"
proof -
  have "count (image_mset payload_tag w) (payload_tag p) > 0"
    using assms(2) by (metis count_greater_zero_iff image_eqI set_image_mset)
  then show ?thesis
    using assms by (auto simp: work_ok_def split: if_splits)
qed

text \<open>A completion answers one call of the work and takes its payload out of it.\<close>

lemma work_ok_completed:
  assumes "work_ok (add_mset p w) h"
  shows "work_ok w (OnCompleted (payload_tag p) (set_response (payload_tag p) resp h))"
proof -
  let ?t = "payload_tag p" and ?h = "OnCompleted (payload_tag p) (set_response (payload_tag p) resp h)"
  have live: "step_of h ?t = Some PROCESS"
    using work_okD [OF assms] by simp
  have "count (image_mset payload_tag w) t = (if step_of ?h t = Some PROCESS then 1 else 0)" for t
  proof -
    have "count (image_mset payload_tag (add_mset p w)) t = (if step_of h t = Some PROCESS then 1 else 0)"
      using assms unfolding work_ok_def by blast
    then show ?thesis
      using live by (auto split: if_splits)
  qed
  moreover have "handler_ok ?h"
    using assms live complete_ok [of "set_response ?t resp h" ?t] set_response_ok [of h ?t resp]
    by (simp add: work_ok_def)
  ultimately show ?thesis
    using assms by (simp add: work_ok_def)
qed

text \<open>What a runner's step leaves: its payload is still work, or was answered.\<close>

lemma work_ok_thread:
  assumes ok: "work_ok (sched_work s + w) h" and i: "i < length (sc_threads s)"
    and run: "runner_step st i s = Some (s', out)"
    and h': "case out of None \<Rightarrow> h' = h
        | Some c \<Rightarrow> \<exists>resp. h' = OnCompleted (payload_tag (fst c)) (set_response (payload_tag (fst c)) resp h)"
  shows "work_ok (sched_work s' + w) h'"
proof (cases out)
  case None
  then show ?thesis
    using ok h' runner_step_work [OF i run] by simp
next
  case (Some c)
  then have "sched_work s + w = add_mset (fst c) (sched_work s' + w)"
    using runner_step_work [OF i run] by (simp flip: union_mset_add_mset_left)
  then show ?thesis
    using ok h' Some work_ok_completed by fastforce
qed

lemma map_work_split:
  assumes "mm_model_map mm = xs @ (n, ctx) # ys"
  shows "map_work (mm_model_map mm) = sched_work (rc_scheduler ctx) + map_work (xs @ ys)"
  using assms by (simp add: ac_simps)

lemma settled_sel [simp]:
  "mm_model_map (settled held mm) = mm_model_map mm" "mm_next (settled held mm) = mm_next mm"
  "mm_running (settled held mm) = mm_running mm"
  by (auto simp: settled_def free_info_def split: hand.split option.split)

lemma settled_put_sched: "settled held (put_sched n ctx s mm) = put_sched n ctx s (settled held mm)"
  by (auto simp: settled_def free_info_def put_sched_def split: hand.split option.split)

lemma settled_heap:
  assumes "heap_like H (mm_heap mm)"
  shows "\<exists>H'. settled held (mm\<lparr>mm_heap := H\<rparr>) = (settled held mm)\<lparr>mm_heap := H'\<rparr> \<and>
    heap_like H' (mm_heap (settled held mm))"
  using assms heap_like_free [OF assms]
  by (auto simp: settled_def free_info_def split: hand.split option.split)

lemma settled_heap_wf:
  "manager_wf (settled held mm) \<Longrightarrow> heap_like H (mm_heap mm) \<Longrightarrow>
   manager_wf (settled held (mm\<lparr>mm_heap := H\<rparr>))"
  using settled_heap [of H mm held] heap_like_wf by metis

section \<open>Runners and calls keep the invariant\<close>

lemma put_sched_work:
  assumes "um_wf (mm_model_map mm)" "um_find (mm_model_map mm) n = Some ctx"
  obtains w where "map_work (mm_model_map mm) = sched_work (rc_scheduler ctx) + w"
    "\<And>mm1 s. mm_model_map mm1 = mm_model_map mm \<Longrightarrow>
       map_work (mm_model_map (put_sched n ctx s mm1)) = sched_work s + w"
    "\<And>mm1 s. mm_model_map mm1 = mm_model_map mm \<Longrightarrow> open_queues mm \<Longrightarrow> \<not> bq_broken (sc_queue s) \<Longrightarrow>
       open_queues (put_sched n ctx s mm1)"
proof -
  obtain xs ys where m: "mm_model_map mm = xs @ (n, ctx) # ys"
    "n \<notin> set (um_keys xs)" "n \<notin> set (um_keys ys)"
    using um_split [OF assms(2,1)] by metis
  have put: "mm_model_map (put_sched n ctx s mm1) = xs @ (n, ctx\<lparr>rc_scheduler := s\<rparr>) # ys"
    if "mm_model_map mm1 = mm_model_map mm" for mm1 s
    using put_sched_split [of mm1 xs n ctx ys s] m that by simp
  show ?thesis
    by (rule that [of "map_work (xs @ ys)"]) (use m(1) in \<open>auto simp: put open_queues_def ac_simps\<close>)
qed

lemma live_served:
  assumes "manager_wf (settled held mm)" "um_find (mm_model_map mm) n = Some ctx"
  shows "um_wf (mm_model_map mm)" "(n, ctx) \<in> set (mm_model_map mm)"
    "sc_running (rc_scheduler ctx)" "sc_infer_func (rc_scheduler ctx) = bi_backend (rc_backend_info ctx)"
    "mm_heap mm (bi_backend (rc_backend_info ctx)) \<noteq> None"
proof -
  show wf: "um_wf (mm_model_map mm)"
    using manager_wfD(1) [OF assms(1)] by simp
  then show mem: "(n, ctx) \<in> set (mm_model_map mm)"
    using assms(2) um_find_set by metis
  then have ok: "context_ok (mm_heap (settled held mm)) (n, ctx)"
    using manager_wfD(2) [OF assms(1)] by simp
  then show "sc_running (rc_scheduler ctx)" "sc_infer_func (rc_scheduler ctx) = bi_backend (rc_backend_info ctx)"
    by (simp_all add: context_ok_def Let_def)
  have "mm_heap (settled held mm) a = Some b \<Longrightarrow> mm_heap mm a = Some b" for a b
    by (auto simp: settled_def free_info_def split: hand.splits option.splits if_splits)
  then show "mm_heap mm (bi_backend (rc_backend_info ctx)) \<noteq> None"
    using ok by (fastforce simp: context_ok_def Let_def)
qed

lemma live_model_runner:
  assumes wf: "manager_wf (settled held mm)" and unbr: "open_queues mm"
    and ok: "work_ok (map_work (mm_model_map mm) + w) h"
    and run: "model_runner n i (mm, h) = Returns (mm', h')"
  shows "manager_wf (settled held mm') \<and> open_queues mm' \<and> work_ok (map_work (mm_model_map mm') + w) h'"
proof -
  obtain ctx where find: "um_find (mm_model_map mm) n = Some ctx"
    using run by (cases "um_find (mm_model_map mm) n") (simp_all add: model_runner_thread)
  note sv = live_served [OF wf find]
  obtain v where v: "map_work (mm_model_map mm) = sched_work (rc_scheduler ctx) + v"
    "\<And>mm1 s. mm_model_map mm1 = mm_model_map mm \<Longrightarrow>
       map_work (mm_model_map (put_sched n ctx s mm1)) = sched_work s + v"
    "\<And>mm1 s. mm_model_map mm1 = mm_model_map mm \<Longrightarrow> open_queues mm \<Longrightarrow> \<not> bq_broken (sc_queue s) \<Longrightarrow>
       open_queues (put_sched n ctx s mm1)"
    using put_sched_work [OF sv(1) find] by metis
  have "\<forall>p \<in># sched_work (rc_scheduler ctx). payload_wf p \<and> step_of h (payload_tag p) = Some PROCESS"
    using work_okD [OF ok] v(1) by simp
  then show ?thesis
  proof (cases rule: thread_step_cases [of "rc_scheduler ctx" h i mm])
    case (moves st s' out H h1)
    then have r: "mm' = put_sched n ctx s' (mm\<lparr>mm_heap := H\<rparr>)" "h' = h1"
      using run find by (auto simp: model_runner_thread)
    note fr = runner_step_frame [OF moves(3)]
    have "manager_wf (put_sched n ctx s' (settled held (mm\<lparr>mm_heap := H\<rparr>)))"
      by (rule put_sched_wf) (use settled_heap_wf [OF wf moves(4)] find sv(3) fr(1,5) in auto)
    moreover have "\<not> bq_broken (sc_queue s')"
      using unbr sv(2) fr(2) by (force simp: open_queues_def)
    moreover have "work_ok (sched_work s' + (v + w)) h1"
      by (rule work_ok_thread [OF _ moves(2,3,5)]) (use ok v(1) in \<open>simp add: add.assoc\<close>)
    ultimately show ?thesis
      using r unbr v(2,3) by (simp add: settled_put_sched ac_simps)
  qed (use run find in \<open>auto simp: model_runner_thread\<close>)
qed

text \<open>A submission under updates: refused, or its payload is pushed to a running scheduler.\<close>

lemma InferAsync_running:
  assumes "InferAsync p mm = Some (st, mm')"
    "\<And>n ctx. um_find (mm_model_map mm) n = Some ctx \<Longrightarrow> sc_running (rc_scheduler ctx)"
  shows "(st \<noteq> Success \<and> mm' = mm) \<or>
    (\<exists>ctx q. st = Success \<and> um_find (mm_model_map mm) (pl_model_name p) = Some ctx \<and>
       push p (sc_queue (rc_scheduler ctx)) = Some q \<and>
       mm' = put_sched (pl_model_name p) ctx ((rc_scheduler ctx)\<lparr>sc_queue := q\<rparr>) mm)"
  using assms by (auto simp: InferAsync_def Enqueue_Some put_sched_def split: option.splits)

lemma live_submit:
  assumes wf: "manager_wf (settled held mm)" and unbr: "open_queues mm"
    and run: "InferAsync p mm = Some (st, mm')"
  shows "manager_wf (settled held mm') \<and> open_queues mm' \<and>
    map_work (mm_model_map mm') =
      (if st = Success then add_mset p (map_work (mm_model_map mm)) else map_work (mm_model_map mm))"
proof -
  consider "st \<noteq> Success" "mm' = mm"
    | (pushed) ctx q where "st = Success" "um_find (mm_model_map mm) (pl_model_name p) = Some ctx"
      "push p (sc_queue (rc_scheduler ctx)) = Some q"
      "mm' = put_sched (pl_model_name p) ctx ((rc_scheduler ctx)\<lparr>sc_queue := q\<rparr>) mm"
    using InferAsync_running [OF run] live_served(3) [OF wf] by blast
  then show ?thesis
  proof cases
    case pushed
    note sv = live_served [OF wf pushed(2)]
    have unbroken: "\<not> bq_broken (sc_queue (rc_scheduler ctx))"
      using unbr sv(2) by (force simp: open_queues_def)
    then have "\<not> bq_broken q"
      using bq.enq_frame [OF pushed(3)] by (simp add: broken_def)
    moreover have "manager_wf (settled held mm')"
      unfolding pushed(4) settled_put_sched by (rule put_sched_wf) (use wf pushed(2) sv(3) in auto)
    moreover have "sched_work ((rc_scheduler ctx)\<lparr>sc_queue := q\<rparr>) = add_mset p (sched_work (rc_scheduler ctx))"
      using sched_work_push [OF unbroken pushed(3)] .
    moreover obtain v where "map_work (mm_model_map mm) = sched_work (rc_scheduler ctx) + v"
      "\<And>s. map_work (mm_model_map (put_sched (pl_model_name p) ctx s mm)) = sched_work s + v"
      "\<And>s. \<not> bq_broken (sc_queue s) \<Longrightarrow> open_queues (put_sched (pl_model_name p) ctx s mm)"
      using put_sched_work [OF sv(1) pushed(2)] unbr by metis
    ultimately show ?thesis
      using pushed(1,4) by simp
  qed (use wf unbr in auto)
qed

lemma live_server_step:
  assumes wf: "manager_wf (settled held mm)" and unbr: "open_queues mm"
    and ok: "work_ok (map_work (mm_model_map mm) + w) h" and step: "server_step (mm, h) (mm', h')"
  shows "manager_wf (settled held mm') \<and> open_queues mm' \<and> work_ok (map_work (mm_model_map mm') + w) h'"
  using step
proof cases
  case (runner n i)
  then show ?thesis
    using live_model_runner [OF wf unbr ok] by blast
next
  case rpc
  have hok: "handler_ok h" "handler_ok h'"
    using ok infer_h.queue_step_ok [OF rpc] by (auto simp: work_ok_def)
  show ?thesis
    using rpc hok(1)
  proof (cases rule: rpc_effect)
    case same
    then show ?thesis
      using wf unbr ok hok(2) by (simp add: work_ok_def)
  next
    case (submit p st)
    note sub = live_submit [OF wf unbr submit(1)]
    have "count (image_mset payload_tag (map_work (mm_model_map mm') + w)) t =
        (if step_of h' t = Some PROCESS then 1 else 0)" for t
    proof -
      have "count (image_mset payload_tag (map_work (mm_model_map mm) + w)) t =
          (if step_of h t = Some PROCESS then 1 else 0)"
        using ok unfolding work_ok_def by blast
      then show ?thesis
        using sub submit(3,4) by (auto split: if_splits)
    qed
    then show ?thesis
      using sub submit(2) ok hok(2) by (auto simp: work_ok_def split: if_splits)
  qed
qed

section \<open>The update thread keeps the invariant\<close>

lemma sched_work_update [simp]: "sched_work (snd (UpdateBackendInferFunc f s)) = sched_work s"
  by (simp add: sched_work_def)

lemma add_model_live:
  fixes mm :: core_manager
  assumes "um_wf (mm_model_map mm)" "open_queues mm"
  shows "open_queues (add_model B parse (name, v) mm) \<and>
    map_work (mm_model_map (add_model B parse (name, v) mm)) = map_work (mm_model_map mm)"
proof (cases rule: LoadModel_cases [of B parse name v mm])
  case refused
  then show ?thesis
    using assms by (simp add: add_model_def)
next
  case (loaded bi b)
  let ?mm = "mm\<lparr>mm_heap := (mm_heap mm)(mm_next mm := Some b), mm_next := Suc (mm_next mm)\<rparr>"
  have "mm_heap ?mm (bi_backend bi) = Some b"
    by (simp add: loaded(5))
  from new_context_serving [OF this] have
    "\<not> bq_broken (sc_queue (rc_scheduler (new_run_context ?mm bi)))"
    "sched_work (rc_scheduler (new_run_context ?mm bi)) = {#}"
    by (simp_all add: serving_def Let_def)
  then show ?thesis
    using assms loaded(1)
    by (cases "um_find (mm_model_map mm) name")
      (auto simp: add_model_def free_info_def open_queues_def um_insert_def Let_def)
qed

text \<open>The section of an update leaves the work, and its release completes \<open>update_model\<close>.\<close>

lemma swap_backend_live:
  assumes "um_wf (mm_model_map mm)" "open_queues mm" "swap_backend B parse (name, v) mm = (out, mm')"
  shows "open_queues mm' \<and> map_work (mm_model_map mm') = map_work (mm_model_map mm) \<and>
    settled (case out of None \<Rightarrow> Empty_Handed | Some bi \<Rightarrow> Releasing bi) mm' =
      update_model B parse (name, v) mm"
proof -
  have upd: "settled (case out of None \<Rightarrow> Empty_Handed | Some bi \<Rightarrow> Releasing bi) mm' =
      update_model B parse (name, v) mm"
    using assms(3) by (simp add: update_model_sections settled_def split: option.split)
  have "open_queues mm' \<and> map_work (mm_model_map mm') = map_work (mm_model_map mm)"
  proof (cases rule: LoadModel_cases [of B parse name v mm])
    case refused
    then show ?thesis
      using assms by (simp add: swap_backend_def)
  next
    case (loaded bi b)
    show ?thesis
    proof (cases "um_find (mm_model_map mm) name")
      case None
      then show ?thesis
        using assms loaded(1) by (auto simp: swap_backend_def open_queues_def)
    next
      case (Some ctx)
      obtain xs ys where m: "mm_model_map mm = xs @ (name, ctx) # ys"
        "name \<notin> set (um_keys xs)" "name \<notin> set (um_keys ys)"
        using um_split [OF Some assms(1)] by metis
      have "mm_model_map mm' = xs @ (name, \<lparr>rc_scheduler =
          snd (UpdateBackendInferFunc (bi_backend bi) (rc_scheduler ctx)), rc_backend_info = bi\<rparr>) # ys"
        using assms(3) loaded(1) Some um_assign_split [OF m] by (auto simp: swap_backend_def Let_def)
      then show ?thesis
        using assms(2) m(1) by (auto simp: open_queues_def)
    qed
  qed
  then show ?thesis
    using upd by blast
qed

text \<open>The section of a deletion moves the work of the model into the thread's hand.\<close>

lemma take_context_live:
  assumes "um_wf (mm_model_map mm)" "open_queues mm" "take_context n mm = (out, mm')"
  defines "held \<equiv> case out of None \<Rightarrow> Empty_Handed
    | Some ctx \<Rightarrow> Dying (Some (rc_backend_info ctx)) (deletion_start ctx)"
  shows "open_queues mm' \<and> map_work (mm_model_map mm') + dying_work held = map_work (mm_model_map mm) \<and>
    hand_ok held \<and> settled held mm' = delete_model n mm"
proof (cases "um_find (mm_model_map mm) n")
  case None
  then show ?thesis
    using assms by (auto simp: take_context_def delete_model_def settled_def)
next
  case (Some ctx)
  obtain xs ys where m: "mm_model_map mm = xs @ (n, ctx) # ys"
    "n \<notin> set (um_keys xs)" "n \<notin> set (um_keys ys)"
    using um_split [OF Some assms(1)] by metis
  have "mm' = mm\<lparr>mm_model_map := xs @ ys\<rparr>" "out = Some ctx"
    using assms(3) Some um_erase_split [OF m] by (auto simp: take_context_def)
  moreover have "settled held mm' = delete_model n mm"
    using assms(3) by (simp add: delete_model_sections settled_def held_def split: option.split)
  ultimately show ?thesis
    using assms(2) m(1) by (auto simp: held_def open_queues_def deletion_start_def ac_simps)
qed

text \<open>A runner of the erased context.\<close>

lemma live_dying_runner:
  assumes wf: "manager_wf (settled (Dying b s) mm)" and hand: "hand_ok (Dying b s)"
    and ok: "work_ok (sched_work (sys_sched s) + w) h"
    and run: "thread_step i (sys_sched s) (mm, h) = Returns (sc, out, mm', h')"
  shows "manager_wf (settled (Dying b (after_runner sc out s)) mm') \<and> mm_model_map mm' = mm_model_map mm \<and>
    hand_ok (Dying b (after_runner sc out s)) \<and> work_ok (sched_work sc + w) h'"
proof -
  have "\<forall>p \<in># sched_work (sys_sched s). payload_wf p \<and> step_of h (payload_tag p) = Some PROCESS"
    using work_okD [OF ok] by simp
  then show ?thesis
  proof (cases rule: thread_step_cases [of "sys_sched s" h i mm])
    case (moves st s' out1 H h1)
    then have r: "mm' = mm\<lparr>mm_heap := H\<rparr>" "h' = h1" "sc = s'" "out = out1"
      using run by simp_all
    have "\<not> all_exited (sys_sched s)"
      using moves(2,3) all_exited_stays [of "sys_sched s" i st] by auto
    moreover have "settled (Dying b (after_runner sc out s)) mm' = settled (Dying b s) mm'"
      by (simp add: settled_def split: option.split)
    ultimately show ?thesis
      using settled_heap_wf [OF wf moves(4)] work_ok_thread [OF ok moves(2,3,5)] hand r
      by (auto simp: after_runner_def)
  qed (use run in auto)
qed

lemma live_step_ok:
  assumes "live_step parse l l'" "live_ok l"
  shows "live_ok l'"
proof -
  obtain mm h where sv: "lv_server l = (mm, h)"
    by (cases "lv_server l")
  have inv: "manager_wf (settled (lv_hand l) mm)" "open_queues mm" "hand_ok (lv_hand l)"
    "work_ok (map_work (mm_model_map mm) + dying_work (lv_hand l) + lv_lost l) h"
    using assms(2) sv by (simp_all add: live_ok_def live_work_def)
  have umwf: "um_wf (mm_model_map mm)"
    using manager_wfD(1) [OF inv(1)] by simp
  show ?thesis
    using assms(1)
  proof cases
    case (server sh')
    then show ?thesis
      using live_server_step [OF inv(1,2), of "dying_work (lv_hand l) + lv_lost l" h] inv(3,4) sv
      by (cases sh') (auto simp: live_ok_def live_work_def ac_simps)
  next
    case (scan mm' h' B added updated deleted)
    then show ?thesis
      using assms(2) by (simp add: live_ok_def live_work_def)
  next
    case (add mm1 h1 info added B)
    then show ?thesis
      using inv sv add_model_wf [of mm B parse "fst info" "snd info"]
        add_model_live [OF umwf inv(2), of B parse "fst info" "snd info"]
      by (simp add: live_ok_def live_work_def settled_def)
  next
    case (swap mm1 h1 info updated B out mm')
    then have "swap_backend B parse (fst info, snd info) mm = (out, mm')"
      using sv by simp
    from swap_backend_live [OF umwf inv(2) this] show ?thesis
      using swap inv sv update_model_wf [of mm B parse "fst info" "snd info"]
      by (cases out) (auto simp: live_ok_def live_work_def settled_def)
  next
    case (release bi mm1 h1)
    then show ?thesis
      using inv sv by (simp add: live_ok_def live_work_def settled_def free_info_def open_queues_def)
  next
    case (take mm1 h1 n deleted out mm')
    then have "take_context n mm = (out, mm')"
      using sv by simp
    from take_context_live [OF umwf inv(2) this] show ?thesis
      using take inv sv delete_model_wf [of mm n]
      by (auto simp: live_ok_def live_work_def settled_def add.assoc [symmetric])
  next
    case (free bi s mm1 h1)
    then show ?thesis
      using inv sv by (auto simp: live_ok_def live_work_def settled_def free_info_def open_queues_def)
  next
    case (dying_runner b s i sc out sh')
    obtain mm' h' where sh': "sh' = (mm', h')"
      by (cases sh')
    have "work_ok (sched_work (sys_sched s) + (map_work (mm_model_map mm) + lv_lost l)) h"
      using inv(4) dying_runner(2) by (simp add: ac_simps)
    from live_dying_runner [OF _ _ this] show ?thesis
      using dying_runner inv(1-3) sv sh'
      by (auto simp: live_ok_def live_work_def open_queues_def after_runner_def ac_simps)
  next
    case (dying_stop s s')
    note fr = stop_step_frame [OF dying_stop(3,4)]
    have "sys_stop s' = Stopped \<Longrightarrow> all_exited (sys_sched s')"
      using dying_stop(3,4) by (cases) simp_all
    moreover have "sched_work (sys_sched s') = sched_work (sys_sched s)"
      using fr by (simp add: sched_work_def handled_def)
    ultimately show ?thesis
      using dying_stop(1,2) inv sv by (simp add: live_ok_def live_work_def settled_def)
  next
    case (destroyed s)
    then have "sched_work (sys_sched s) = mset (bq_buffer (sc_queue (sys_sched s)))"
      using inv(3) all_exited_handled [of "sys_sched s"] by (simp add: sched_work_def)
    then show ?thesis
      using destroyed inv sv by (simp add: live_ok_def live_work_def settled_def ac_simps)
  qed
qed

lemma live_reachable_ok: "live_reachable B parse cfg l \<Longrightarrow> live_ok l"
proof (induction rule: live_reachable.induct)
  case (start mm)
  have "server_reachable B parse cfg (mm, new_infer_handler)"
    using start by (rule server_reachable.start)
  from server_reachable_ok [OF this] server_reachable_wf [OF this] ModelManager_idle [OF start] show ?case
    by (auto simp: idle_manager_def live_ok_def live_start_def live_work_def settled_def open_queues_def work_ok_def
        server_ok_def serving_def Let_def split: if_splits)
next
  case (step l l')
  then show ?case
    using live_step_ok by blast
qed

end
