(* ===== verification/Live_Isolation.thy ===== *)
theory Live_Isolation
  imports Live_Invariant
begin

text \<open>
  Which backends a runner can be in while the repository is updated: one of its own model.
  It never runs a payload on the backend of another model, and once the backend of a
  deleted model is freed none of its calls in progress returns.
\<close>

section \<open>Pointers of runners\<close>

fun pc_ptr :: "('f, 'p) runner_pc \<Rightarrow> 'f option" where
  "pc_ptr (Copied p a) = Some a"
| "pc_ptr (In_Call p a) = Some a"
| "pc_ptr _ = None"

text \<open>The pointers a scheduler's runners hold or can get.\<close>

definition reach :: "('f, 'p) scheduler \<Rightarrow> 'f set" where
  "reach s = insert (sc_infer_func s) {a. \<exists>t \<in> set (sc_threads s). pc_ptr (snd t) = Some a}"

definition of_model :: "'p manager \<Rightarrow> string \<Rightarrow> ptr set \<Rightarrow> bool" where
  "of_model mm n ps \<longleftrightarrow> (\<forall>a \<in> ps. a < mm_next mm \<and> (\<forall>b. mm_heap mm a = Some b \<longrightarrow> mb_name b = n))"

definition all_gone :: "'p manager \<Rightarrow> ptr set \<Rightarrow> bool" where
  "all_gone mm ps \<longleftrightarrow> (\<forall>a \<in> ps. a < mm_next mm \<and> mm_heap mm a = None)"

fun hand_isolated :: "'p manager \<Rightarrow> hand \<Rightarrow> bool" where
  "hand_isolated mm (Dying (Some bi) s) \<longleftrightarrow>
     of_model mm (bi_model_name bi) (reach (sys_sched s)) \<and> bi_model_name bi \<notin> set (um_keys (mm_model_map mm))"
| "hand_isolated mm (Dying None s) \<longleftrightarrow> all_gone mm (reach (sys_sched s))"
| "hand_isolated mm _ \<longleftrightarrow> True"

definition isolated :: "live \<Rightarrow> bool" where
  "isolated l \<longleftrightarrow>
     (let mm = fst (lv_server l) in
        (\<forall>e \<in> set (mm_model_map mm). of_model mm (fst e) (reach (rc_scheduler (snd e)))) \<and>
        hand_isolated mm (lv_hand l))"

lemma reach_runner:
  assumes "runner_step st i s = Some (s', out)"
  shows "reach s' \<subseteq> reach s"
proof -
  obtain pc where pc: "sc_threads s' = (sc_threads s)[i := (fst (sc_threads s ! i), pc)]"
    "pc_ptr pc = None \<or> pc_ptr pc = Some (sc_infer_func s)"
    using assms
    by (cases "snd (sc_threads s ! i)") (auto simp: runner_step_def split: if_splits option.splits)
  then show ?thesis
    using runner_step_frame(5) [OF assms] unfolding reach_def pc(1)
    by (auto dest!: set_update_subset_insert [THEN subsetD])
qed

lemma reach_frame [simp]:
  "reach (s\<lparr>sc_queue := q\<rparr>) = reach s" "reach (s\<lparr>sc_running := r\<rparr>) = reach s"
  by (simp_all add: reach_def)

section \<open>What a step does to the heap\<close>

text \<open>Old pointers keep the name of their backend or lose it.\<close>

definition later_heap :: "'p manager \<Rightarrow> 'p manager \<Rightarrow> bool" where
  "later_heap mm mm' \<longleftrightarrow> mm_next mm \<le> mm_next mm' \<and>
     (\<forall>a < mm_next mm. \<forall>b'. mm_heap mm' a = Some b' \<longrightarrow>
        (\<exists>b. mm_heap mm a = Some b \<and> mb_name b = mb_name b'))"

lemma later_of_model: "later_heap mm mm' \<Longrightarrow> of_model mm n ps \<Longrightarrow> of_model mm' n ps"
  unfolding later_heap_def of_model_def by (metis order_less_le_trans)

lemma later_all_gone: "later_heap mm mm' \<Longrightarrow> all_gone mm ps \<Longrightarrow> all_gone mm' ps"
  unfolding later_heap_def all_gone_def by (metis not_Some_eq option.distinct(1) order_less_le_trans)

lemma later_heap_like:
  assumes "heap_like H (mm_heap mm)"
  shows "later_heap mm (mm\<lparr>mm_heap := H\<rparr>)"
proof -
  have "\<exists>b. mm_heap mm a = Some b \<and> mb_name b = mb_name b'" if "H a = Some b'" for a b'
    using assms [unfolded heap_like_def, THEN spec, of a] that by (cases "mm_heap mm a") auto
  then show ?thesis
    by (simp add: later_heap_def)
qed

lemma later_heap_simps [simp]:
  "later_heap mm mm" "later_heap mm (free_info bi mm)"
  "later_heap mm (mm'\<lparr>mm_model_map := m\<rparr>) = later_heap mm mm'"
  by (auto simp: later_heap_def free_info_def)

lemma later_heap_put [simp]: "later_heap mm (put_sched n ctx s mm') = later_heap mm mm'"
  by (simp add: put_sched_def)

lemma of_model_subset: "of_model mm n ps \<Longrightarrow> qs \<subseteq> ps \<Longrightarrow> of_model mm n qs"
  by (auto simp: of_model_def)

lemma all_gone_subset: "all_gone mm ps \<Longrightarrow> qs \<subseteq> ps \<Longrightarrow> all_gone mm qs"
  by (auto simp: all_gone_def)

section \<open>The steps keep runners apart\<close>

text \<open>A step of the server changes at most the scheduler of one model, by a push or a runner.\<close>

lemma live_server_effect:
  assumes wf: "manager_wf (settled held mm)" and ok: "work_ok (map_work (mm_model_map mm) + w) h"
    and step: "server_step (mm, h) (mm', h')"
  shows "later_heap mm mm' \<and> um_keys (mm_model_map mm') = um_keys (mm_model_map mm) \<and>
    (\<forall>e' \<in> set (mm_model_map mm'). \<exists>e \<in> set (mm_model_map mm).
       fst e' = fst e \<and> reach (rc_scheduler (snd e')) \<subseteq> reach (rc_scheduler (snd e)))"
proof -
  have unchanged: ?thesis if "mm' = mm"
    using that by auto
  have put: ?thesis if find: "um_find (mm_model_map mm) n = Some ctx"
    and mm': "mm' = put_sched n ctx s (mm\<lparr>mm_heap := H\<rparr>)" "heap_like H (mm_heap mm)"
    and sub: "reach s \<subseteq> reach (rc_scheduler ctx)" for n ctx s H
  proof -
    obtain xs ys where m: "mm_model_map (mm\<lparr>mm_heap := H\<rparr>) = xs @ (n, ctx) # ys"
      "n \<notin> set (um_keys xs)" "n \<notin> set (um_keys ys)"
      using um_split [OF find live_served(1) [OF wf find]] by (metis manager.select_convs(2) manager.surjective manager.update_convs(5))
    have "mm_model_map mm' = xs @ (n, ctx\<lparr>rc_scheduler := s\<rparr>) # ys"
      using put_sched_split [OF m] mm'(1) by simp
    moreover have "later_heap mm mm'"
      using later_heap_like [OF mm'(2)] mm'(1) by simp
    ultimately show ?thesis
      using m(1) sub by (auto simp: um_keys_def)
  qed
  have hok: "handler_ok h"
    using ok by (simp add: work_ok_def)
  show ?thesis
    using step hok
  proof (cases rule: server_step_manager)
    case same
    then show ?thesis
      by (rule unchanged)
  next
    case (submit p st)
    then consider "mm' = mm"
      | ctx q where "um_find (mm_model_map mm) (pl_model_name p) = Some ctx"
        "mm' = put_sched (pl_model_name p) ctx ((rc_scheduler ctx)\<lparr>sc_queue := q\<rparr>) mm"
      using InferAsync_running [OF submit] live_served(3) [OF wf] by blast
    then show ?thesis
      by cases (use unchanged put [where H = "mm_heap mm"] in auto)
  next
    case (run n i)
    then obtain ctx where find: "um_find (mm_model_map mm) n = Some ctx"
      by (cases "um_find (mm_model_map mm) n") (simp_all add: model_runner_thread)
    obtain v where "map_work (mm_model_map mm) = sched_work (rc_scheduler ctx) + v"
      using put_sched_work [OF live_served(1) [OF wf find] find] by metis
    then have "\<forall>p \<in># sched_work (rc_scheduler ctx). payload_wf p \<and> step_of h (payload_tag p) = Some PROCESS"
      using work_okD [OF ok] by simp
    then show ?thesis
    proof (cases rule: thread_step_cases [of "rc_scheduler ctx" h i mm])
      case (moves st s' out H h1)
      then have "mm' = put_sched n ctx s' (mm\<lparr>mm_heap := H\<rparr>)"
        using run find by (simp add: model_runner_thread)
      then show ?thesis
        using put [OF find _ moves(4) reach_runner [OF moves(3)]] by blast
    qed (use run find in \<open>simp_all add: model_runner_thread\<close>)
  qed
qed

text \<open>Loading a model takes a fresh pointer, for a backend of that name.\<close>

lemma later_heap_loaded:
  "later_heap mm (mm\<lparr>mm_heap := (mm_heap mm)(mm_next mm := Some b), mm_next := Suc (mm_next mm)\<rparr>)"
  by (simp add: later_heap_def)

lemma reach_new_context:
  fixes mm :: core_manager
  shows "reach (rc_scheduler (new_run_context mm bi)) = {bi_backend bi}"
proof -
  have "pc_ptr (snd t) = None"
    if "t \<in> set (sc_threads (rc_scheduler (new_run_context mm bi)))" for t
    using that new_threads_At_Test
    by (fastforce simp: new_run_context_def Start_def SimpleScheduler_def)
  then show ?thesis
    by (auto simp: reach_def) (simp add: new_run_context_def Start_def SimpleScheduler_def)
qed

lemma add_model_isolated:
  fixes mm :: core_manager
  assumes mm'_def: "mm' = add_model B parse (name, v) mm"
    and iso: "\<forall>e \<in> set (mm_model_map mm). of_model mm (fst e) (reach (rc_scheduler (snd e)))"
  shows "\<forall>e \<in> set (mm_model_map mm'). of_model mm' (fst e) (reach (rc_scheduler (snd e)))"
proof (cases rule: LoadModel_cases [of B parse name v mm])
  case refused
  then show ?thesis
    using iso by (simp add: mm'_def add_model_def)
next
  case (loaded bi b)
  let ?mm = "mm\<lparr>mm_heap := (mm_heap mm)(mm_next mm := Some b), mm_next := Suc (mm_next mm)\<rparr>"
  show ?thesis
  proof (cases "um_find (mm_model_map mm) name")
    case None
    then have eq: "mm' = ?mm\<lparr>mm_model_map := mm_model_map mm @ [(name, new_run_context ?mm bi)]\<rparr>"
      by (simp add: mm'_def add_model_def loaded(1) um_insert_def)
    have later: "later_heap mm mm'"
      unfolding eq using later_heap_loaded by simp
    have "of_model mm' name (reach (rc_scheduler (new_run_context ?mm bi)))"
      unfolding reach_new_context eq using loaded(5,7) by (simp add: of_model_def)
    then show ?thesis
      using iso later_of_model [OF later] by (auto simp: eq)
  next
    case (Some ctx)
    then have eq: "mm' = free_info bi ?mm"
      by (simp add: mm'_def add_model_def loaded(1))
    have "later_heap mm mm'"
      unfolding eq by (auto simp: later_heap_def free_info_def)
    from later_of_model [OF this] show ?thesis
      using iso by (simp add: eq free_info_def)
  qed
qed

lemma swap_backend_isolated:
  fixes mm :: core_manager
  assumes wf: "um_wf (mm_model_map mm)" and swap: "swap_backend B parse (name, v) mm = (out, mm')"
    and iso: "\<forall>e \<in> set (mm_model_map mm). of_model mm (fst e) (reach (rc_scheduler (snd e)))"
  shows "\<forall>e \<in> set (mm_model_map mm'). of_model mm' (fst e) (reach (rc_scheduler (snd e)))"
proof (cases rule: LoadModel_cases [of B parse name v mm])
  case refused
  then show ?thesis
    using iso swap by (simp add: swap_backend_def)
next
  case (loaded bi b)
  let ?mm = "mm\<lparr>mm_heap := (mm_heap mm)(mm_next mm := Some b), mm_next := Suc (mm_next mm)\<rparr>"
  show ?thesis
  proof (cases "um_find (mm_model_map mm) name")
    case None
    then have "mm' = ?mm"
      using swap loaded(1) by (simp add: swap_backend_def)
    moreover from this have "later_heap mm mm'"
      using later_heap_loaded by simp
    ultimately show ?thesis
      using iso later_of_model [of mm mm'] by simp
  next
    case (Some ctx)
    obtain xs ys where m: "mm_model_map mm = xs @ (name, ctx) # ys"
      "name \<notin> set (um_keys xs)" "name \<notin> set (um_keys ys)"
      using um_split [OF Some wf] by metis
    define s where "s = snd (UpdateBackendInferFunc (bi_backend bi) (rc_scheduler ctx))"
    have eq: "mm' = ?mm\<lparr>mm_model_map := xs @ (name, \<lparr>rc_scheduler = s, rc_backend_info = bi\<rparr>) # ys\<rparr>"
      using swap loaded(1) Some um_assign_split [OF m] by (auto simp: swap_backend_def Let_def s_def)
    have later: "later_heap mm mm'"
      unfolding eq using later_heap_loaded by simp
    have "reach s \<subseteq> insert (mm_next mm) (reach (rc_scheduler ctx))"
      using loaded(5) by (auto simp: s_def UpdateBackendInferFunc_def reach_def)
    moreover have "of_model mm' name (reach (rc_scheduler ctx))"
      using later_of_model [OF later] bspec [OF iso, of "(name, ctx)"] m(1) by simp
    then have "of_model mm' name (insert (mm_next mm) (reach (rc_scheduler ctx)))"
      using loaded(7) by (simp add: of_model_def eq)
    ultimately have "of_model mm' name (reach s)"
      using of_model_subset by blast
    then show ?thesis
      using iso later_of_model [OF later] m(1) by (auto simp: eq)
  qed
qed

text \<open>Once the pending backend is freed, no pointer of the erased model has a backend.\<close>

lemma freed_all_gone:
  assumes wf: "manager_wf (settled (Dying (Some bi) s) mm)" and hand: "hand_isolated mm (Dying (Some bi) s)"
  shows "all_gone (free_info bi mm) (reach (sys_sched s))"
proof -
  have "mm_heap (free_info bi mm) a = None" if a: "a \<in> reach (sys_sched s)" for a
  proof (rule ccontr)
    assume "mm_heap (free_info bi mm) a \<noteq> None"
    then obtain b where b: "mm_heap (free_info bi mm) a = Some b"
      by blast
    then have heap: "mm_heap mm a = Some b"
      by (auto simp: free_info_def split: if_splits)
    have "a \<in> set (owned (mm_model_map mm))"
      using manager_wfD(4) [OF wf] b by (auto simp: settled_def free_info_def dom_def)
    then obtain n ctx where e: "(n, ctx) \<in> set (mm_model_map mm)" "bi_backend (rc_backend_info ctx) = a"
      by (auto simp: owned_mem)
    have "context_ok (mm_heap (free_info bi mm)) (n, ctx)"
      using manager_wfD(2) [OF wf] e(1) by (simp add: settled_def free_info_def)
    then have "mb_name b = n"
      using e(2) b by (auto simp: context_ok_def Let_def)
    moreover have "mb_name b = bi_model_name bi" "bi_model_name bi \<notin> set (um_keys (mm_model_map mm))"
      using hand a heap by (auto simp: of_model_def)
    ultimately show False
      using e(1) by (force simp: um_keys_def)
  qed
  then show ?thesis
    using hand by (auto simp: all_gone_def of_model_def free_info_def)
qed

lemma isolated_step:
  assumes "live_step parse l l'" "live_ok l" "isolated l"
  shows "isolated l'"
proof -
  obtain mm h where sv: "lv_server l = (mm, h)"
    by (cases "lv_server l")
  have inv: "manager_wf (settled (lv_hand l) mm)" "open_queues mm"
    "work_ok (map_work (mm_model_map mm) + dying_work (lv_hand l) + lv_lost l) h"
    using assms(2) sv by (simp_all add: live_ok_def live_work_def)
  have iso: "\<forall>e \<in> set (mm_model_map mm). of_model mm (fst e) (reach (rc_scheduler (snd e)))"
    "hand_isolated mm (lv_hand l)"
    using assms(3) sv by (simp_all add: isolated_def Let_def)
  have umwf: "um_wf (mm_model_map mm)"
    using manager_wfD(1) [OF inv(1)] by simp
  have keeps: "isolated (l\<lparr>lv_server := (mm', h')\<rparr>)"
    if later: "later_heap mm mm'" and keys: "um_keys (mm_model_map mm') = um_keys (mm_model_map mm)"
      and sub: "\<forall>e' \<in> set (mm_model_map mm'). \<exists>e \<in> set (mm_model_map mm).
         fst e' = fst e \<and> reach (rc_scheduler (snd e')) \<subseteq> reach (rc_scheduler (snd e))" for mm' h'
  proof -
    have "of_model mm' (fst e') (reach (rc_scheduler (snd e')))" if e': "e' \<in> set (mm_model_map mm')" for e'
      using sub e' iso(1) later_of_model [OF later] of_model_subset by metis
    moreover have "hand_isolated mm' (lv_hand l)"
      using iso(2) later_of_model [OF later] later_all_gone [OF later] keys
      by (cases "(mm, lv_hand l)" rule: hand_isolated.cases) auto
    ultimately show ?thesis
      by (simp add: isolated_def)
  qed
  show ?thesis
    using assms(1)
  proof cases
    case (server sh')
    then show ?thesis
      using live_server_effect [of "lv_hand l" mm "dying_work (lv_hand l) + lv_lost l" h] inv keeps sv
      by (cases sh') (auto simp: ac_simps)
  next
    case (scan mm1 h1 B added updated deleted)
    then show ?thesis
      using assms(3) by (simp add: isolated_def)
  next
    case (add mm1 h1 info added B)
    then show ?thesis
      using add_model_isolated [OF _ iso(1), of _ B parse "fst info" "snd info"] sv
      by (simp add: isolated_def Let_def)
  next
    case (swap mm1 h1 info updated B out mm')
    then have "swap_backend B parse (fst info, snd info) mm = (out, mm')"
      using sv by simp
    from swap_backend_isolated [OF umwf this iso(1)] show ?thesis
      using swap by (auto simp: isolated_def Let_def split: option.split)
  next
    case (release bi mm1 h1)
    then show ?thesis
      using iso(1) later_of_model [of mm "free_info bi mm"] sv
      by (simp add: isolated_def Let_def) (simp add: free_info_def)
  next
    case (take mm1 h1 n deleted out mm')
    show ?thesis
    proof (cases "um_find (mm_model_map mm) n")
      case None
      then show ?thesis
        using take iso(1) sv by (auto simp: isolated_def take_context_def Let_def)
    next
      case (Some ctx)
      obtain xs ys where m: "mm_model_map mm = xs @ (n, ctx) # ys"
        "n \<notin> set (um_keys xs)" "n \<notin> set (um_keys ys)"
        using um_split [OF Some umwf] by metis
      have mm': "mm' = mm\<lparr>mm_model_map := xs @ ys\<rparr>" "out = Some ctx"
        using take Some um_erase_split [OF m] sv by (auto simp: take_context_def)
      have "manager_wf mm"
        using inv(1) take(2) by (simp add: settled_def)
      then have "bi_model_name (rc_backend_info ctx) = n"
        using manager_wfD(2) [of mm "(n, ctx)"] m(1) by (simp add: context_ok_def Let_def)
      then show ?thesis
        using take iso(1) m mm' by (auto simp: isolated_def Let_def deletion_start_def of_model_def um_keys_def)
    qed
  next
    case (free bi s mm1 h1)
    then have "all_gone (free_info bi mm) (reach (sys_sched s))"
      using freed_all_gone inv(1) iso(2) by simp
    then show ?thesis
      using free iso(1) later_of_model [of mm "free_info bi mm"] sv
      by (simp add: isolated_def Let_def) (simp add: free_info_def)
  next
    case (dying_runner b s i sc out sh')
    have "\<forall>p \<in># sched_work (sys_sched s). payload_wf p \<and> step_of h (payload_tag p) = Some PROCESS"
      using work_okD [OF inv(3)] dying_runner(2) by simp
    then show ?thesis
    proof (cases rule: thread_step_cases [of "sys_sched s" h i mm])
      case (moves st s' out1 H h1)
      then have r: "sc = s'" "sh' = (mm\<lparr>mm_heap := H\<rparr>, h1)"
        using dying_runner(3) sv by simp_all
      note later = later_heap_like [OF moves(4)]
      have "hand_isolated (mm\<lparr>mm_heap := H\<rparr>) (Dying b (after_runner sc out s))"
        using iso(2) dying_runner(2) reach_runner [OF moves(3)] r(1)
        by (cases b) (auto simp: after_runner_def intro: of_model_subset [OF later_of_model [OF later]]
            all_gone_subset [OF later_all_gone [OF later]])
      then show ?thesis
        using dying_runner(1) iso(1) later_of_model [OF later] r(2) by (simp add: isolated_def Let_def)
    qed (use dying_runner(3) sv in auto)
  next
    case (dying_stop s s')
    have "reach (sys_sched s') = reach (sys_sched s)"
      using stop_step_frame [OF dying_stop(3,4)] by (simp add: reach_def)
    then show ?thesis
      using dying_stop(1,2) iso sv by (simp add: isolated_def Let_def)
  next
    case (destroyed s)
    then show ?thesis
      using iso sv by (simp add: isolated_def Let_def)
  qed
qed

lemma live_reachable_isolated: "live_reachable B parse cfg l \<Longrightarrow> isolated l"
proof (induction rule: live_reachable.induct)
  case (start mm)
  have "server_reachable B parse cfg (mm, new_infer_handler)"
    using start by (rule server_reachable.start)
  note wf = server_reachable_wf [OF this, unfolded fst_conv]
  have "of_model mm n (reach (rc_scheduler ctx))" if e: "(n, ctx) \<in> set (mm_model_map mm)" for n ctx
  proof -
    have ok: "context_ok (mm_heap mm) (n, ctx)"
      using manager_wfD(2) [OF wf e] .
    have "sched_work (rc_scheduler ctx) \<subseteq># map_work (mm_model_map mm)"
      using split_list [OF e] by auto
    then have none: "handled (rc_scheduler ctx) = {#}"
      using ModelManager_idle [OF start] by (simp add: idle_manager_def sched_work_def)
    have "pc_ptr (snd t) = None" if "t \<in> set (sc_threads (rc_scheduler ctx))" for t
      using handled_empty_pc [OF none that] by (cases "snd t") auto
    then have "reach (rc_scheduler ctx) = {bi_backend (rc_backend_info ctx)}"
      using ok by (auto simp: reach_def context_ok_def Let_def)
    then show ?thesis
      using ok manager_wfD(5) [OF wf] by (auto simp: of_model_def context_ok_def Let_def)
  qed
  then show ?case
    by (auto simp: isolated_def live_start_def)
next
  case (step l l')
  then show ?case
    using isolated_step live_reachable_ok by blast
qed

section \<open>What a call in progress runs on\<close>

lemma call_in_reach:
  "i < length (sc_threads s) \<Longrightarrow> sc_threads s ! i = (idx, In_Call p a) \<Longrightarrow> a \<in> reach s"
  using nth_mem [of i "sc_threads s"] by (force simp: reach_def)

lemma isolated_call:
  assumes "isolated l" "lv_server l = (mm, h)" "um_wf (mm_model_map mm)"
    "um_find (mm_model_map mm) n = Some ctx"
    "i < length (sc_threads (rc_scheduler ctx))" "sc_threads (rc_scheduler ctx) ! i = (idx, In_Call p a)"
    "mm_heap mm a = Some b"
  shows "mb_name b = n"
proof -
  have "(n, ctx) \<in> set (mm_model_map mm)"
    using assms(3,4) um_find_set by metis
  then have "of_model mm n (reach (rc_scheduler ctx))"
    using assms(1,2) by (fastforce simp: isolated_def Let_def)
  then show ?thesis
    using call_in_reach [OF assms(5,6)] assms(7) by (simp add: of_model_def)
qed

lemma dying_call_gone:
  assumes "isolated l" "lv_server l = (mm, h)" "lv_hand l = Dying None s"
    "i < length (sc_threads (sys_sched s))" "sc_threads (sys_sched s) ! i = (idx, In_Call p a)"
  shows "thread_step i (sys_sched s) (mm, h) = Dangling"
proof -
  have "all_gone mm (reach (sys_sched s))"
    using assms(1-3) by (simp add: isolated_def)
  then have "mm_heap mm a = None"
    using call_in_reach [OF assms(4,5)] by (simp add: all_gone_def)
  then show ?thesis
    using assms(4,5) by (simp add: thread_step_def backend_call_def)
qed

end
