(* ===== verification/Live_Progress.thy ===== *)
theory Live_Progress
  imports Live_Isolation
begin

text \<open>
  What the update thread can do to a live server: how a deletion comes to its end, what it
  loses, and that a pass nothing else interferes with is \<open>LoadModels\<close>.
\<close>

section \<open>What a runner can meet\<close>

text \<open>The only way a runner goes wrong is a call of a backend that is gone or too small.\<close>

lemma live_runner_outcomes:
  assumes ok: "live_ok l" and sv: "lv_server l = (mm, h)" and run: "model_runner n i (mm, h) = r"
  obtains "r = Blocks" | sh' where "r = Returns sh'"
  | ctx idx p a where "r = Dangling" "um_find (mm_model_map mm) n = Some ctx"
      "i < length (sc_threads (rc_scheduler ctx))" "sc_threads (rc_scheduler ctx) ! i = (idx, In_Call p a)"
      "backend_call idx p a mm = Dangling"
proof (cases "um_find (mm_model_map mm) n")
  case None
  then show ?thesis
    using run that(1) by (simp add: model_runner_thread)
next
  case (Some ctx)
  have inv: "manager_wf (settled (lv_hand l) mm)"
    "work_ok (map_work (mm_model_map mm) + dying_work (lv_hand l) + lv_lost l) h"
    using ok sv by (simp_all add: live_ok_def live_work_def)
  obtain w where "map_work (mm_model_map mm) = sched_work (rc_scheduler ctx) + w"
    using put_sched_work [OF live_served(1) [OF inv(1) Some] Some] by metis
  then have "\<forall>p \<in># sched_work (rc_scheduler ctx). payload_wf p \<and> step_of h (payload_tag p) = Some PROCESS"
    using work_okD [OF inv(2)] by simp
  then show ?thesis
  proof (cases rule: thread_step_cases [of "rc_scheduler ctx" h i mm])
    case waits
    then show ?thesis
      using run Some that(1) by (simp add: model_runner_thread)
  next
    case (gone idx p a)
    then show ?thesis
      using run Some that(3) by (simp add: model_runner_thread)
  next
    case (moves st s' out H h')
    then show ?thesis
      using run Some that(2) [of "(put_sched n ctx s' (mm\<lparr>mm_heap := H\<rparr>), h')"]
      by (simp add: model_runner_thread)
  qed
qed

text \<open>
  What goes wrong is a call of a backend of the model that was freed, or that has exactly as
  many contexts as the runner's index.
\<close>

lemma dangling_call:
  assumes ok: "live_ok l" and iso: "isolated l" and sv: "lv_server l = (mm, h)"
    and run: "model_runner n i (mm, h) = Dangling"
  obtains ctx idx p a where "um_find (mm_model_map mm) n = Some ctx"
    "i < length (sc_threads (rc_scheduler ctx))" "sc_threads (rc_scheduler ctx) ! i = (idx, In_Call p a)"
    "mm_heap mm a = None \<or>
      (\<exists>b. mm_heap mm a = Some b \<and> mb_name b = n \<and> int (length (mb_contexts b)) = sint idx)"
proof (cases rule: live_runner_outcomes [OF ok sv run])
  case (3 ctx idx p a)
  have "um_wf (mm_model_map mm)"
    using live_served(1) [of "lv_hand l" mm n ctx] ok sv 3(2) by (simp add: live_ok_def)
  then have name: "mb_name b = n" if "mm_heap mm a = Some b" for b
    using isolated_call [OF iso sv _ 3(2-4) that] by simp
  have "int (length (mb_contexts b)) = sint idx" if "mm_heap mm a = Some b" for b
    using 3(5) that by (auto simp: backend_call_def ModelBackend_Run_def Let_def split: if_splits)
  then have "mm_heap mm a = None \<or>
      (\<exists>b. mm_heap mm a = Some b \<and> mb_name b = n \<and> int (length (mb_contexts b)) = sint idx)"
    using name by (cases "mm_heap mm a") simp_all
  then show ?thesis
    by (rule that [OF 3(2-4)])
qed simp_all

lemma dying_runner_outcomes:
  assumes ok: "live_ok l" and sv: "lv_server l = (mm, h)" and hand: "lv_hand l = Dying b s"
    and run: "thread_step i (sys_sched s) (mm, h) = r"
  obtains "r = Blocks" | x where "r = Returns x"
  | idx p a where "r = Dangling" "i < length (sc_threads (sys_sched s))"
      "sc_threads (sys_sched s) ! i = (idx, In_Call p a)" "backend_call idx p a mm = Dangling"
proof -
  have "work_ok (map_work (mm_model_map mm) + dying_work (lv_hand l) + lv_lost l) h"
    using ok sv by (simp add: live_ok_def live_work_def)
  then have "\<forall>p \<in># sched_work (sys_sched s). payload_wf p \<and> step_of h (payload_tag p) = Some PROCESS"
    using work_okD hand by fastforce
  then show ?thesis
    by (cases rule: thread_step_cases [of "sys_sched s" h i mm]) (use run that in auto)
qed

section \<open>Lost calls\<close>

lemma live_lost_mono: "live_step parse l l' \<Longrightarrow> lv_lost l \<subseteq># lv_lost l'"
  by (induction rule: live_step.induct) simp_all

lemma live_steps_lost_mono: "(live_step parse)\<^sup>*\<^sup>* l l' \<Longrightarrow> lv_lost l \<subseteq># lv_lost l'"
  by (induction rule: rtranclp_induct) (auto dest: live_lost_mono intro: subset_mset.order_trans)

text \<open>A lost call stays in progress, so gRPC never finishes its shutdown.\<close>

lemma lost_in_progress:
  assumes "live_ok l" "p \<in># lv_lost l" "lv_server l = (mm, h)"
  shows "step_of h (payload_tag p) = Some PROCESS" "\<not> cq_shut h" "payload_tag p \<notin> set (answered h)"
proof -
  have ok: "work_ok (map_work (mm_model_map mm) + dying_work (lv_hand l) + lv_lost l) h"
    using assms(1,3) by (simp add: live_ok_def live_work_def)
  show live: "step_of h (payload_tag p) = Some PROCESS"
    using work_okD [OF ok] assms(2) by simp
  then show "\<not> cq_shut h" "payload_tag p \<notin> set (answered h)"
    using ok by (auto simp: work_ok_def handler_ok_def shutdown_ok_def answers_ok_def)
qed

section \<open>The end of a deletion\<close>

text \<open>A runner that does not come to a call of the backend any more.\<close>

fun quiet_pc :: "('f, 'p) runner_pc \<Rightarrow> bool" where
  "quiet_pc (Got _) = False"
| "quiet_pc (Copied _ _) = False"
| "quiet_pc (In_Call _ _) = False"
| "quiet_pc _ = True"

definition quiet :: "('f, 'p) scheduler \<Rightarrow> bool" where
  "quiet s \<longleftrightarrow> (\<forall>t \<in> set (sc_threads s). quiet_pc (snd t))"

lemma handled_quiet: "handled s = {#} \<Longrightarrow> quiet s"
proof -
  assume none: "handled s = {#}"
  have "quiet_pc (snd t)" if t: "t \<in> set (sc_threads s)" for t
    using handled_empty_pc [OF none t] by (cases "snd t") auto
  then show ?thesis
    by (simp add: quiet_def)
qed

lemma quiet_runner:
  assumes "quiet s" "shut s" "i < length (sc_threads s)" "runner_step st i s = Some (s', out)"
  shows "quiet s' \<and> bq_buffer (sc_queue s') = bq_buffer (sc_queue s) \<and>
    (handled s = {#} \<longrightarrow> handled s' = {#} \<and> out = None)"
proof -
  have pc: "quiet_pc (snd (sc_threads s ! i))"
    using assms(1,3) by (simp add: quiet_def)
  then obtain pc' where pc': "sc_threads s' = (sc_threads s)[i := (fst (sc_threads s ! i), pc')]"
    "quiet_pc pc'" "bq_buffer (sc_queue s') = bq_buffer (sc_queue s)"
    using assms(2,4)
    by (cases "snd (sc_threads s ! i)") (auto simp: runner_step_def shut_def pop_on_broken)
  have "handled s = {#} \<Longrightarrow> handled s' = {#} \<and> out = None"
    using runner_step_account [OF assms(3,4)] pc'(3) by (cases out) auto
  then show ?thesis
    using pc' assms(1) unfolding quiet_def
    by (auto dest!: set_update_subset_insert [THEN subsetD])
qed

lemma thread_step_quiet:
  assumes work: "\<forall>p \<in># sched_work s. payload_wf p \<and> step_of h (payload_tag p) = Some PROCESS"
    and i: "i < length (sc_threads s)" and pc: "quiet_pc (snd (sc_threads s ! i))"
    and run: "runner_step Success i s = Some (s', out)"
  shows "\<exists>h'. thread_step i s (mm, h) = Returns (s', out, mm, h') \<and> (out = None \<longrightarrow> h' = h)"
proof -
  have none: "(case sc_threads s ! i of (idx, In_Call p a) \<Rightarrow> backend_call idx p a mm
      | _ \<Rightarrow> Returns (Success, mm)) = Returns (Success, mm)"
    using pc by (auto split: prod.split runner_pc.split)
  show ?thesis
  proof (cases out)
    case None
    then show ?thesis
      using i run none by (simp add: thread_step_def)
  next
    case (Some c)
    obtain p st' message where c: "c = (p, st', message)"
      by (cases c)
    have "p \<in># sched_work s"
      using runner_step_work [OF i run] Some c
      by (metis add_mset_add_single case_prod_conv fst_conv option.simps(5) union_single_eq_member)
    then obtain resp where "infer_callback p st' message h =
        Returns (Inr (OnCompleted (payload_tag p) (set_response (payload_tag p) resp h)))"
      using infer_callback_ok work by metis
    then show ?thesis
      using i run none Some c by (simp add: thread_step_def)
  qed
qed

lemma dying_joins:
  assumes "live_ok l" "lv_server l = (mm, h)" "lv_hand l = Dying None s" "sys_stop s = Joining"
    "shut (sys_sched s)" "quiet (sys_sched s)"
  shows "\<exists>h' s'. (live_step parse)\<^sup>*\<^sup>* l (l\<lparr>lv_server := (mm, h'), lv_hand := Dying None s'\<rparr>) \<and>
    sys_stop s' = Joining \<and> all_exited (sys_sched s') \<and>
    bq_buffer (sc_queue (sys_sched s')) = bq_buffer (sc_queue (sys_sched s)) \<and>
    (handled (sys_sched s) = {#} \<longrightarrow> h' = h)"
  using assms
proof (induction "sched_rank (sys_sched s)" arbitrary: l h s rule: less_induct)
  case less
  show ?case
  proof (cases "all_exited (sys_sched s)")
    case True
    have "l\<lparr>lv_server := (mm, h), lv_hand := Dying None s\<rparr> = l"
      using less.prems(2,3) by simp
    then show ?thesis
      using True less.prems(4) by (intro exI [of _ h] exI [of _ s]) simp
  next
    case False
    then obtain i where i: "i < length (sc_threads (sys_sched s))" "snd (sc_threads (sys_sched s) ! i) \<noteq> Exited"
      by (auto simp: all_exited_def in_set_conv_nth)
    have pc: "quiet_pc (snd (sc_threads (sys_sched s) ! i))"
      using less.prems(6) i(1) by (simp add: quiet_def)
    obtain sc out where run: "runner_step Success i (sys_sched s) = Some (sc, out)"
      using runner_step_enabled [OF less.prems(5) i(2)] by blast
    have "work_ok (map_work (mm_model_map mm) + dying_work (lv_hand l) + lv_lost l) h"
      using less.prems(1,2) by (simp add: live_ok_def live_work_def)
    then have "\<forall>p \<in># sched_work (sys_sched s). payload_wf p \<and> step_of h (payload_tag p) = Some PROCESS"
      using work_okD less.prems(3) by fastforce
    from thread_step_quiet [OF this i(1) pc run] obtain h1 where
      h1: "thread_step i (sys_sched s) (mm, h) = Returns (sc, out, mm, h1)" "out = None \<longrightarrow> h1 = h"
      by blast
    let ?s1 = "after_runner sc out s"
    let ?l1 = "l\<lparr>lv_server := (mm, h1), lv_hand := Dying None ?s1\<rparr>"
    have step: "live_step parse l ?l1"
      using live_step.dying_runner [OF less.prems(3)] h1(1) less.prems(2) by metis
    note sh = runner_step_shut [OF less.prems(5) i(1) run]
    note q = quiet_runner [OF less.prems(6,5) i(1) run]
    have "sched_rank (sys_sched ?s1) < sched_rank (sys_sched s)" "shut (sys_sched ?s1)"
      "quiet (sys_sched ?s1)" "sys_stop ?s1 = Joining"
      using sh q less.prems(4) by (simp_all add: after_runner_def)
    from less.hyps [OF this(1) live_step_ok [OF step less.prems(1)] _ _ this(4,2,3)] obtain h' s' where
      rest: "(live_step parse)\<^sup>*\<^sup>* ?l1 (?l1\<lparr>lv_server := (mm, h'), lv_hand := Dying None s'\<rparr>)"
      "sys_stop s' = Joining" "all_exited (sys_sched s')"
      "bq_buffer (sc_queue (sys_sched s')) = bq_buffer (sc_queue (sys_sched ?s1))"
      "handled (sys_sched ?s1) = {#} \<longrightarrow> h' = h1"
      by fastforce
    have "(live_step parse)\<^sup>*\<^sup>* l (l\<lparr>lv_server := (mm, h'), lv_hand := Dying None s'\<rparr>)"
      using converse_rtranclp_into_rtranclp [of "live_step parse", OF step rest(1)] by simp
    then show ?thesis
      using rest(2-5) q h1(2) by (intro exI [of _ h'] exI [of _ s']) (simp add: after_runner_def)
  qed
qed

text \<open>The destructor of a scheduler none of whose runners comes to the backend any more.\<close>

lemma dying_ends:
  assumes "live_ok l" "lv_server l = (mm, h)" "lv_hand l = Dying None s" "sys_stop s = Not_Stopping"
    "sc_running (sys_sched s)" "quiet (sys_sched s)"
  shows "\<exists>h'. (live_step parse)\<^sup>*\<^sup>* l (l\<lparr>lv_server := (mm, h'), lv_hand := Empty_Handed,
      lv_lost := lv_lost l + mset (bq_buffer (sc_queue (sys_sched s)))\<rparr>) \<and>
    (handled (sys_sched s) = {#} \<longrightarrow> h' = h)"
proof -
  let ?s1 = "s\<lparr>sys_stop := Draining\<rparr>"
  let ?s2 = "?s1\<lparr>sys_stop := Flag_Down, sys_sched := Stop_lower_flag (sys_sched ?s1),
      sys_drained := (bq_size (sc_queue (sys_sched ?s1)) = 0 \<and> no_push_pending ?s1)\<rparr>"
  let ?s3 = "?s2\<lparr>sys_stop := Joining, sys_sched := Stop_break (sys_sched ?s2)\<rparr>"
  have "sched_step s ?s1"
    using assms(4,5) by (intro sched_step.stop_call) (simp_all add: Stop_refused_def)
  from live_step.dying_stop [OF assms(3) this]
  have "live_step parse l (l\<lparr>lv_hand := Dying None ?s1\<rparr>)"
    using assms(4) by simp
  moreover have "sched_step ?s1 ?s2"
    by (rule sched_step.stop_flag [of _ MAX_SCHEDULER_DEPLETION_WAIT_TIME]) (simp_all add: Stop_waits_def)
  from live_step.dying_stop [OF _ this, of "l\<lparr>lv_hand := Dying None ?s1\<rparr>" parse]
  have "live_step parse (l\<lparr>lv_hand := Dying None ?s1\<rparr>) (l\<lparr>lv_hand := Dying None ?s2\<rparr>)"
    by simp
  moreover have "sched_step ?s2 ?s3"
    by (rule sched_step.stop_break) simp
  from live_step.dying_stop [OF _ this, of "l\<lparr>lv_hand := Dying None ?s2\<rparr>" parse]
  have "live_step parse (l\<lparr>lv_hand := Dying None ?s2\<rparr>) (l\<lparr>lv_hand := Dying None ?s3\<rparr>)"
    by simp
  ultimately have down: "(live_step parse)\<^sup>*\<^sup>* l (l\<lparr>lv_hand := Dying None ?s3\<rparr>)"
    by (meson converse_rtranclp_into_rtranclp rtranclp.rtrancl_refl)
  let ?l3 = "l\<lparr>lv_hand := Dying None ?s3\<rparr>"
  have "live_ok ?l3"
    using down assms(1) by (induction rule: rtranclp_induct) (auto intro: live_step_ok)
  moreover have "shut (sys_sched ?s3)" "quiet (sys_sched ?s3)"
    "handled (sys_sched ?s3) = handled (sys_sched s)"
    "bq_buffer (sc_queue (sys_sched ?s3)) = bq_buffer (sc_queue (sys_sched s))"
    using assms(6) by (simp_all add: shut_def quiet_def breakAll_def)
  ultimately obtain h' s' where j: "(live_step parse)\<^sup>*\<^sup>* ?l3 (?l3\<lparr>lv_server := (mm, h'), lv_hand := Dying None s'\<rparr>)"
    "sys_stop s' = Joining" "all_exited (sys_sched s')"
    "bq_buffer (sc_queue (sys_sched s')) = bq_buffer (sc_queue (sys_sched s))"
    "handled (sys_sched s) = {#} \<longrightarrow> h' = h"
    using dying_joins [of ?l3 mm h ?s3 parse] assms(2) by auto
  let ?l4 = "l\<lparr>lv_server := (mm, h'), lv_hand := Dying None s'\<rparr>"
  let ?s5 = "s'\<lparr>sys_stop := Stopped\<rparr>"
  have "sched_step s' ?s5"
    using j(2,3) by (rule sched_step.stop_join)
  from live_step.dying_stop [OF _ this, of ?l4 parse]
  have join: "live_step parse ?l4 (?l4\<lparr>lv_hand := Dying None ?s5\<rparr>)"
    using j(2) by simp
  have last: "live_step parse (?l4\<lparr>lv_hand := Dying None ?s5\<rparr>) (l\<lparr>lv_server := (mm, h'),
      lv_hand := Empty_Handed, lv_lost := lv_lost l + mset (bq_buffer (sc_queue (sys_sched s)))\<rparr>)"
    using live_step.destroyed [of "?l4\<lparr>lv_hand := Dying None ?s5\<rparr>" ?s5 parse] j(4) by simp
  have "(live_step parse)\<^sup>*\<^sup>* l ?l4"
    using rtranclp_trans [OF down j(1)] by simp
  from rtranclp.rtrancl_into_rtrancl [OF rtranclp.rtrancl_into_rtrancl [OF this join] last]
  show ?thesis
    using j(5) by (intro exI [of _ h']) simp
qed

lemma same_hand: "lv_hand l = held \<Longrightarrow> l\<lparr>lv_hand := held\<rparr> = l"
  by simp

text \<open>A deletion from end to end: what waits in the queue of the model is lost.\<close>

lemma deletion_runs:
  assumes "live_ok l" "lv_server l = (mm, h)" "lv_hand l = Empty_Handed" "lv_added l = []"
    "lv_updated l = []" "lv_deleted l = n # deleted" "um_find (mm_model_map mm) n = Some ctx"
    "quiet (rc_scheduler ctx)"
  shows "\<exists>h'. (live_step parse)\<^sup>*\<^sup>* l (l\<lparr>lv_server := (delete_model n mm, h'), lv_deleted := deleted,
      lv_lost := lv_lost l + mset (bq_buffer (sc_queue (rc_scheduler ctx)))\<rparr>) \<and>
    (handled (rc_scheduler ctx) = {#} \<longrightarrow> h' = h)"
proof -
  have "manager_wf mm"
    using assms(1-3) by (simp add: live_ok_def settled_def)
  then have running: "sc_running (rc_scheduler ctx)"
    using live_served(3) [of Empty_Handed mm n ctx] assms(7) by (simp add: settled_def)
  let ?mm = "mm\<lparr>mm_model_map := um_erase n (mm_model_map mm)\<rparr>" and ?s = "deletion_start ctx"
  let ?l1 = "l\<lparr>lv_server := (?mm, h), lv_deleted := deleted, lv_hand := Dying (Some (rc_backend_info ctx)) ?s\<rparr>"
  let ?l2 = "?l1\<lparr>lv_server := (free_info (rc_backend_info ctx) ?mm, h), lv_hand := Dying None ?s\<rparr>"
  have "take_context n mm = (Some ctx, ?mm)"
    using assms(7) by (simp add: take_context_def)
  from live_step.take [OF assms(3,2,4,5,6) this] have s1: "live_step parse l ?l1"
    by simp
  have s2: "live_step parse ?l1 ?l2"
    using live_step.free [of ?l1 "rc_backend_info ctx" ?s ?mm h parse] by simp
  have ok: "live_ok ?l2"
    using live_step_ok [OF s2 live_step_ok [OF s1 assms(1)]] .
  have srv: "lv_server ?l2 = (delete_model n mm, h)" "lv_hand ?l2 = Dying None ?s"
    using assms(7) by (simp_all add: delete_model_def)
  have "sc_running (sys_sched ?s)" "quiet (sys_sched ?s)" "sys_stop ?s = Not_Stopping"
    using running assms(8) by (simp_all add: deletion_start_def)
  from dying_ends [OF ok srv this(3,1,2), of parse] obtain h' where h':
    "(live_step parse)\<^sup>*\<^sup>* ?l2 (?l2\<lparr>lv_server := (delete_model n mm, h'), lv_hand := Empty_Handed,
       lv_lost := lv_lost ?l2 + mset (bq_buffer (sc_queue (sys_sched ?s)))\<rparr>)"
    "handled (sys_sched ?s) = {#} \<longrightarrow> h' = h"
    by blast
  from converse_rtranclp_into_rtranclp [of "live_step parse", OF s1
      converse_rtranclp_into_rtranclp [of "live_step parse", OF s2 h'(1)]]
  show ?thesis
    using h'(2) assms(3) by (intro exI [of _ h'], cases l) (simp add: deletion_start_def)
qed

section \<open>A pass with nothing in between\<close>

lemma pass_added:
  assumes "lv_hand l = Empty_Handed" "lv_server l = (mm, h)" "lv_added l = infos"
  shows "(live_step parse)\<^sup>*\<^sup>* l (l\<lparr>lv_server := (fold (add_model B parse) infos mm, h), lv_added := []\<rparr>)"
  using assms
proof (induction infos arbitrary: l mm)
  case Nil
  then have "l\<lparr>lv_server := (mm, h), lv_added := []\<rparr> = l"
    by simp
  then show ?case
    by simp
next
  case (Cons info infos)
  let ?l1 = "l\<lparr>lv_server := (add_model B parse info mm, h), lv_added := infos\<rparr>"
  have "live_step parse l ?l1"
    using Cons.prems by (rule live_step.add)
  moreover have "(live_step parse)\<^sup>*\<^sup>* ?l1
      (?l1\<lparr>lv_server := (fold (add_model B parse) infos (add_model B parse info mm), h), lv_added := []\<rparr>)"
    using Cons.prems by (intro Cons.IH) simp_all
  ultimately show ?case
    using converse_rtranclp_into_rtranclp [of "live_step parse" l ?l1] by simp
qed

lemma pass_updated:
  assumes "lv_hand l = Empty_Handed" "lv_server l = (mm, h)" "lv_added l = []" "lv_updated l = infos"
  shows "(live_step parse)\<^sup>*\<^sup>* l (l\<lparr>lv_server := (fold (update_model B parse) infos mm, h), lv_updated := []\<rparr>)"
  using assms
proof (induction infos arbitrary: l mm)
  case Nil
  then have "l\<lparr>lv_server := (mm, h), lv_updated := []\<rparr> = l"
    by simp
  then show ?case
    by simp
next
  case (Cons info infos)
  obtain out mm1 where swap: "swap_backend B parse info mm = (out, mm1)"
    by (cases "swap_backend B parse info mm")
  let ?l1 = "l\<lparr>lv_server := (mm1, h), lv_updated := infos,
    lv_hand := (case out of None \<Rightarrow> Empty_Handed | Some bi \<Rightarrow> Releasing bi)\<rparr>"
  let ?l2 = "l\<lparr>lv_server := (update_model B parse info mm, h), lv_updated := infos\<rparr>"
  have one: "live_step parse l ?l1"
    using Cons.prems swap by (rule live_step.swap)
  have two: "(live_step parse)\<^sup>*\<^sup>* ?l1 ?l2"
  proof (cases out)
    case None
    then show ?thesis
      using swap Cons.prems(1) by (simp add: update_model_sections same_hand)
  next
    case (Some bi)
    then have "live_step parse ?l1 (?l1\<lparr>lv_server := (free_info bi mm1, h), lv_hand := Empty_Handed\<rparr>)"
      by (intro live_step.release) simp_all
    then have "live_step parse ?l1 ?l2"
      using swap Some Cons.prems(1) by (cases l) (simp add: update_model_sections)
    then show ?thesis
      by (rule r_into_rtranclp)
  qed
  have "(live_step parse)\<^sup>*\<^sup>* ?l2
      (?l2\<lparr>lv_server := (fold (update_model B parse) infos (update_model B parse info mm), h), lv_updated := []\<rparr>)"
    using Cons.prems by (intro Cons.IH) simp_all
  with rtranclp_trans [OF converse_rtranclp_into_rtranclp [of "live_step parse", OF one two]]
  show ?case
    by simp
qed

lemma pass_deleted:
  assumes "live_ok l" "lv_hand l = Empty_Handed" "lv_server l = (mm, h)" "lv_added l = []"
    "lv_updated l = []" "lv_deleted l = names" "map_work (mm_model_map mm) = {#}"
  shows "(live_step parse)\<^sup>*\<^sup>* l (l\<lparr>lv_server := (fold delete_model names mm, h), lv_deleted := []\<rparr>)"
  using assms
proof (induction names arbitrary: l mm)
  case Nil
  then have "l\<lparr>lv_server := (mm, h), lv_deleted := []\<rparr> = l"
    by simp
  then show ?case
    by simp
next
  case (Cons n names)
  let ?l1 = "l\<lparr>lv_server := (delete_model n mm, h), lv_deleted := names\<rparr>"
  have inv: "manager_wf mm" "open_queues mm"
    using Cons.prems(1-3) by (simp_all add: live_ok_def settled_def)
  have one: "(live_step parse)\<^sup>*\<^sup>* l ?l1"
  proof (cases "um_find (mm_model_map mm) n")
    case None
    then have "take_context n mm = (None, mm)" "delete_model n mm = mm"
      by (simp_all add: take_context_def delete_model_def)
    then show ?thesis
      using live_step.take [OF Cons.prems(2-6), of None mm parse] Cons.prems(2) by (simp add: same_hand r_into_rtranclp)
  next
    case (Some ctx)
    have "(n, ctx) \<in> set (mm_model_map mm)"
      using Some manager_wfD(1) [OF inv(1)] um_find_set by metis
    then have "sched_work (rc_scheduler ctx) \<subseteq># map_work (mm_model_map mm)"
      by (auto dest: split_list)
    then have idle: "bq_buffer (sc_queue (rc_scheduler ctx)) = []" "handled (rc_scheduler ctx) = {#}"
      using Cons.prems(7) by (simp_all add: sched_work_def)
    show ?thesis
      using deletion_runs [OF Cons.prems(1,3,2,4-6) Some handled_quiet [OF idle(2)], of parse] idle by auto
  qed
  have "map_work (mm_model_map (delete_model n mm)) = {#}"
    using take_context_live [of mm n "fst (take_context n mm)" "snd (take_context n mm)"]
      manager_wfD(1) [OF inv(1)] inv(2) Cons.prems(7)
    by (auto simp: delete_model_sections split: prod.split option.split)
      (auto simp: free_info_def)
  moreover have "live_ok ?l1"
    using one Cons.prems(1) by (induction rule: rtranclp_induct) (auto intro: live_step_ok)
  ultimately have "(live_step parse)\<^sup>*\<^sup>* ?l1
      (?l1\<lparr>lv_server := (fold delete_model names (delete_model n mm), h), lv_deleted := []\<rparr>)"
    using Cons.prems by (intro Cons.IH) simp_all
  with rtranclp_trans [OF one] show ?case
    by simp
qed

text \<open>The calls in progress determine how much work there is.\<close>

lemma same_calls_idle:
  assumes "live_ok l" "lv_server l = (mm, h)" "lv_hand l = Empty_Handed" "map_work (mm_model_map mm) = {#}"
    "live_ok l'" "lv_server l' = (mm', h)" "lv_hand l' = Empty_Handed" "lv_lost l' = lv_lost l"
  shows "map_work (mm_model_map mm') = {#}"
proof -
  have "count (image_mset payload_tag (live_work l)) t = count (image_mset payload_tag (live_work l')) t" for t
    using assms(1,2,5,6) by (simp add: live_ok_def work_ok_def)
  then have "image_mset payload_tag (live_work l) = image_mset payload_tag (live_work l')"
    by (rule multiset_eqI)
  then have "size (live_work l) = size (live_work l')"
    by (metis size_image_mset)
  then show ?thesis
    using assms by (simp add: live_work_def)
qed

lemma live_steps_ok: "(live_step parse)\<^sup>*\<^sup>* l l' \<Longrightarrow> live_ok l \<Longrightarrow> live_ok l'"
  by (induction rule: rtranclp_induct) (auto intro: live_step_ok)

lemma pass_is_LoadModels:
  assumes "live_ok l" "lv_server l = (mm, h)" "lv_hand l = Empty_Handed" "lv_added l = []"
    "lv_updated l = []" "lv_deleted l = []" "mm_update_thread mm" "mm_running mm"
    "map_work (mm_model_map mm) = {#}" "LoadModels B parse mm = Inr mm'"
  shows "(live_step parse)\<^sup>*\<^sup>* l (l\<lparr>lv_server := (mm', h)\<rparr>)"
proof -
  obtain added updated deleted where upd: "GetModelStateUpdate B parse mm = Inr (added, updated, deleted)"
    "mm' = fold delete_model deleted (fold (update_model B parse) updated (fold (add_model B parse) added mm))"
    using assms(10) by (auto simp: LoadModels_def split: sum.splits)
  let ?l1 = "l\<lparr>lv_added := added, lv_updated := updated, lv_deleted := deleted\<rparr>"
  define mm1 where "mm1 = fold (add_model B parse) added mm"
  define mm2 where "mm2 = fold (update_model B parse) updated mm1"
  let ?l2 = "?l1\<lparr>lv_server := (mm1, h), lv_added := []\<rparr>"
  let ?l3 = "?l2\<lparr>lv_server := (mm2, h), lv_updated := []\<rparr>"
  have "live_step parse l ?l1"
    using assms(2-8) upd(1) by (intro live_step.scan) auto
  moreover have "(live_step parse)\<^sup>*\<^sup>* ?l1 ?l2"
    unfolding mm1_def using assms(2,3) by (intro pass_added) simp_all
  moreover have "(live_step parse)\<^sup>*\<^sup>* ?l2 ?l3"
    unfolding mm2_def using assms(3) by (intro pass_updated) simp_all
  ultimately have three: "(live_step parse)\<^sup>*\<^sup>* l ?l3"
    by (meson converse_rtranclp_into_rtranclp rtranclp_trans)
  have ok: "live_ok ?l3"
    using live_steps_ok [OF three assms(1)] .
  have "map_work (mm_model_map mm2) = {#}"
    by (rule same_calls_idle [OF assms(1-3,9) ok]) (simp_all add: assms(3))
  then have "(live_step parse)\<^sup>*\<^sup>* ?l3 (?l3\<lparr>lv_server := (fold delete_model deleted mm2, h), lv_deleted := []\<rparr>)"
    using assms(3) by (intro pass_deleted [OF ok]) simp_all
  with three have "(live_step parse)\<^sup>*\<^sup>* l (?l3\<lparr>lv_server := (mm', h), lv_deleted := []\<rparr>)"
    using rtranclp_trans [of "live_step parse" l ?l3] by (simp add: upd(2) mm2_def mm1_def)
  moreover have "?l3\<lparr>lv_server := (mm', h), lv_deleted := []\<rparr> = l\<lparr>lv_server := (mm', h)\<rparr>"
    using assms(4-6) by (cases l) simp
  ultimately show ?thesis
    by simp
qed

text \<open>A server without its update thread is a live server whose update thread does nothing.\<close>

lemma live_of_server:
  "server_reachable B parse cfg sh \<Longrightarrow> \<exists>mm. live_reachable B parse cfg ((live_start mm)\<lparr>lv_server := sh\<rparr>)"
proof (induction rule: server_reachable.induct)
  case (start mm)
  have "(live_start mm)\<lparr>lv_server := (mm, new_infer_handler)\<rparr> = live_start mm"
    by (simp add: live_start_def)
  then show ?case
    using live_reachable.start [OF start] by metis
next
  case (step sh sh')
  then obtain mm where "live_reachable B parse cfg ((live_start mm)\<lparr>lv_server := sh\<rparr>)"
    by blast
  moreover have "live_step parse ((live_start mm)\<lparr>lv_server := sh\<rparr>) ((live_start mm)\<lparr>lv_server := sh'\<rparr>)"
    using live_step.server [of "(live_start mm)\<lparr>lv_server := sh\<rparr>" sh' parse] step.hyps(2) by simp
  ultimately show ?case
    using live_reachable.step by blast
qed

end
