(* ===== verification/Demo_Live.thy ===== *)
theory Demo_Live
  imports Demo_Repository Live_Progress
begin

text \<open>
  The concrete repository with automatic updates: a call is taken, the model's directory is
  removed, and the next pass deletes the model while the call waits in its queue.
\<close>

definition demo_live_config :: server_config where
  "demo_live_config = (demo_server_config 4)
     \<lparr>model_control_cfg := \<lparr>auto_update = True, update_interval = 10, auto_warmup = False,
                            specific_model_version = []\<rparr>\<rparr>"

definition demo_live_manager :: core_manager where
  "demo_live_manager =
     (case ModelManager demo_fs (demo_parse 2) demo_live_config of
        Inr mm \<Rightarrow> mm | Inl _ \<Rightarrow> new_manager demo_live_config)"

definition demo_taken :: server where
  "demo_taken = or_else (call_turn demo_live_manager) (call_arrived demo_live_manager)"

definition demo_live :: live where
  "demo_live = (live_start demo_live_manager)\<lparr>lv_server := demo_taken\<rparr>"

definition empty_fs :: boost_fs where
  "empty_fs = demo_fs\<lparr>bf_directory_iterator := (\<lambda>_. Some [])\<rparr>"

lemma demo_live_manager_eq: "ModelManager demo_fs (demo_parse 2) demo_live_config = Inr demo_live_manager"
proof -
  have "\<not> isl (ModelManager demo_fs (demo_parse 2) demo_live_config :: exn + core_manager)"
    by code_simp
  then show ?thesis
    by (auto simp: demo_live_manager_def isl_def split: sum.splits)
qed

abbreviation demo_live_reachable :: "live \<Rightarrow> bool" where
  "demo_live_reachable \<equiv> live_reachable demo_fs (demo_parse 2) demo_live_config"

lemma demo_live_reaches: "demo_live_reachable demo_live"
proof -
  have "is_returned (call_turn demo_live_manager)"
    by code_simp
  then have "call_turn demo_live_manager = Returns demo_taken"
    unfolding demo_taken_def by (rule or_else_returned)
  from request_taken_reachable [OF demo_live_manager_eq this]
  obtain mm where "demo_live_reachable ((live_start mm)\<lparr>lv_server := demo_taken\<rparr>)"
    using live_of_server by blast
  moreover have "(live_start mm)\<lparr>lv_server := demo_taken\<rparr> = demo_live"
    by (simp add: live_start_def demo_live_def)
  ultimately show ?thesis
    by simp
qed

text \<open>The next pass finds nothing but a model to delete.\<close>

definition demo_scanned :: live where
  "demo_scanned = demo_live\<lparr>lv_deleted := [''demo'']\<rparr>"

lemma demo_live_facts:
  "lv_hand demo_live = Empty_Handed" "lv_added demo_live = []" "lv_updated demo_live = []"
  "lv_deleted demo_live = []" "lv_lost demo_live = {#}"
  by (simp_all add: demo_live_def live_start_def)

lemma demo_scanned_reaches: "demo_live_reachable demo_scanned"
proof -
  have run: "mm_update_thread (fst demo_taken)" "mm_running (fst demo_taken)"
    by code_simp+
  have upd: "GetModelStateUpdate empty_fs (demo_parse 2) (fst demo_taken) = Inr ([], [], [''demo''])"
    by code_simp
  have "live_step (demo_parse 2) demo_live
      (demo_live\<lparr>lv_added := [], lv_updated := [], lv_deleted := [''demo'']\<rparr>)"
    by (rule live_step.scan [where h = "snd demo_taken", OF demo_live_facts(1) _ run demo_live_facts(2-4) upd])
      (simp add: demo_live_def)
  moreover have "demo_live\<lparr>lv_added := [], lv_updated := [], lv_deleted := [''demo'']\<rparr> = demo_scanned"
    by (simp add: demo_scanned_def demo_live_def live_start_def)
  ultimately show ?thesis
    using live_reachable.step [OF demo_live_reaches] by simp
qed

definition demo_context :: "tag payload run_context" where
  "demo_context = snd (hd (mm_model_map (fst demo_taken)))"

lemma demo_context_facts:
  "um_find (mm_model_map (fst demo_taken)) ''demo'' = Some demo_context"
  "quiet (rc_scheduler demo_context)"
  "map pl_on_infer_completed_func (bq_buffer (sc_queue (rc_scheduler demo_context))) = [0]"
  unfolding quiet_def by code_simp+

text \<open>The live server after the deletion, with the call lost.\<close>

lemma demo_lost:
  "\<exists>l. demo_live_reachable l \<and> image_mset payload_tag (lv_lost l) = {#0#}"
proof -
  have "lv_server demo_scanned = (fst demo_taken, snd demo_taken)"
    by (simp add: demo_scanned_def demo_live_def)
  from deletion_runs [OF live_reachable_ok [OF demo_scanned_reaches] this _ _ _ _ demo_context_facts(1,2),
      of "[]" "demo_parse 2"]
  obtain h' where "(live_step (demo_parse 2))\<^sup>*\<^sup>* demo_scanned
      (demo_scanned\<lparr>lv_server := (delete_model ''demo'' (fst demo_taken), h'), lv_deleted := [],
        lv_lost := lv_lost demo_scanned + mset (bq_buffer (sc_queue (rc_scheduler demo_context)))\<rparr>)"
    by (auto simp: demo_scanned_def demo_live_facts)
  from live_reachable_steps [OF this demo_scanned_reaches] show ?thesis
    using demo_context_facts(3) demo_live_facts(5)
    by (intro exI conjI) (assumption, simp add: demo_scanned_def flip: mset_map)
qed

end
