(* ===== verification/Process_System.thy ===== *)
theory Process_System
  imports Core_System Main_Process
begin

text \<open>
  The whole process: the main thread and the signal handler of \<open>Main_Process\<close> together with
  the service of \<open>Core_System\<close>, whose \<open>Stop\<close> is what main calls at the end.
\<close>

section \<open>Steps\<close>

type_synonym process = "main_state \<times> core_sys"

text \<open>
  Main moves by itself except in \<open>Stop\<close>, where it makes the steps of the core that advance the
  stop and leaves when the stop has returned. Signals arrive at any time. The threads of the
  service run until they are joined; the process is gone once main has returned.
\<close>

inductive process_step :: "process \<Rightarrow> process \<Rightarrow> bool" where
  main: "main_step ev ms = Some ms' \<Longrightarrow> (\<forall>st. ev = Move st \<longrightarrow> ms_pc ms \<notin> {Start_Up, Stops}) \<Longrightarrow>
    process_step (ms, x) (ms', x)"
| serve: "core_step (c, pc) (c', pc) \<Longrightarrow> pc \<noteq> Stop_Returned \<Longrightarrow> ms_pc ms \<notin> range Ended \<Longrightarrow>
    process_step (ms, (c, pc)) (ms, (c', pc))"
| stop: "ms_pc ms = Stops \<Longrightarrow> core_step (c, pc) (c', pc') \<Longrightarrow> pc' \<noteq> pc \<Longrightarrow>
    process_step (ms, (c, pc)) (ms, (c', pc'))"
| stopped: "ms_pc ms = Stops \<Longrightarrow> main_step (Move Success) ms = Some ms' \<Longrightarrow>
    process_step (ms, (c, Stop_Returned)) (ms', (c, Stop_Returned))"

inductive process_reachable ::
  "boost_fs \<Rightarrow> (string \<Rightarrow> model_config option) \<Rightarrow> server_config \<Rightarrow> (string \<Rightarrow> bool) \<Rightarrow> process \<Rightarrow> bool"
  for B parse cfg bind_port where
  start: "InferenceCore B parse (Some cfg) = Inr c0 \<Longrightarrow>
    InferenceCore_Start bind_port c0 = Inr (Success, c) \<Longrightarrow>
    process_reachable B parse cfg bind_port (\<lparr>ms_exiting = NoSignal, ms_pc = Loop_Test\<rparr>, (c, Serving))"
| step: "process_reachable B parse cfg bind_port s \<Longrightarrow> process_step s s' \<Longrightarrow>
    process_reachable B parse cfg bind_port s'"

lemma process_steps_reachable:
  "process_step\<^sup>*\<^sup>* s s' \<Longrightarrow> process_reachable B parse cfg bind_port s \<Longrightarrow>
   process_reachable B parse cfg bind_port s'"
  by (induction rule: rtranclp_induct) (auto intro: process_reachable.step)

text \<open>It is the process that the start of main leads to, whatever signals came before.\<close>

lemma main_start_process:
  assumes "main_start Y B parse bind_port f = Inr (Inr core)"
  shows "\<exists>cfg ms. LoadServerConfig Y f = Some cfg \<and>
    main_run (map (\<lambda>(s, m). Signal s m) sigs @ [Move Success]) main_init = Some ms \<and>
    process_reachable B parse cfg bind_port (ms, (core, Serving))"
proof -
  obtain cfg c0 where "LoadServerConfig Y f = Some cfg" "InferenceCore B parse (Some cfg) = Inr c0"
    "InferenceCore_Start bind_port c0 = Inr (Success, core)"
    using assms by (auto simp: main_start_def split: option.splits sum.splits if_splits)
  then show ?thesis
    using process_reachable.start start_up_signals_are_forgotten by blast
qed

section \<open>Main and the core go together\<close>

text \<open>A stop has begun only when main is in it, and main has returned only after it.\<close>

definition process_ok :: "process \<Rightarrow> bool" where
  "process_ok s \<longleftrightarrow>
     (let (ms, (c, pc)) = s in
        main_ok ms \<and> ms_pc ms \<noteq> Start_Up \<and> (pc \<noteq> Serving \<longrightarrow> ms_pc ms = Stops \<or> ms_pc ms \<in> range Ended) \<and>
        (ms_pc ms \<in> range Ended \<longrightarrow> ms_pc ms = Ended 0 \<and> pc = Stop_Returned))"

lemma main_step_place:
  assumes "main_step ev ms = Some ms'" "main_ok ms" "\<forall>st. ev = Move st \<longrightarrow> ms_pc ms \<notin> {Start_Up, Stops}"
    "ms_pc ms \<noteq> Start_Up"
  shows "ms_pc ms \<notin> range Ended \<Longrightarrow> ms_pc ms' \<notin> range Ended" "ms_pc ms' \<noteq> Start_Up"
    "ms_pc ms = Stops \<or> ms_pc ms \<in> range Ended \<Longrightarrow> ms' = ms"
proof -
  have "(ms_pc ms \<notin> range Ended \<longrightarrow> ms_pc ms' \<notin> range Ended) \<and> ms_pc ms' \<noteq> Start_Up \<and>
      (ms_pc ms = Stops \<or> ms_pc ms \<in> range Ended \<longrightarrow> ms' = ms)"
  proof (cases ev)
    case (Move st)
    then show ?thesis
      using assms by (auto simp: main_step_def split: main_pc.splits if_splits)
  next
    case Timeout
    then show ?thesis
      using assms by (auto simp: main_step_def split: if_splits)
  next
    case (Signal signum on_main)
    then have d: "deliver signum on_main ms = Some ms'"
      using assms(1) by (simp add: main_step_def)
    have "ms_pc ms = Stops \<Longrightarrow> ms' = ms"
      using deliver_Some(1) [OF d] assms(2) by (simp add: main_ok_def)
    moreover have "ms_pc ms \<in> range Ended \<Longrightarrow> ms' = ms"
      using d by (auto simp: deliver_def Let_def split: if_splits prod.splits)
    moreover have "ms_pc ms \<notin> range Ended \<Longrightarrow> ms_pc ms' \<notin> range Ended"
      using deliver_Some(2) [OF d] by (elim disjE) auto
    moreover have "ms_pc ms' \<noteq> Start_Up"
      using deliver_Some(2) [OF d] assms(4) by auto
    ultimately show ?thesis
      by blast
  qed
  then show "ms_pc ms \<notin> range Ended \<Longrightarrow> ms_pc ms' \<notin> range Ended" "ms_pc ms' \<noteq> Start_Up"
    "ms_pc ms = Stops \<or> ms_pc ms \<in> range Ended \<Longrightarrow> ms' = ms"
    by blast+
qed

lemma process_step_ok:
  assumes "process_step s s'" "process_ok s"
  shows "process_ok s'"
  using assms(1)
proof cases
  case (main ev ms ms' x)
  obtain c pc where x: "x = (c, pc)"
    by (cases x)
  have ok: "main_ok ms" "ms_pc ms \<noteq> Start_Up"
    using assms(2) main(1) x by (simp_all add: process_ok_def)
  note place = main_step_place [OF main(3) ok(1) main(4) ok(2)]
  show ?thesis
    using assms(2) place main(1,2) x main_step_ok [OF ok(1) main(3)]
    by (cases "ms_pc ms \<in> range Ended") (auto simp: process_ok_def)
next
  case (stop ms c pc c' pc')
  then show ?thesis
    using assms(2) by (auto simp: process_ok_def)
next
  case (stopped ms ms' c)
  then have "ms' = ms\<lparr>ms_pc := Ended 0\<rparr>"
    by (simp add: main_step_def)
  then show ?thesis
    using assms(2) stopped by (auto simp: process_ok_def main_ok_def)
qed (use assms(2) in \<open>auto simp: process_ok_def\<close>)

lemma process_reachable_ok: "process_reachable B parse cfg bind_port s \<Longrightarrow> process_ok s"
proof (induction rule: process_reachable.induct)
  case start
  show ?case
    by (auto simp: process_ok_def main_ok_def)
qed (rule process_step_ok)

lemma process_core:
  "process_reachable B parse cfg bind_port s \<Longrightarrow> core_reachable B parse cfg bind_port (snd s)"
proof (induction rule: process_reachable.induct)
  case (start c0 c)
  then show ?case
    using core_reachable.start by simp
next
  case (step s s')
  from step.hyps(2) step.IH show ?case
    by cases (auto intro: core_reachable.step)
qed


section \<open>An exit leaves nothing and nobody unanswered\<close>

lemma stop_end_stopped:
  assumes ok: "core_ok (c, Queues_Shut)" and wf: "manager_wf (ic_manager c)"
    and stop: "InferenceCore_Stop_end c = Some (Inr (st, c'))"
  shows "stopped_core c'" "answered (gs_infer (ic_grpc c')) = answered (gs_infer (ic_grpc c))"
proof -
  let ?g = "ic_grpc c"
  have joined: "h_thread h = event_loop.Returned" if "Handler_Stop h = Some h'" "h_thread h \<noteq> No_Thread"
    for h h' :: "('req, 'resp) handler"
    using that by (auto simp: Handler_Stop_def split: event_loop.splits)
  obtain hi hs hh where j: "Handler_Stop (gs_infer ?g) = Some hi" "Handler_Stop (gs_status ?g) = Some hs"
    "Handler_Stop (gs_health ?g) = Some hh"
    using stop by (auto simp: InferenceCore_Stop_end_def GrpcServer_Stop_join_def split: option.splits)
  have returned: "h_thread (gs_infer ?g) = event_loop.Returned" "h_thread (gs_status ?g) = event_loop.Returned"
    "h_thread (gs_health ?g) = event_loop.Returned"
    using joined [OF j(1)] joined [OF j(2)] joined [OF j(3)] ok by (simp_all add: core_ok_def Let_def)
  have gone: "\<forall>t. h_states h t = None" if "handler_ok h" "h_thread h = event_loop.Returned"
    for h :: "('req, 'resp) handler"
    using that by (auto simp: handler_ok_def shutdown_ok_def step_of_def)
  have "\<exists>c1. InferenceCore_Stop_end c = Some (Inr (Success, c1)) \<and> stopped_core c1"
    by (rule joined_stop [OF returned wf]) (use gone returned ok in \<open>auto simp: core_ok_def Let_def\<close>)
  then show "stopped_core c'"
    using stop by auto
  show "answered (gs_infer (ic_grpc c')) = answered (gs_infer (ic_grpc c))"
    using stop j returned
    by (auto simp: InferenceCore_Stop_end_def GrpcServer_Stop_join_def Handler_Stop_def THROW_ERROR_def
        split: prod.splits if_splits)
qed

text \<open>A call that is in progress stays so until it is answered.\<close>

definition kept :: "tag \<Rightarrow> infer_handler \<Rightarrow> bool" where
  "kept t h \<longleftrightarrow> step_of h t = Some PROCESS \<or> t \<in> set (answered h)"

lemma server_step_kept:
  assumes "server_step (mm, h) (mm', h')" "server_ok (mm, h)" "kept t h"
  shows "kept t h'"
proof -
  have hok: "handler_ok h"
    using assms(2) by (simp add: server_ok_def)
  have hok': "handler_ok h'"
    using server_step_ok [OF assms(1,2)] by (simp add: server_ok_def)
  from assms(1) show ?thesis
  proof cases
    case rpc
    have "step_of h t = Some PROCESS \<Longrightarrow> step_of h' t = Some PROCESS"
      by (cases rule: rpc_effect [OF rpc hok]) auto
    then show ?thesis
      using infer_h.queue_step_answered [OF rpc] assms(3) by (auto simp: kept_def)
  next
    case (runner n i)
    have "step_of h t = Some PROCESS \<Longrightarrow> step_of h' t \<in> {Some PROCESS, Some FINISH}"
      using model_runner_effect(3) [OF assms(2) runner] by simp
    moreover have "set (answered h) \<subseteq> set (answered h')"
    proof -
      obtain out :: "(tag payload \<times> status \<times> string) option" where
        "out = None \<and> h' = h \<or> (\<exists>p st' m. out = Some (p, st', m) \<and> infer_callback p st' m h = Returns (Inr h'))"
        using runner by (rule model_runner_Returns)
      then show ?thesis
        using infer_callback_Returns by fastforce
    qed
    ultimately show ?thesis
      using assms(3) hok' by (auto simp: kept_def handler_ok_def answers_ok_def)
  qed
qed

text \<open>The property carried along: the call is kept, and a stop that has returned left nothing.\<close>

definition exit_ok :: "tag \<Rightarrow> core_sys \<Rightarrow> bool" where
  "exit_ok t x \<longleftrightarrow> kept t (gs_infer (ic_grpc (fst x))) \<and>
     (snd x = Stop_Returned \<longrightarrow> stopped_core (fst x) \<and> t \<in> set (answered (gs_infer (ic_grpc (fst x)))))"

lemma core_step_stopped:
  assumes step: "core_step (c, pc) (c', Stop_Returned)" and r: "core_reachable B parse cfg bind_port (c, pc)"
    and pc: "pc \<noteq> Stop_Returned"
  shows "stopped_core c'" "answered (gs_infer (ic_grpc c')) = answered (gs_infer (ic_grpc c))"
    "step_of (gs_infer (ic_grpc c)) t \<noteq> Some PROCESS"
proof -
  have ok: "core_ok (c, pc)" and srv: "server_reachable B parse cfg (infer_state c)"
    using core_reachable_ok [OF r] pc by simp_all
  obtain st where st: "pc = Queues_Shut" "InferenceCore_Stop_end c = Some (Inr (st, c'))"
    using step pc by (auto elim: core_step.cases)
  have "manager_wf (ic_manager c)"
    using server_reachable_wf [OF srv] by (simp add: infer_state_def)
  from stop_end_stopped [OF ok [unfolded st(1)] this st(2)]
  show "stopped_core c'" "answered (gs_infer (ic_grpc c')) = answered (gs_infer (ic_grpc c))"
    by simp_all
  show "step_of (gs_infer (ic_grpc c)) t \<noteq> Some PROCESS"
    using ok st(1) by (simp add: core_ok_def Let_def all_flags_def shut_flags_def handler_ok_def shutdown_ok_def)
qed

lemma core_step_exit_ok:
  assumes step: "core_step (c, pc) (c', pc')" and r: "core_reachable B parse cfg bind_port (c, pc)"
    and pc: "pc \<noteq> Stop_Returned" and t: "exit_ok t (c, pc)"
  shows "exit_ok t (c', pc')"
proof -
  have kept: "kept t (gs_infer (ic_grpc c))"
    using t by (simp add: exit_ok_def)
  show ?thesis
  proof (cases "pc' = Stop_Returned")
    case True
    with core_step_stopped [OF step [unfolded True] r pc] kept show ?thesis
      by (simp add: exit_ok_def kept_def)
  next
    case False
    have ok: "core_ok (c, pc)" and reach: "server_reachable B parse cfg (infer_state c)"
      using core_reachable_ok [OF r] pc by simp_all
    note srv = server_reachable_ok [OF reach]
    from core_step_server [OF step ok False] have "kept t (gs_infer (ic_grpc c'))"
      using server_step_kept [OF _ srv [unfolded infer_state_def] kept] kept by (auto simp: infer_state_def)
    then show ?thesis
      using False by (simp add: exit_ok_def)
  qed
qed

lemma process_stopped:
  "process_reachable B parse cfg bind_port s \<Longrightarrow> snd (snd s) = Stop_Returned \<Longrightarrow> stopped_core (fst (snd s))"
proof (induction rule: process_reachable.induct)
  case (step s s')
  from step.hyps(2) show ?case
  proof cases
    case (stop ms c pc c' pc')
    moreover have "pc \<noteq> Stop_Returned"
      using stop by (auto elim: core_step.cases)
    ultimately show ?thesis
      using core_step_stopped(1) process_core [OF step.hyps(1)] step.prems by auto
  qed (use step.IH step.prems in auto)
qed simp

lemma process_step_exit_ok:
  assumes "process_step (ms, x) (ms', x')" "process_reachable B parse cfg bind_port (ms, x)" "exit_ok t x"
  shows "exit_ok t x'"
  using assms(1)
proof cases
  case (serve c pc c')
  then show ?thesis
    using core_step_exit_ok process_core [OF assms(2)] assms(3) by auto
next
  case (stop c pc c' pc')
  moreover have "pc \<noteq> Stop_Returned"
    using stop by (auto elim: core_step.cases)
  ultimately show ?thesis
    using core_step_exit_ok process_core [OF assms(2)] assms(3) by auto
qed (use assms(3) in auto)

lemma process_steps_exit_ok:
  assumes "process_step\<^sup>*\<^sup>* s s'" "process_reachable B parse cfg bind_port s" "exit_ok t (snd s)"
  shows "exit_ok t (snd s')"
  using assms
proof (induction rule: rtranclp_induct)
  case (step s1 s2)
  have "process_reachable B parse cfg bind_port (fst s1, snd s1)"
    using process_steps_reachable [OF step.hyps(1) step.prems(1)] by simp
  moreover have "process_step (fst s1, snd s1) (fst s2, snd s2)"
    using step.hyps(2) by simp
  ultimately show ?case
    using process_step_exit_ok step.IH step.prems by blast
qed

lemma exit_answers:
  assumes r: "process_reachable B parse cfg bind_port (ms, (c, pc))"
    and t: "step_of (gs_infer (ic_grpc c)) t = Some PROCESS"
    and steps: "process_step\<^sup>*\<^sup>* (ms, (c, pc)) (ms', (c', pc'))" and ended: "ms_pc ms' \<in> range Ended"
  shows "ms_pc ms' = Ended 0 \<and> stopped_core c' \<and> t \<in> set (answered (gs_infer (ic_grpc c')))"
proof -
  have "pc \<noteq> Stop_Returned"
    using process_stopped [OF r] t by (auto simp: stopped_core_def step_of_def)
  then have "exit_ok t (c, pc)"
    using t by (simp add: exit_ok_def kept_def)
  from process_steps_exit_ok [OF steps r, of t] this have "exit_ok t (c', pc')"
    by simp
  moreover have "ms_pc ms' = Ended 0 \<and> pc' = Stop_Returned"
    using process_reachable_ok [OF process_steps_reachable [OF steps r]] ended
    by (simp add: process_ok_def)
  ultimately show ?thesis
    by (simp add: exit_ok_def)
qed


section \<open>A signalled process ends\<close>

text \<open>Once a signal is set, main comes to \<open>Stop\<close> by itself, with at most one timeout of its wait.\<close>

lemma main_reaches_stop:
  assumes "ms_exiting ms \<noteq> NoSignal" "ms_pc ms \<notin> {Start_Up, Stuck} \<union> range Ended"
  shows "\<exists>ms'. process_step\<^sup>*\<^sup>* (ms, x) (ms', x) \<and> ms_pc ms' = Stops \<and> ms_exiting ms' = ms_exiting ms"
  using assms
proof (induction "moves_left ms" arbitrary: ms rule: less_induct)
  case less
  show ?case
  proof (cases "ms_pc ms = Stops")
    case True
    then show ?thesis
      by blast
  next
    case False
    from main_step_signalled [OF less.prems] obtain ev ms1 where
      s: "ev \<in> {Move Success, Timeout}" "main_step ev ms = Some ms1" "ms_exiting ms1 = ms_exiting ms"
      "moves_left ms1 < moves_left ms" "ms_pc ms1 \<notin> {Start_Up, Stuck}"
      by blast
    have "ms_pc ms1 \<notin> range Ended"
      using s(1,2) False less.prems by (auto simp: main_step_def split: main_pc.splits if_splits)
    with less.hyps [OF s(4)] s(3,5) less.prems(1) obtain ms' where
      "process_step\<^sup>*\<^sup>* (ms1, x) (ms', x)" "ms_pc ms' = Stops" "ms_exiting ms' = ms_exiting ms1"
      by auto
    moreover have "process_step (ms, x) (ms1, x)"
      using False less.prems(2) by (intro process_step.main [OF s(2)]) auto
    ultimately show ?thesis
      using s(3) converse_rtranclp_into_rtranclp [of process_step] by metis
  qed
qed

lemma core_steps_process:
  assumes "core_step\<^sup>*\<^sup>* x y" "snd y = Stop_Returned" "ms_pc ms = Stops"
  shows "\<exists>c. process_step\<^sup>*\<^sup>* (ms, x) (ms, (c, Stop_Returned))"
  using assms
proof (induction rule: converse_rtranclp_induct)
  case base
  then show ?case
    by (cases y) auto
next
  case (step x z)
  obtain c pc c' pc' where xz: "x = (c, pc)" "z = (c', pc')"
    by (cases x; cases z)
  show ?case
  proof (cases "pc = Stop_Returned")
    case True
    then show ?thesis
      by (auto simp: xz)
  next
    case False
    have "ms_pc ms \<notin> range Ended"
      using step.prems(2) by auto
    then have "process_step (ms, x) (ms, z)"
      using step.hyps(1) False step.prems(2) process_step.serve process_step.stop unfolding xz
      by (cases "pc' = pc") blast+
    then show ?thesis
      using step.IH [OF step.prems] converse_rtranclp_into_rtranclp [of process_step] by metis
  qed
qed

lemma process_ends:
  assumes r: "process_reachable B parse cfg bind_port (ms, (c, pc))" and sig: "ms_exiting ms \<noteq> NoSignal"
    and pcs: "ms_pc ms \<noteq> Stuck" "pc = Queues_Shut \<longrightarrow> loops_entered c" and listen: "gs_listening (ic_grpc c)"
    and run: "has_runners (ic_manager c)" and sz: "max_queue_size (scheduler_cfg cfg) \<noteq> 0"
  shows "\<exists>ms' c'. process_step\<^sup>*\<^sup>* (ms, (c, pc)) (ms', (c', Stop_Returned)) \<and> ms_pc ms' = Ended 0 \<and>
    stopped_core c'"
proof (cases "ms_pc ms \<in> range Ended")
  case True
  then show ?thesis
    using process_reachable_ok [OF r] process_stopped [OF r] by (auto simp: process_ok_def)
next
  case False
  then have "ms_pc ms \<notin> {Start_Up, Stuck} \<union> range Ended"
    using process_reachable_ok [OF r] pcs(1) by (simp add: process_ok_def)
  from main_reaches_stop [OF sig this] obtain ms1 where
    ms1: "process_step\<^sup>*\<^sup>* (ms, (c, pc)) (ms1, (c, pc))" "ms_pc ms1 = Stops"
    by blast
  have core: "core_reachable B parse cfg bind_port (c, pc)"
    using process_core [OF r] by simp
  have "\<exists>c1. core_step\<^sup>*\<^sup>* (c, pc) (c1, Stop_Returned)"
    using stop_completes [OF core _ _ listen run sz] pcs(2) by (cases "pc = Stop_Returned") blast+
  then obtain c' where c': "process_step\<^sup>*\<^sup>* (ms1, (c, pc)) (ms1, (c', Stop_Returned))"
    using core_steps_process [OF _ _ ms1(2)] by force
  let ?ms = "ms1\<lparr>ms_pc := Ended 0\<rparr>"
  have "process_step (ms1, (c', Stop_Returned)) (?ms, (c', Stop_Returned))"
    using ms1(2) by (intro process_step.stopped) (simp_all add: main_step_def)
  then have all: "process_step\<^sup>*\<^sup>* (ms, (c, pc)) (?ms, (c', Stop_Returned))"
    using ms1(1) c' by (meson rtranclp.rtrancl_into_rtrancl rtranclp_trans)
  then show ?thesis
    using process_stopped [OF process_steps_reachable [OF all r]] by (intro exI conjI) auto
qed

end
