(* ===== verification/Update_Threads.thy ===== *)
theory Update_Threads
  imports Model_Reconcile
begin

text \<open>
  The update thread of the manager and a thread in \<open>ModelManager::Stop\<close>, with the mutex
  \<open>cond_mu_\<close>, the condition variable and the flag \<open>running_\<close>. The update thread holds the mutex
  from the test of the wait to the end of the pass, except while it sleeps. What the two
  threads do together is the loop \<open>UploadLoop\<close> followed by the end of \<open>Stop\<close>, and a stop ends
  without waiting for the interval.
\<close>

section \<open>Threads\<close>

text \<open>
  \<open>Upd_Enter\<close>: before the lock; \<open>Upd_Check\<close>: at the predicate of the wait; \<open>Upd_Asleep\<close>: on the
  condition variable; \<open>Upd_Notified\<close>, \<open>Upd_Timed_Out\<close>: woken, before the mutex is locked again;
  \<open>Upd_Decide\<close>: after the wait; \<open>Upd_Pass\<close>: in \<open>LoadModels\<close>. An exception of a pass leaves the
  thread function and ends the process (\<open>Upd_Died\<close>).
\<close>

datatype update_pc =
    No_Update_Thread
  | Upd_Enter
  | Upd_Check
  | Upd_Asleep
  | Upd_Notified
  | Upd_Timed_Out
  | Upd_Decide
  | Upd_Pass
  | Upd_Exited
  | Upd_Died exn

text \<open>
  The stopping thread: not in \<open>Stop\<close>; the flag lowered, before the lock; with the mutex,
  before \<open>notify_all\<close>; joining; returned.
\<close>

datatype manager_stop_pc = Stop_Idle | Stop_Lowered | Stop_Locked | Stop_Joining | Stop_Over

record 'p update_sys =
  us_manager :: "'p manager"
  us_update :: update_pc
  us_stop :: manager_stop_pc

definition update_holds :: "'p update_sys \<Rightarrow> bool" where
  "update_holds s \<longleftrightarrow> us_update s \<in> {Upd_Check, Upd_Decide, Upd_Pass}"

definition stop_holds :: "'p update_sys \<Rightarrow> bool" where
  "stop_holds s \<longleftrightarrow> us_stop s = Stop_Locked"

abbreviation at_update :: "update_pc \<Rightarrow> 'p update_sys \<Rightarrow> 'p update_sys" where
  "at_update pc s \<equiv> s\<lparr>us_update := pc\<rparr>"

text \<open>
  \<open>wake\<close>: what nobody in the program causes, the end of the interval and a spurious wake-up.
  A wait that timed out tests the predicate once more and returns whatever it says.
\<close>

inductive update_wake :: "'p update_sys \<Rightarrow> 'p update_sys \<Rightarrow> bool" where
  timeout: "us_update s = Upd_Asleep \<Longrightarrow> update_wake s (at_update Upd_Timed_Out s)"
| spurious: "us_update s = Upd_Asleep \<Longrightarrow> update_wake s (at_update Upd_Notified s)"

inductive update_step ::
  "(string \<Rightarrow> model_config option) \<Rightarrow> 'p update_sys \<Rightarrow> 'p update_sys \<Rightarrow> bool" for parse where
  lock: "us_update s = Upd_Enter \<Longrightarrow> \<not> stop_holds s \<Longrightarrow> update_step parse s (at_update Upd_Check s)"
| check: "us_update s = Upd_Check \<Longrightarrow>
    update_step parse s (at_update (if mm_running (us_manager s) then Upd_Asleep else Upd_Decide) s)"
| relock: "us_update s = Upd_Notified \<Longrightarrow> \<not> stop_holds s \<Longrightarrow> update_step parse s (at_update Upd_Check s)"
| relock_late: "us_update s = Upd_Timed_Out \<Longrightarrow> \<not> stop_holds s \<Longrightarrow>
    update_step parse s (at_update Upd_Decide s)"
| decide: "us_update s = Upd_Decide \<Longrightarrow>
    update_step parse s (at_update (if mm_running (us_manager s) then Upd_Pass else Upd_Exited) s)"
| pass: "us_update s = Upd_Pass \<Longrightarrow> LoadModels B parse (us_manager s) = Inr mm \<Longrightarrow>
    update_step parse s (s\<lparr>us_manager := mm, us_update := Upd_Enter\<rparr>)"
| pass_throws: "us_update s = Upd_Pass \<Longrightarrow> LoadModels B parse (us_manager s) = Inl e \<Longrightarrow>
    update_step parse s (at_update (Upd_Died e) s)"
| lower: "us_stop s = Stop_Idle \<Longrightarrow>
    update_step parse s (s\<lparr>us_manager := (us_manager s)\<lparr>mm_running := False\<rparr>, us_stop := Stop_Lowered\<rparr>)"
| stop_lock: "us_stop s = Stop_Lowered \<Longrightarrow> \<not> update_holds s \<Longrightarrow> update_step parse s (s\<lparr>us_stop := Stop_Locked\<rparr>)"
| notify: "us_stop s = Stop_Locked \<Longrightarrow>
    update_step parse s (s\<lparr>us_stop := Stop_Joining,
      us_update := (if us_update s = Upd_Asleep then Upd_Notified else us_update s)\<rparr>)"
| joined: "us_stop s = Stop_Joining \<Longrightarrow> us_update s \<in> {No_Update_Thread, Upd_Exited} \<Longrightarrow>
    update_step parse s \<lparr>us_manager = snd (ModelManager_Stop (us_manager s)),
      us_update = No_Update_Thread, us_stop = Stop_Over\<rparr>"

definition update_start :: "'p manager \<Rightarrow> 'p update_sys" where
  "update_start mm = \<lparr>us_manager = mm,
     us_update = (if mm_update_thread mm then Upd_Enter else No_Update_Thread), us_stop = Stop_Idle\<rparr>"

inductive update_reachable ::
  "(string \<Rightarrow> model_config option) \<Rightarrow> 'p manager \<Rightarrow> 'p update_sys \<Rightarrow> bool" for parse mm where
  start: "update_reachable parse mm (update_start mm)"
| step: "update_reachable parse mm s \<Longrightarrow> update_step parse s s' \<or> update_wake s s' \<Longrightarrow>
    update_reachable parse mm s'"

section \<open>A pass does not read or write the flag\<close>

abbreviation set_running :: "bool \<Rightarrow> 'p manager \<Rightarrow> 'p manager" where
  "set_running r mm \<equiv> mm\<lparr>mm_running := r\<rparr>"

lemma LoadModel_running:
  "LoadModel B parse info (set_running r mm) =
     (fst (LoadModel B parse info mm), set_running r (snd (LoadModel B parse info mm)))"
  by (auto simp: LoadModel_def alloc_def Let_def split: prod.split option.split status.split)

lemma add_model_running: "add_model B parse info (set_running r mm) = set_running r (add_model B parse info mm)"
  by (auto simp: add_model_def LoadModel_running new_run_context_def instances_at_def free_info_def Let_def
      split: prod.split option.split)

lemma update_model_running:
  "update_model B parse info (set_running r mm) = set_running r (update_model B parse info mm)"
  by (auto simp: update_model_def LoadModel_running free_info_def Let_def split: prod.split option.split)

lemma delete_model_running: "delete_model n (set_running r mm) = set_running r (delete_model n mm)"
  by (auto simp: delete_model_def free_info_def split: option.split)

lemma fold_running:
  assumes "\<And>x mm. f x (set_running r mm) = set_running r (f x mm)"
  shows "fold f xs (set_running r mm) = set_running r (fold f xs mm)"
  using assms by (induction xs arbitrary: mm) simp_all

lemma LoadModels_running:
  "LoadModels B parse (set_running r mm) = map_sum id (set_running r) (LoadModels B parse mm)"
proof -
  have "GetModelStateUpdate B parse (set_running r mm) = GetModelStateUpdate B parse mm"
    by (simp add: GetModelStateUpdate_def Let_def split: option.split)
  then show ?thesis
    by (auto simp: LoadModels_def fold_running [of "add_model B parse"] add_model_running
        fold_running [of "update_model B parse"] update_model_running
        fold_running [of delete_model] delete_model_running split: sum.split)
qed


lemma LoadModels_keeps_flag:
  assumes "LoadModels B parse mm = Inr mm'"
  shows "mm_running mm' = mm_running mm"
proof -
  have "set_running (mm_running mm) mm = mm"
    by simp
  then have "mm' = set_running (mm_running mm) mm'"
    using LoadModels_running [of B parse "mm_running mm" mm] assms by simp
  then show ?thesis
    by (metis manager.select_convs(3) manager.surjective manager.update_convs(3))
qed

section \<open>The threads together are the loop\<close>

abbreviation passes :: "boost_fs list \<Rightarrow> (boost_fs \<times> bool) list" where
  "passes Bs \<equiv> map (\<lambda>B. (B, True)) Bs"

lemma UploadLoop_snoc:
  assumes "UploadLoop parse (passes Bs) mm = Inr mm1" "LoadModels B parse (set_running True mm1) = Inr mm2"
  shows "UploadLoop parse (passes (Bs @ [B])) mm = Inr mm2"
  using assms(1)
proof (induction Bs arbitrary: mm)
  case Nil
  then show ?case
    using assms(2) by (simp add: UploadLoop_turn_def)
next
  case (Cons A Bs)
  then show ?case
    by (cases "LoadModels A parse (set_running True mm)") (simp_all add: UploadLoop_turn_def)
qed

text \<open>The managers that passes over any repositories lead to.\<close>

definition after_passes :: "(string \<Rightarrow> model_config option) \<Rightarrow> 'p manager \<Rightarrow> 'p manager \<Rightarrow> bool" where
  "after_passes parse mm mm' \<longleftrightarrow> (\<exists>Bs. UploadLoop parse (passes Bs) mm = Inr mm')"

lemma after_no_pass: "after_passes parse mm mm"
  unfolding after_passes_def by (intro exI [of _ "[]"]) simp

lemma after_pass:
  assumes "after_passes parse mm (set_running True mm1)" "LoadModels B parse mm1 = Inr mm2"
  shows "after_passes parse mm (set_running True mm2)"
proof -
  have "LoadModels B parse (set_running True (set_running True mm1)) = Inr (set_running True mm2)"
    using LoadModels_running [of B parse True mm1] assms(2) by simp
  then show ?thesis
    using UploadLoop_snoc assms(1) unfolding after_passes_def by blast
qed

text \<open>
  Until \<open>Stop\<close> has returned: the flag is what it made of it, at most one thread has the mutex, a
  thread that sleeps is still to be notified, and the manager is, but for the flag, one that
  passes lead to.
\<close>

definition update_ok :: "(string \<Rightarrow> model_config option) \<Rightarrow> 'p manager \<Rightarrow> 'p update_sys \<Rightarrow> bool" where
  "update_ok parse mm s \<longleftrightarrow>
     (if us_stop s = Stop_Over
      then us_update s = No_Update_Thread \<and>
        (\<exists>mm'. after_passes parse mm mm' \<and> us_manager s = snd (ModelManager_Stop mm'))
      else mm_running (us_manager s) = (us_stop s = Stop_Idle) \<and>
        \<not> (update_holds s \<and> stop_holds s) \<and>
        (us_update s = Upd_Asleep \<longrightarrow> us_stop s \<noteq> Stop_Joining) \<and>
        after_passes parse mm (set_running True (us_manager s)))"

lemma update_ok_start: "mm_running mm \<Longrightarrow> update_ok parse mm (update_start mm)"
  using after_no_pass [of parse mm]
  by (cases mm) (simp add: update_ok_def update_start_def update_holds_def stop_holds_def)

lemma Stop_running: "ModelManager_Stop (set_running r mm) = ModelManager_Stop mm"
  by (simp add: ModelManager_Stop_def)

lemma update_wake_ok: "update_wake s s' \<Longrightarrow> update_ok parse mm s \<Longrightarrow> update_ok parse mm s'"
  by (cases rule: update_wake.cases) (auto simp: update_ok_def update_holds_def stop_holds_def split: if_splits)

lemma update_step_ok:
  assumes "update_step parse s s'" "update_ok parse mm s"
  shows "update_ok parse mm s'"
  using assms(1)
proof cases
  case (pass B mm')
  have live: "us_stop s \<noteq> Stop_Over"
    using assms(2) pass(2) by (auto simp: update_ok_def)
  then have "after_passes parse mm (set_running True (us_manager s))"
    using assms(2) by (simp add: update_ok_def)
  then have "after_passes parse mm (set_running True mm')"
    using after_pass pass(3) by blast
  then show ?thesis
    using assms(2) live LoadModels_keeps_flag [OF pass(3)] pass(1)
    by (simp add: update_ok_def update_holds_def)
next
  case joined
  then have "after_passes parse mm (set_running True (us_manager s))"
    using assms(2) by (simp add: update_ok_def)
  then show ?thesis
    using joined(1) Stop_running [of True "us_manager s"] by (auto simp: update_ok_def)
qed (use assms(2) in \<open>auto simp: update_ok_def update_holds_def stop_holds_def split: if_splits\<close>)

lemma update_reachable_ok: "update_reachable parse mm s \<Longrightarrow> mm_running mm \<Longrightarrow> update_ok parse mm s"
  by (induction rule: update_reachable.induct) (auto intro: update_ok_start update_step_ok update_wake_ok)

section \<open>A stop comes to its end\<close>

text \<open>The steps that are left once the flag is lowered, timeouts and spurious wake-ups included.\<close>

fun update_rank :: "update_pc \<Rightarrow> nat" where
  "update_rank Upd_Pass = 6"
| "update_rank Upd_Asleep = 6"
| "update_rank Upd_Enter = 5"
| "update_rank Upd_Notified = 5"
| "update_rank Upd_Check = 4"
| "update_rank Upd_Timed_Out = 4"
| "update_rank Upd_Decide = 3"
| "update_rank _ = 0"

fun stop_rank :: "manager_stop_pc \<Rightarrow> nat" where
  "stop_rank Stop_Idle = 4"
| "stop_rank Stop_Lowered = 3"
| "stop_rank Stop_Locked = 2"
| "stop_rank Stop_Joining = 1"
| "stop_rank Stop_Over = 0"

definition stop_left :: "'p update_sys \<Rightarrow> nat" where
  "stop_left s = update_rank (us_update s) + stop_rank (us_stop s)"

lemma stop_left_bound: "us_stop s \<noteq> Stop_Idle \<Longrightarrow> stop_left s \<le> 9"
  by (cases "us_update s"; cases "us_stop s") (simp_all add: stop_left_def)

lemma stop_left_decreases:
  assumes "update_ok parse mm s" "us_stop s \<noteq> Stop_Idle" "update_step parse s s' \<or> update_wake s s'"
  shows "stop_left s' < stop_left s"
  using assms(3)
proof
  assume "update_wake s s'"
  then show ?thesis
    by cases (auto simp: stop_left_def)
next
  assume "update_step parse s s'"
  then show ?thesis
    using assms(1,2) by cases (auto simp: stop_left_def update_ok_def split: if_splits)
qed

text \<open>Without a timeout or a spurious wake-up somebody can always move.\<close>

lemma pass_moves:
  assumes "us_update s = Upd_Pass"
  shows "\<exists>s'. update_step parse s s'"
proof (cases "LoadModels undefined parse (us_manager s)")
  case (Inl e)
  then show ?thesis
    using update_step.pass_throws [OF assms] by blast
next
  case (Inr mm)
  then show ?thesis
    using update_step.pass [OF assms] by blast
qed

lemma holder_moves: "update_holds s \<Longrightarrow> \<exists>s'. update_step parse s s'"
  using pass_moves [of s parse] update_step.check [of s parse] update_step.decide [of s parse]
  unfolding update_holds_def by blast

lemma stop_can_move:
  assumes ok: "update_ok parse mm s" and stop: "us_stop s \<notin> {Stop_Idle, Stop_Over}"
    and alive: "us_update s \<notin> range Upd_Died"
  shows "\<exists>s'. update_step parse s s'"
proof (cases "us_stop s")
  case Stop_Locked
  then show ?thesis
    using update_step.notify by blast
next
  case Stop_Lowered
  then show ?thesis
    using holder_moves update_step.stop_lock by blast
next
  case Stop_Joining
  then have free: "\<not> stop_holds s" and awake: "us_update s \<noteq> Upd_Asleep"
    using ok by (auto simp: stop_holds_def update_ok_def)
  show ?thesis
  proof (cases "us_update s")
    case Upd_Pass
    then show ?thesis
      by (rule pass_moves)
  qed (use free awake alive Stop_Joining update_step.lock update_step.check update_step.relock
      update_step.relock_late update_step.decide update_step.joined in blast)+
qed (use stop in simp_all)

end
