(* ===== verification/Demo_Process.thy ===== *)
theory Demo_Process
  imports Demo_Core Demo_Live Process_System Update_Threads
begin

text \<open>
  The process on the concrete repository, with an inference call in progress when a signal
  arrives; and the update thread of the manager, asleep when \<open>Stop\<close> is called.
\<close>

section \<open>A signal during a call\<close>

lemma demo_infer_steps: "(loop_step Infer_TakeAction)\<^sup>*\<^sup>* (infer_state demo_core) (demo_run 0 4)"
proof -
  let ?mm = "demo_manager 4"
  obtain h where h: "request_arrived demo_request ?mm = (?mm, h)"
    by (simp add: request_arrived_def call_entered_def)
  have hs: "h_thread h = Looping" "cq_events h = [(0, True)]" "\<not> srv_shut h" "\<not> cq_shut h"
    using h by (auto simp: request_arrived_def call_entered_def new_infer_handler_def Handler_Start_def
        new_handler_def)
  have "infer_state demo_core = (?mm, new_infer_handler)"
    by (simp add: infer_state_def demo_core_def GrpcServer_Start_def GrpcServer_def new_infer_handler_def
        new_handler_def)
  moreover have "loop_step Infer_TakeAction (?mm, new_infer_handler) (call_entered ?mm)"
    unfolding call_entered_def by (rule enter_loop_step) (simp add: new_infer_handler_def Handler_Start_def)
  moreover have "loop_step Infer_TakeAction (call_entered ?mm) (?mm, h)"
  proof -
    have "queue_step Infer_TakeAction (call_entered ?mm) (?mm, h)"
      using queue_step.arrive [of 0 "snd (call_entered ?mm)" Infer_TakeAction ?mm demo_request] h
      by (simp add: request_arrived_def call_entered_def new_infer_handler_def Handler_Start_def new_handler_def)
    then show ?thesis
      using hs by (simp add: loop_step_def same_flags_def call_entered_def new_infer_handler_def
          Handler_Start_def new_handler_def)
  qed
  moreover have "loop_step Infer_TakeAction (?mm, h) (demo_run 0 4)"
  proof -
    have "is_returned (demo_turn 4)"
      by code_simp
    note r = or_else_returned [OF this, of "demo_arrived 4"]
    have "queue_step Infer_TakeAction (?mm, h) (demo_run 0 4)"
      using r by (intro queue_step.next_event [OF hs(1,2)]) (simp add: request_turn_def h)
    moreover have "cq_shut (snd (demo_run 0 4)) = False" "srv_shut (snd (demo_run 0 4)) = False"
      by code_simp+
    ultimately show ?thesis
      using hs by (simp add: loop_step_def same_flags_def)
  qed
  ultimately show ?thesis
    by (metis (no_types) converse_rtranclp_into_rtranclp r_into_rtranclp)
qed

definition demo_called :: inference_core where
  "demo_called = put_infer (demo_run 0 4) demo_core"

definition demo_signalled :: process where
  "demo_signalled = (\<lparr>ms_exiting = GraceExit, ms_pc = Loop_Test\<rparr>, (demo_called, Serving))"

abbreviation demo_process_reachable :: "process \<Rightarrow> bool" where
  "demo_process_reachable \<equiv> process_reachable demo_fs (demo_parse 2) (demo_server_config 4) (\<lambda>_. True)"

lemma demo_process_start:
  "demo_process_reachable (\<lparr>ms_exiting = NoSignal, ms_pc = Loop_Test\<rparr>, (demo_core, Serving))"
  by (rule process_reachable.start [OF demo_core_created])

lemma infer_loop_process:
  assumes "(loop_step Infer_TakeAction)\<^sup>*\<^sup>* (infer_state c) sh" "ms_pc ms \<notin> range Ended"
  shows "process_step\<^sup>*\<^sup>* (ms, (c, Serving)) (ms, (put_infer sh c, Serving))"
  using assms(1)
proof (induction rule: rtranclp_induct)
  case base
  then show ?case
    by simp
next
  case (step sh1 sh2)
  have "core_step (put_infer sh1 c, Serving) (put_infer sh2 (put_infer sh1 c), Serving)"
    by (rule core_step.infer) (simp add: step.hyps(2))
  then have "process_step (ms, (put_infer sh1 c, Serving)) (ms, (put_infer sh2 c, Serving))"
    using process_step.serve [of "put_infer sh1 c" Serving "put_infer sh2 c" ms] assms(2) by simp
  then show ?case
    using step.IH by (rule rtranclp.rtrancl_into_rtrancl [rotated])
qed

lemma demo_signalled_reachable: "demo_process_reachable demo_signalled"
proof -
  let ?ms = "\<lparr>ms_exiting = NoSignal, ms_pc = Loop_Test\<rparr>"
  have "process_step\<^sup>*\<^sup>* (?ms, (demo_core, Serving)) (?ms, (demo_called, Serving))"
    unfolding demo_called_def using demo_infer_steps by (rule infer_loop_process) auto
  moreover have "process_step (?ms, (demo_called, Serving)) demo_signalled"
    unfolding demo_signalled_def
    by (rule process_step.main [where ev = "Signal SIGTERM False"])
      (auto simp: main_step_def deliver_def handle_signal_def signalHandler_def exit_kind_def image_iff)
  ultimately show ?thesis
    using process_steps_reachable [OF _ demo_process_start] by (meson rtranclp.rtrancl_into_rtrancl)
qed

lemma demo_called_facts:
  "step_of (gs_infer (ic_grpc demo_called)) 0 = Some PROCESS" "gs_listening (ic_grpc demo_called)"
  "has_runners (ic_manager demo_called)" "max_queue_size (scheduler_cfg (demo_server_config 4)) \<noteq> 0"
proof -
  show "step_of (gs_infer (ic_grpc demo_called)) 0 = Some PROCESS" "has_runners (ic_manager demo_called)"
    unfolding has_runners_def by code_simp+
  show "gs_listening (ic_grpc demo_called)"
    by (simp add: demo_called_def put_infer_def demo_core_def GrpcServer_Start_def)
  show "max_queue_size (scheduler_cfg (demo_server_config 4)) \<noteq> 0"
    by (simp add: demo_server_config_def)
qed

section \<open>A stop while the update thread sleeps\<close>

abbreviation demo_update_reachable :: "tag payload update_sys \<Rightarrow> bool" where
  "demo_update_reachable \<equiv> update_reachable (demo_parse 2) demo_live_manager"

definition demo_asleep :: "tag payload update_sys" where
  "demo_asleep = \<lparr>us_manager = set_running False demo_live_manager, us_update = Upd_Asleep,
     us_stop = Stop_Lowered\<rparr>"

lemma demo_live_manager_runs: "mm_update_thread demo_live_manager" "mm_running demo_live_manager"
  by code_simp+

lemma demo_asleep_reachable: "demo_update_reachable demo_asleep"
proof -
  let ?s = "update_start demo_live_manager"
  have s: "us_update ?s = Upd_Enter" "us_stop ?s = Stop_Idle" "us_manager ?s = demo_live_manager"
    using demo_live_manager_runs by (simp_all add: update_start_def)
  have "update_step (demo_parse 2) ?s (at_update Upd_Check ?s)"
    using s by (intro update_step.lock) (simp_all add: stop_holds_def)
  moreover have "update_step (demo_parse 2) (at_update Upd_Check ?s) (at_update Upd_Asleep ?s)"
    using update_step.check [of "at_update Upd_Check ?s" "demo_parse 2"] s demo_live_manager_runs by simp
  moreover have "update_step (demo_parse 2) (at_update Upd_Asleep ?s) demo_asleep"
    using update_step.lower [of "at_update Upd_Asleep ?s" "demo_parse 2"] s
    by (simp add: demo_asleep_def update_start_def)
  ultimately show ?thesis
    using update_reachable.start update_reachable.step by metis
qed

lemma demo_update_stopped:
  "\<exists>s. demo_update_reachable s \<and> us_stop s = Stop_Over"
proof -
  let ?p = "demo_parse 2"
  note f = demo_asleep_def update_holds_def stop_holds_def
  let ?at = "\<lambda>u p. demo_asleep\<lparr>us_update := u, us_stop := p\<rparr>"
  have go: "demo_update_reachable s'" if "update_step ?p s s'" "demo_update_reachable s" for s s'
    using that by (auto intro: update_reachable.step)
  have "update_step ?p demo_asleep (?at Upd_Asleep Stop_Locked)"
    using update_step.stop_lock [of demo_asleep ?p] by (simp add: f)
  note r1 = go [OF this demo_asleep_reachable]
  have "update_step ?p (?at Upd_Asleep Stop_Locked) (?at Upd_Notified Stop_Joining)"
    using update_step.notify [of "?at Upd_Asleep Stop_Locked" ?p] by (simp add: f)
  note r2 = go [OF this r1]
  have "update_step ?p (?at Upd_Notified Stop_Joining) (?at Upd_Check Stop_Joining)"
    using update_step.relock [of "?at Upd_Notified Stop_Joining" ?p] by (simp add: f)
  note r3 = go [OF this r2]
  have "update_step ?p (?at Upd_Check Stop_Joining) (?at Upd_Decide Stop_Joining)"
    using update_step.check [of "?at Upd_Check Stop_Joining" ?p] by (simp add: f)
  note r4 = go [OF this r3]
  have "update_step ?p (?at Upd_Decide Stop_Joining) (?at Upd_Exited Stop_Joining)"
    using update_step.decide [of "?at Upd_Decide Stop_Joining" ?p] by (simp add: f)
  note r5 = go [OF this r4]
  have "\<exists>s. update_step ?p (?at Upd_Exited Stop_Joining) s \<and> us_stop s = Stop_Over"
    using update_step.joined [of "?at Upd_Exited Stop_Joining" ?p] by force
  then show ?thesis
    using go r5 by blast
qed

end
