(* ===== verification/Timer.thy ===== *)
theory Timer
  imports Simple_Scheduler Complex_Main
begin

text \<open>
  \<open>src/utils/timer/timer.h\<close>: a start time and the elapsed time since then. The clock counts
  nanoseconds in 64 bits; the methods convert the difference to seconds as a \<open>double\<close>, scale
  it, and convert it back to an integer. Doubles are rational numbers, and every operation
  rounds its exact result to the nearest number of 53 bits, ties to even; the magnitudes that
  occur are far from the ends of the exponent range.
\<close>

section \<open>Arithmetic on doubles\<close>

definition round_half_even :: "rat \<Rightarrow> int" where
  "round_half_even y =
     (let f = \<lfloor>y\<rfloor>; r = y - of_int f
      in if r < 1 / 2 \<or> (r = 1 / 2 \<and> even f) then f else f + 1)"

function bit_length :: "int \<Rightarrow> nat" where
  "bit_length n = (if n \<le> 0 then 0 else Suc (bit_length (n div 2)))"
  by pat_completeness auto

termination
  by (relation "measure nat") (auto simp: nat_less_eq_zless)

declare bit_length.simps [simp del]

text \<open>The exponent of the leading bit of a positive number.\<close>

definition leading_bit :: "rat \<Rightarrow> int" where
  "leading_bit x =
     (let (a, b) = quotient_of x;
          k = int (bit_length a) - int (bit_length b)
      in if 2 powi k \<le> x then k else k - 1)"

definition round_positive :: "rat \<Rightarrow> rat" where
  "round_positive x =
     (let e = leading_bit x - 52 in of_int (round_half_even (x * 2 powi (- e))) * 2 powi e)"

definition to_double :: "rat \<Rightarrow> rat" where
  "to_double x = (if x = 0 then 0 else if x < 0 then - round_positive (- x) else round_positive x)"

text \<open>The conversion of a double to a signed integer truncates; out of range it is undefined.\<close>

definition double_to_int :: "nat \<Rightarrow> rat \<Rightarrow> int option" where
  "double_to_int bits x =
     (let t = (if x < 0 then - \<lfloor>- x\<rfloor> else \<lfloor>x\<rfloor>)
      in if - (2 ^ (bits - 1)) \<le> t \<and> t < 2 ^ (bits - 1) then Some t else None)"

section \<open>The timer\<close>

text \<open>Time points are counts of nanoseconds; a difference that overflows is undefined.\<close>

record timer =
  tm_start :: int

definition tic :: "int \<Rightarrow> timer \<Rightarrow> int \<times> timer" where
  "tic now t = (now, t\<lparr>tm_start := now\<rparr>)"

definition elapsed :: "int \<Rightarrow> int \<Rightarrow> int option" where
  "elapsed from until =
     (if - (2 ^ 63) \<le> until - from \<and> until - from < 2 ^ 63 then Some (until - from) else None)"

text \<open>\<open>count()\<close> of a difference as \<open>duration<double>\<close>, in seconds.\<close>

definition seconds :: "int \<Rightarrow> rat" where
  "seconds ns = to_double (to_double (of_int ns) / 1000000000)"

definition scaled :: "rat \<Rightarrow> int \<Rightarrow> rat" where
  "scaled factor ns = to_double (seconds ns * factor)"

definition toc_from :: "int \<Rightarrow> int \<Rightarrow> int option" where
  "toc_from start now = Option.bind (elapsed start now) (\<lambda>ns. double_to_int 32 (scaled 1000 ns))"

definition toc :: "int \<Rightarrow> timer \<Rightarrow> int option" where
  "toc now t = Option.bind (elapsed (tm_start t) now) (\<lambda>ns. double_to_int 32 (scaled 1000 ns))"

definition toc_in :: "bool \<Rightarrow> int \<Rightarrow> timer \<Rightarrow> int option" where
  "toc_in is_micro now t =
     Option.bind (elapsed (tm_start t) now)
       (\<lambda>ns. double_to_int 32 (if is_micro then scaled 1000000 ns else scaled 1000 ns))"

definition duration :: "int \<Rightarrow> int \<Rightarrow> rat option" where
  "duration start until = map_option (scaled 1000) (elapsed start until)"

definition duration_microsec :: "int \<Rightarrow> int \<Rightarrow> int option" where
  "duration_microsec start until =
     Option.bind (elapsed start until) (\<lambda>ns. double_to_int 64 (scaled 1000000 ns))"

section \<open>The error of a rounding\<close>

lemma round_half_even_error: "\<bar>of_int (round_half_even y) - y\<bar> \<le> 1 / 2"
proof -
  define f where "f = \<lfloor>y\<rfloor>"
  have f: "of_int f \<le> y" "y < of_int f + 1"
    unfolding f_def by linarith+
  have r: "round_half_even y = (if y - of_int f < 1 / 2 \<or> (y - of_int f = 1 / 2 \<and> even f) then f else f + 1)"
    by (simp add: round_half_even_def f_def Let_def)
  show ?thesis
  proof (cases "y - of_int f < 1 / 2 \<or> (y - of_int f = 1 / 2 \<and> even f)")
    case True
    then have "round_half_even y = f" "y - of_int f \<le> 1 / 2"
      by (auto simp: r)
    then show ?thesis
      using f(1) by (simp add: abs_le_iff)
  next
    case False
    then have "round_half_even y = f + 1" "1 / 2 \<le> y - of_int f"
      by (auto simp: r)
    then show ?thesis
      using f(2) by (simp add: abs_le_iff)
  qed
qed

lemma bit_length_range:
  assumes "0 < n"
  shows "0 < bit_length n \<and> 2 ^ (bit_length n - 1) \<le> n \<and> n < 2 ^ bit_length n"
  using assms
proof (induction n rule: bit_length.induct)
  case (1 n)
  show ?case
  proof (cases "n = 1")
    case True
    then show ?thesis
      by (simp add: bit_length.simps [of 1] bit_length.simps [of 0])
  next
    case False
    then have ih: "0 < bit_length (n div 2)" "2 ^ (bit_length (n div 2) - 1) \<le> n div 2"
      "n div 2 < 2 ^ bit_length (n div 2)"
      using 1 by simp_all
    have "bit_length n = Suc (bit_length (n div 2))"
      using 1(2) by (simp add: bit_length.simps [of n])
    moreover have "(2 :: int) ^ bit_length (n div 2) = 2 * 2 ^ (bit_length (n div 2) - 1)"
      using ih(1) by (cases "bit_length (n div 2)") simp_all
    moreover have "n div 2 * 2 \<le> n" "n < n div 2 * 2 + 2"
      by presburger+
    ultimately show ?thesis
      using ih by simp
  qed
qed

lemma bit_length_powi:
  assumes "0 < n"
  shows "(2 :: rat) powi (int (bit_length n) - 1) \<le> of_int n" "of_int n < (2 :: rat) powi int (bit_length n)"
proof -
  note b = bit_length_range [OF assms]
  then have "(2 :: rat) powi (int (bit_length n) - 1) = of_int (2 ^ (bit_length n - 1))"
    by (simp add: power_int_def nat_diff_distrib')
  then show "(2 :: rat) powi (int (bit_length n) - 1) \<le> of_int n"
    using b by (metis of_int_le_iff)
  have "(2 :: rat) powi int (bit_length n) = of_int (2 ^ bit_length n)"
    by simp
  then show "of_int n < (2 :: rat) powi int (bit_length n)"
    using b by (metis of_int_less_iff)
qed

lemma leading_bit_range:
  assumes "0 < x"
  shows "2 powi leading_bit x \<le> x" "x < 2 powi (leading_bit x + 1)"
proof -
  obtain a b where q: "quotient_of x = (a, b)"
    by (cases "quotient_of x")
  have b: "0 < b" and x: "x = of_int a / of_int b"
    using quotient_of_denom_pos [OF q] quotient_of_div [OF q] by auto
  have a: "0 < a"
    using assms b x by (simp add: zero_less_divide_iff)
  define la lb where "la = int (bit_length a)" and "lb = int (bit_length b)"
  have ra: "(2 :: rat) powi (la - 1) \<le> of_int a" "of_int a < (2 :: rat) powi la"
    and rb: "(2 :: rat) powi (lb - 1) \<le> of_int b" "of_int b < (2 :: rat) powi lb"
    using bit_length_powi [of a] bit_length_powi [of b] a b by (simp_all add: la_def lb_def)
  have pos: "(0 :: rat) < of_int b" "(0 :: rat) < of_int a"
    using a b by simp_all
  have low: "2 powi (la - lb - 1) < x"
  proof -
    have "2 powi (la - lb - 1) * of_int b < (2 :: rat) powi (la - lb - 1) * 2 powi lb"
      using rb(2) by (intro mult_strict_left_mono) simp_all
    also have "\<dots> = 2 powi (la - 1)"
      by (simp flip: power_int_add)
    also have "\<dots> \<le> of_int a"
      by (rule ra)
    finally show ?thesis
      using pos(1) by (simp add: x pos_less_divide_eq)
  qed
  have high: "x < 2 powi (la - lb + 1)"
  proof -
    have "of_int a < (2 :: rat) powi (la - lb + 1) * 2 powi (lb - 1)"
      using ra(2) by (simp flip: power_int_add)
    also have "\<dots> \<le> 2 powi (la - lb + 1) * of_int b"
      using rb(1) by (intro mult_left_mono) simp_all
    finally show ?thesis
      using pos(1) by (simp add: x pos_divide_less_eq)
  qed
  have lead: "leading_bit x = (if 2 powi (la - lb) \<le> x then la - lb else la - lb - 1)"
    by (simp add: leading_bit_def q la_def lb_def Let_def)
  show "2 powi leading_bit x \<le> x" "x < 2 powi (leading_bit x + 1)"
    using low high unfolding lead by (auto simp: not_le)
qed

lemma to_double_error:
  assumes "0 \<le> x"
  shows "\<bar>to_double x - x\<bar> \<le> x / 2 ^ 53"
proof (cases "x = 0")
  case True
  then show ?thesis
    by (simp add: to_double_def)
next
  case False
  then have pos: "0 < x"
    using assms by simp
  define e where "e = leading_bit x - 52"
  define y where "y = x * 2 powi (- e)"
  have x: "x = y * 2 powi e"
    by (simp add: y_def power_int_minus)
  have "to_double x - x = (of_int (round_half_even y) - y) * 2 powi e"
    using pos by (simp add: to_double_def round_positive_def Let_def e_def [symmetric] y_def [symmetric]
        x [symmetric] left_diff_distrib)
  then have "\<bar>to_double x - x\<bar> = \<bar>of_int (round_half_even y) - y\<bar> * 2 powi e"
    by (simp add: abs_mult)
  also have "\<dots> \<le> 1 / 2 * 2 powi e"
    by (intro mult_right_mono round_half_even_error) simp
  also have "\<dots> = 2 powi (leading_bit x) / 2 ^ 53"
  proof -
    have "(2 :: rat) powi e * 2 ^ 52 = 2 powi (leading_bit x)"
      using power_int_add [of "2 :: rat" e 52] by (simp add: e_def)
    then show ?thesis
      by simp
  qed
  also have "\<dots> \<le> x / 2 ^ 53"
    using leading_bit_range(1) [OF pos] by (intro divide_right_mono) simp_all
  finally show ?thesis .
qed

text \<open>Three roundings and two scalings: the milliseconds as a double.\<close>

lemma to_double_bounds:
  assumes "0 \<le> x"
  shows "x * (1 - 1 / 2 ^ 53) \<le> to_double x" "to_double x \<le> x * (1 + 1 / 2 ^ 53)" "0 \<le> to_double x"
proof -
  have "to_double x - x \<le> x / 2 ^ 53" "- (to_double x - x) \<le> x / 2 ^ 53"
    using to_double_error [OF assms] unfolding abs_le_iff by blast+
  then have e: "x - x / 2 ^ 53 \<le> to_double x" "to_double x \<le> x + x / 2 ^ 53"
    by linarith+
  show "x * (1 - 1 / 2 ^ 53) \<le> to_double x" "to_double x \<le> x * (1 + 1 / 2 ^ 53)"
    using e by (simp_all add: right_diff_distrib distrib_left)
  have "0 \<le> x * (1 - 1 / 2 ^ 53)"
    using assms by (intro mult_nonneg_nonneg) simp_all
  then show "0 \<le> to_double x"
    using e by (simp add: right_diff_distrib)
qed

lemma scaled_bounds:
  assumes "0 \<le> ns" "0 \<le> factor"
  defines "exact \<equiv> of_int ns / 1000000000 * factor"
  shows "exact * (1 - 1 / 2 ^ 53) ^ 3 \<le> scaled factor ns" "scaled factor ns \<le> exact * (1 + 1 / 2 ^ 53) ^ 3"
proof -
  let ?l = "1 - 1 / 2 ^ 53 :: rat" and ?u = "1 + 1 / 2 ^ 53 :: rat"
  define a where "a = to_double (of_int ns)"
  define b where "b = to_double (a / 1000000000)"
  have a: "of_int ns * ?l \<le> a" "a \<le> of_int ns * ?u" "0 \<le> a"
    unfolding a_def using assms(1) to_double_bounds [of "of_int ns"] by simp_all
  have b: "a / 1000000000 * ?l \<le> b" "b \<le> a / 1000000000 * ?u" "0 \<le> b"
    unfolding b_def using a(3) to_double_bounds [of "a / 1000000000"] by simp_all
  have c: "b * factor * ?l \<le> scaled factor ns" "scaled factor ns \<le> b * factor * ?u"
    using b(3) assms(2) to_double_bounds [of "b * factor"]
    by (simp_all add: scaled_def seconds_def a_def b_def)
  have "exact * ?l ^ 3 = of_int ns * ?l / 1000000000 * ?l * factor * ?l"
    by (simp only: exact_def power3_eq_cube) (simp only: ac_simps times_divide_eq_left times_divide_eq_right)
  also have "\<dots> \<le> a / 1000000000 * ?l * factor * ?l"
    using a(1) assms(2) by (intro mult_right_mono divide_right_mono) simp_all
  also have "\<dots> \<le> b * factor * ?l"
    using b(1) assms(2) by (intro mult_right_mono) simp_all
  finally show "exact * ?l ^ 3 \<le> scaled factor ns"
    using c(1) by simp
  have "b * factor * ?u \<le> a / 1000000000 * ?u * factor * ?u"
    using b(2) assms(2) by (intro mult_right_mono) simp_all
  also have "\<dots> \<le> of_int ns * ?u / 1000000000 * ?u * factor * ?u"
    using a(2) assms(2) by (intro mult_right_mono divide_right_mono) simp_all
  also have "\<dots> = exact * ?u ^ 3"
    by (simp only: exact_def power3_eq_cube) (simp only: ac_simps times_divide_eq_left times_divide_eq_right)
  finally show "scaled factor ns \<le> exact * ?u ^ 3"
    using c(2) by simp
qed

text \<open>
  Up to 24 days a truncated number of milliseconds is never too large and at most one too
  small: a difference is a whole number of nanoseconds, and the error stays below one.
\<close>

lemma truncated_ms:
  assumes "0 \<le> ns" "ns < 2 ^ 31 * 1000000"
  shows "ns div 1000000 - 1 \<le> \<lfloor>scaled 1000 ns\<rfloor>" "\<lfloor>scaled 1000 ns\<rfloor> \<le> ns div 1000000" "0 \<le> scaled 1000 ns"
proof -
  define m where "m = ns div 1000000"
  define x :: rat where "x = of_int ns / 1000000"
  have exact: "of_int ns / 1000000000 * 1000 = x"
    by (simp add: x_def)
  have pos: "0 \<le> x"
    using assms(1) by (simp add: x_def)
  have m: "m * 1000000 \<le> ns" "ns + 1 \<le> (m + 1) * 1000000"
    by (simp_all add: m_def)
  have below: "of_int m \<le> x" "x + 1 / 1000000 \<le> of_int m + 1"
    using m [THEN of_int_le_iff [THEN iffD2], where 'a1 = rat] by (simp_all add: x_def field_simps)
  have "x * (1 / 2 ^ 31) \<le> 1000000 * 2 ^ 31 / 1000000 * (1 / 2 ^ 31)"
    unfolding x_def using assms(2) [THEN of_int_less_iff [THEN iffD2], where 'a1 = rat]
    by (intro mult_right_mono divide_right_mono) simp_all
  then have small: "x \<le> 2 ^ 31"
    by simp
  have err: "x * ((1 + 1 / 2 ^ 53) ^ 3 - 1) < 1 / 1000000" "x * (1 - (1 - 1 / 2 ^ 53) ^ 3) < 1 / 1000000"
  proof -
    have "x * ((1 + 1 / 2 ^ 53) ^ 3 - 1) \<le> 2 ^ 31 * ((1 + 1 / 2 ^ 53) ^ 3 - 1)"
      using small by (intro mult_right_mono) (simp_all add: power3_eq_cube)
    also have "\<dots> < (1 / 1000000 :: rat)"
      by (simp add: power3_eq_cube)
    finally show "x * ((1 + 1 / 2 ^ 53) ^ 3 - 1) < 1 / 1000000" .
    have "x * (1 - (1 - 1 / 2 ^ 53) ^ 3) \<le> 2 ^ 31 * (1 - (1 - 1 / 2 ^ 53) ^ 3)"
      using small by (intro mult_right_mono) (simp_all add: power3_eq_cube)
    also have "\<dots> < (1 / 1000000 :: rat)"
      by (simp add: power3_eq_cube)
    finally show "x * (1 - (1 - 1 / 2 ^ 53) ^ 3) < 1 / 1000000" .
  qed
  note b = scaled_bounds [OF assms(1), of 1000, unfolded exact]
  have low: "x - 1 / 1000000 < scaled 1000 ns" and high: "scaled 1000 ns < x + 1 / 1000000"
    using b err by (simp_all add: right_diff_distrib)
  show "\<lfloor>scaled 1000 ns\<rfloor> \<le> ns div 1000000"
    using high below(2) unfolding m_def [symmetric] by linarith
  show "ns div 1000000 - 1 \<le> \<lfloor>scaled 1000 ns\<rfloor>"
    using low below(1) unfolding m_def [symmetric] by linarith
  have "0 \<le> x * (1 - 1 / 2 ^ 53) ^ 3"
    using pos by simp
  then show "0 \<le> scaled 1000 ns"
    using b(1) by simp
qed

lemma toc_accuracy:
  assumes "tm_start t \<le> now" "now < tm_start t + 2 ^ 31 * 1000000"
  shows "\<exists>ms. toc now t = Some ms \<and> (now - tm_start t) div 1000000 - 1 \<le> ms \<and> ms \<le> (now - tm_start t) div 1000000"
proof -
  define ns where "ns = now - tm_start t"
  have ns: "0 \<le> ns" "ns < 2 ^ 31 * 1000000"
    using assms by (simp_all add: ns_def)
  note tr = truncated_ms [OF ns]
  have "\<lfloor>scaled 1000 ns\<rfloor> < 2 ^ 31"
  proof -
    have "ns div 1000000 < 2 ^ 31"
      using ns(2) by (simp add: div_less_iff_less_mult)
    then show ?thesis
      using tr(2) by linarith
  qed
  moreover have "0 \<le> \<lfloor>scaled 1000 ns\<rfloor>"
    using tr(3) by simp
  ultimately have "double_to_int 32 (scaled 1000 ns) = Some \<lfloor>scaled 1000 ns\<rfloor>"
    using tr(3) by (simp add: double_to_int_def Let_def)
  moreover have "elapsed (tm_start t) now = Some ns"
    using ns by (simp add: elapsed_def ns_def)
  ultimately show ?thesis
    using tr(1,2) by (simp add: toc_def ns_def)
qed

text \<open>How long the depletion loop of \<open>Stop\<close> waits for a queue that does not become empty.\<close>

lemma Stop_waits_time:
  assumes "0 < bq_size (sc_queue s)" "toc now t = Some ms"
    "(now - tm_start t) div 1000000 - 1 \<le> ms" "ms \<le> (now - tm_start t) div 1000000"
  shows "Stop_waits ms s \<Longrightarrow> now < tm_start t + 121 * 1000000"
    "\<not> Stop_waits ms s \<Longrightarrow> tm_start t + 120 * 1000000 \<le> now"
  using assms by (auto simp: Stop_waits_def MAX_SCHEDULER_DEPLETION_WAIT_TIME_def not_less)

text \<open>The lower of the two values occurs: 1.001 seconds times 1000 is rounded below 1001.\<close>

lemma truncation_at_1001: "toc 1001000000 \<lparr>tm_start = 0\<rparr> = Some 1000"
  by code_simp

end
