(* ===== verification/Test_Programs.thy ===== *)
theory Test_Programs
  imports Main_Process Server_System
begin

text \<open>
  The ends of the objects, and the two programs of \<open>src/core/tests\<close>: one creates a demo backend
  and runs it once, the other lets a model manager work for a minute and stops it.
\<close>

section \<open>Destructors\<close>

text \<open>After a stop the destructors change nothing.\<close>

lemma free_all_running:
  "mm_running (fold (\<lambda>(_, ctx). free_info (rc_backend_info ctx)) m mm) = mm_running mm"
proof (induction m arbitrary: mm)
  case (Cons e m)
  obtain n ctx where e: "e = (n, ctx)"
    by (cases e)
  show ?case
    using Cons.IH [of "free_info (rc_backend_info ctx) mm"] by (simp add: e free_info_def)
qed simp

lemma stopped_manager:
  "mm_model_map (snd (ModelManager_Stop mm)) = []" "\<not> mm_running (snd (ModelManager_Stop mm))"
  by (simp_all add: ModelManager_Stop_def Let_def free_all_running)

lemma no_models_update: "mm_model_map mm = [] \<Longrightarrow> mm\<lparr>mm_model_map := []\<rparr> = mm"
  by (cases mm) simp

lemma stopped_manager_destroyed:
  "ModelManager_destroy (snd (ModelManager_Stop mm)) = snd (ModelManager_Stop mm)"
  by (simp add: ModelManager_destroy_def stopped_manager no_models_update)

lemma stopped_core_destroyed:
  assumes "InferenceCore_Stop_end core = Some (Inr (st, core'))"
  shows "InferenceCore_destroy core' = Some (Inr core')"
proof -
  obtain gs st' where gs: "GrpcServer_Stop_join (ic_grpc core) = Some (st', gs)"
    "core' = core\<lparr>ic_grpc := gs, ic_manager := snd (ModelManager_Stop (ic_manager core)), ic_running := False\<rparr>"
    using assms
    by (auto simp: InferenceCore_Stop_end_def THROW_ERROR_def split: option.splits prod.splits if_splits)
  then have "\<not> gs_running gs"
    by (auto simp: GrpcServer_Stop_join_def split: option.splits)
  then show ?thesis
    by (simp add: InferenceCore_destroy_def GrpcServer_destroy_def stopped_manager_destroyed gs(2))
qed

text \<open>The destructor of a manager frees every backend, and so does that of a core that was never started.\<close>

lemma destroyed_manager_empty:
  assumes "manager_wf mm"
  shows "mm_heap (ModelManager_destroy mm) a = None \<and> mm_model_map (ModelManager_destroy mm) = []"
proof (cases "mm_running mm")
  case True
  then have "ModelManager_destroy mm = snd (ModelManager_Stop mm)"
    by (simp add: ModelManager_destroy_def stopped_manager no_models_update)
  then show ?thesis
    using Stop_frees_all [OF assms, of a] by (simp add: stopped_manager)
next
  case False
  have "mm_heap mm a = None" if "a \<notin> set (owned (mm_model_map mm))"
    using manager_wfD(4) [OF assms] that by auto
  then show ?thesis
    using False by (simp add: ModelManager_destroy_def Let_def free_all)
qed

lemma unstarted_core_destroyed:
  assumes "InferenceCore B parse cfg = Inr core"
  shows "\<exists>core'. InferenceCore_destroy core = Some (Inr core') \<and> mm_heap (ic_manager core') a = None"
proof -
  obtain c where cfg: "cfg = Some c"
    using assms by (cases cfg) (simp_all add: InferenceCore_def ModelManager_Create_def THROW_ERROR_def)
  have c: "ModelManager B parse c = Inr (ic_manager core)" "\<not> ic_running core" "\<not> gs_running (ic_grpc core)"
    using assms
    by (cases "ModelManager B parse c :: exn + core_manager";
      force simp: cfg InferenceCore_def ModelManager_Create_def GrpcServer_Create_def GrpcServer_def)+
  then show ?thesis
    using destroyed_manager_empty [of "ic_manager core" a] ModelManager_idle [OF c(1)]
    by (simp add: InferenceCore_destroy_def GrpcServer_destroy_def idle_manager_def)
qed

section \<open>The test of the backend\<close>

text \<open>How a program ends: with an exit code and the lines it printed, or without meaning.\<close>

datatype program_end = Exits int "string list" | Breaks

definition test_server_config :: "string \<Rightarrow> i32 \<Rightarrow> server_config" where
  "test_server_config repo queue_size =
     zero_server_config
       \<lparr>model_repo_path := repo,
        model_control_cfg := (model_control_cfg zero_server_config)
          \<lparr>auto_update := True, update_interval := 10\<rparr>,
        scheduler_cfg := (scheduler_cfg zero_server_config)\<lparr>max_queue_size := queue_size\<rparr>\<rparr>"

definition test_config_path :: string where
  "test_config_path = ''/root/workspace/model-inference-server/demo/model_repo/demo/config.pbtxt''"

definition demo_backend_test ::
  "boost_fs \<Rightarrow> (string \<Rightarrow> model_config option) \<Rightarrow> program_end" where
  "demo_backend_test B parse =
     (let cfg = test_server_config ''/root/models/'' 0;
          model_name = ''demo'';
          model_version = 0;
          path = ''/root/workspace/model-inference-server/demo/model_repo/demo'';
          config_content = ReadFileText B test_config_path
      in case parse config_content of
           None \<Rightarrow> Exits (-1) [''Fail pase model config '' @ test_config_path]
         | Some model_config \<Rightarrow>
             (case DemoBackendFactory_CreateBackend cfg model_name model_version path model_config of
                (st, backend) \<Rightarrow>
                  if st \<noteq> Success then Exits (-1) [''create backend failed'']
                  else case backend of
                    None \<Rightarrow> Breaks
                  | Some b \<Rightarrow>
                      (case InferencePayload model_name model_version []
                              (Some (irq_meta_data empty_infer_request)) () of
                         Inl e \<Rightarrow> Breaks
                       | Inr _ \<Rightarrow>
                           (case ModelBackend_Run DemoContext_Run 0 ([] :: unit payload list) b of
                              (Undefined, _) \<Rightarrow> Breaks
                            | (Returned st', _) \<Rightarrow>
                                Exits 0 (if st' \<noteq> Success then [''backend run failed''] else [])))))"

text \<open>
  What the test can tell: a missing or unreadable configuration, and one that gives no
  backend. A backend without contexts makes it read past the vector.
\<close>

lemma demo_backend_test_end:
  "demo_backend_test B parse =
     (case parse (ReadFileText B test_config_path) of
        None \<Rightarrow> Exits (-1) [''Fail pase model config '' @ test_config_path]
      | Some c \<Rightarrow>
          if \<not> config_ok c then Exits (-1) [''create backend failed'']
          else if sum_list (map (\<lambda>g. nat (sint (grp_count g))) (mc_instance_group c)) = 0 then Breaks
          else Exits 0 [])"
proof (cases "parse (ReadFileText B test_config_path)")
  case None
  then show ?thesis
    by (simp add: demo_backend_test_def)
next
  case (Some c)
  let ?b = "DemoBackend (test_server_config ''/root/models/'' 0) ''demo'' 0
      ''/root/workspace/model-inference-server/demo/model_repo/demo'' c"
  show ?thesis
  proof (cases ?b)
    case (Inl e)
    then have "\<not> config_ok c"
      using DemoBackend_Inr by (metis Inl_Inr_False)
    then show ?thesis
      using Inl Some by (simp add: demo_backend_test_def DemoBackendFactory_CreateBackend_def)
  next
    case (Inr b)
    then have "config_ok c"
      using DemoBackend_Inr by blast
    then show ?thesis
      using Inr Some length_contexts [OF Inr, THEN arg_cong, of "\<lambda>k. k = 0"]
      by (simp add: demo_backend_test_def DemoBackendFactory_CreateBackend_def InferencePayload_def
          ModelBackend_Run_def Let_def DemoContext_Run_def)
  qed
qed

section \<open>The test of the manager\<close>

text \<open>
  The turns are the repository as the update loop finds it in the minute the test sleeps; the
  manager is destroyed at the end of \<open>main\<close>. \<open>None\<close>: the null pointer of a creation that failed
  is used. \<open>Inl\<close>: an exception ends the process.
\<close>

definition model_manager_test ::
  "boost_fs \<Rightarrow> (string \<Rightarrow> model_config option) \<Rightarrow> boost_fs list \<Rightarrow> (exn + (int \<times> core_manager)) option" where
  "model_manager_test B parse turns =
     (let cfg = test_server_config ''/root/workspace/model-inference-server/demo/model_repo/'' 10
      in case ModelManager_Create B parse (Some cfg) of
           Inl e \<Rightarrow> Some (Inl e)
         | Inr (_, None) \<Rightarrow> None
         | Inr (_, Some mm) \<Rightarrow>
             (case UploadLoop parse (map (\<lambda>B'. (B', True)) turns) mm of
                Inl e \<Rightarrow> Some (Inl e)
              | Inr mm' \<Rightarrow> Some (Inr (0, ModelManager_destroy (snd (ModelManager_Stop mm'))))))"

lemma model_manager_test_end:
  "model_manager_test B parse turns \<noteq> None \<and>
   (model_manager_test B parse turns = Some (Inr (code, mm)) \<longrightarrow>
      code = 0 \<and> mm_heap mm a = None \<and> mm_model_map mm = [] \<and> \<not> mm_running mm)"
proof -
  let ?cfg = "test_server_config ''/root/workspace/model-inference-server/demo/model_repo/'' 10"
  show ?thesis
  proof (cases "ModelManager B parse ?cfg :: exn + core_manager")
    case (Inl e)
    then show ?thesis
      by (simp add: model_manager_test_def ModelManager_Create_def)
  next
    case (Inr mm1)
    have wf: "manager_wf mm1"
      using ModelManager_idle [OF Inr] by (simp add: idle_manager_def)
    show ?thesis
    proof (cases "UploadLoop parse (map (\<lambda>B'. (B', True)) turns) mm1")
      case loop: (Inl e)
      then show ?thesis
        by (simp add: model_manager_test_def ModelManager_Create_def Inr)
    next
      case loop: (Inr mm2)
      then show ?thesis
        using Stop_frees_all [OF UploadLoop_wf [OF wf loop], of a] stopped_manager [of mm2]
        by (auto simp: model_manager_test_def ModelManager_Create_def Inr stopped_manager_destroyed)
    qed
  qed
qed

end
