(* ===== verification/Spec2Isabelle.thy ===== *)
theory Spec2Isabelle
  imports Demo_Process Timer Test_Programs
begin

text \<open>
  The inference server of this repository: a gRPC service that serves the models of a
  directory. This development models its C++ code under \<open>src/src\<close> and proves what holds of the
  running server. Paths below are relative to \<open>src/src\<close>.

  \<^bold>\<open>The parts and how they interact.\<close> \<open>main\<close> loads a configuration, creates an \<open>InferenceCore\<close> and
  waits for a signal. The core owns a \<open>ModelManager\<close>, which keeps per model a scheduler and a
  backend and reconciles them with the repository in passes, and a \<open>GrpcServer\<close> with three
  handlers, one event loop thread each. A call for inference arrives as an event, becomes a
  payload, and is pushed to the blocking queue of the model's scheduler; a runner thread of
  the scheduler pops it, calls the backend through a bound function, and runs the completion
  callback, which fills the response and answers the call. Status and health calls are
  answered by the event loop.

  \<^bold>\<open>Theories.\<close>
  \<^item> \<open>Prelude\<close>: word types, lemmas on lists, multisets and words, the collections of rewrite
    rules. \<open>Cxx_Std\<close>: the parts of the C++ library the code uses: C strings, \<open>to_string\<close>,
    \<open>stoll\<close>, and \<open>unordered_map\<close> as an association list under the locale \<open>kv_map\<close>.
  \<^item> \<open>Status_Codes\<close>, \<open>Basic_Data\<close>, \<open>Service_Config\<close>: \<open>core/status.h\<close>, \<open>core/basic_data.h\<close> with
    \<open>core/constants.h\<close>, \<open>core/service_config.cc\<close>.
  \<^item> \<open>File_System\<close>: \<open>utils/file_system\<close>, with the locale \<open>file_store\<close> for the interface.
  \<^item> \<open>Proto_Messages\<close>: the messages of \<open>proto\<close> that the code touches, as records.
  \<^item> \<open>Inference_Payload\<close>, \<open>Grpc_Context\<close>: \<open>core/inference_payload.cc\<close>,
    \<open>core/server/grpc_infer_request_context.cc\<close>.
  \<^item> \<open>Blocking_Queue\<close>, \<open>Queue_Monitor\<close>: \<open>BlockingQueue\<close> of \<open>core/scheduler/simple_scheduler.h\<close>, as
    operations on one value under the locale \<open>fifo_queue\<close>, and as threads with condition
    variables, notifications and spurious wake-ups.
  \<^item> \<open>Simple_Scheduler\<close>, \<open>Scheduler_System\<close>: \<open>core/scheduler/simple_scheduler.cc\<close>, operation by
    operation with the runner loop as a program counter (locale \<open>scheduler_iface\<close>), and every
    interleaving of runners, callers, updates and one stop.
  \<^item> \<open>Model_Backend\<close>: \<open>core/backend\<close>. \<open>Model_Manager\<close>, \<open>Model_Reconcile\<close>: \<open>core/model_manager\<close>,
    with backends on a heap so that a freed backend is visible, and what a pass does.
  \<^item> \<open>Rpc_Handler\<close>, \<open>Rpc_Progress\<close>: the template \<open>Handler\<close> of \<open>core/server/grpc_server.cc\<close> as steps
    on a completion queue. The locale \<open>handler_action\<close> is what the virtual \<open>TakeAction\<close> must
    keep, \<open>handler_sync\<close> the stronger contract of a handler that answers at once.
  \<^item> \<open>Inference_Core\<close>: \<open>GrpcServer\<close>, \<open>InferenceCore\<close> and the three \<open>TakeAction\<close> methods, which
    interpret the two locales.
  \<^item> \<open>Server_System\<close>, \<open>Server_Progress\<close>: the infer handler, gRPC, the runners of all models and
    the heap as one step relation; its invariant and its progress. \<open>Repository_Update\<close>: what
    one update or deletion does to a running server. \<open>Core_System\<close>: all three handlers, the
    runners and a thread in \<open>InferenceCore::Stop\<close>; it refines the system of \<open>Server_System\<close>.
  \<^item> \<open>Live_Update\<close>: the system of \<open>Server_System\<close> with the update thread, whose passes are cut
    into sections (scan, add, swap, release, erase, destroy). \<open>Live_Invariant\<close>: where the calls
    are; \<open>Live_Isolation\<close>: which backends a runner can be in; \<open>Live_Progress\<close>: that deletions
    end and that an undisturbed pass is \<open>LoadModels\<close> of \<open>Model_Manager\<close>.
  \<^item> \<open>Update_Threads\<close>: the update thread around its passes and a thread in \<open>ModelManager::Stop\<close>,
    with the mutex \<open>cond_mu_\<close>, the condition variable and the flag \<open>running_\<close>.
  \<^item> \<open>Timer\<close>: \<open>utils/timer/timer.h\<close>, with the error of its conversions through \<open>double\<close>.
  \<^item> \<open>Main_Process\<close>: \<open>core/main.cc\<close>. \<open>Process_System\<close>: the main thread, its signals and the
    service of \<open>Core_System\<close> in one step relation. \<open>Infer_Client\<close>: \<open>clients\<close>. \<open>Test_Programs\<close>: \<open>core/tests\<close>, and
    the destructors.
  \<^item> \<open>Demo_Repository\<close>, \<open>Demo_Core\<close>, \<open>Demo_Live\<close>, \<open>Demo_Process\<close>: one concrete repository and concrete runs, on
    which the properties are instantiated.

  \<^bold>\<open>What is shown.\<close> C1 to C4: while the repository is not updated, in every reachable state each
  inference call is in exactly one place, nothing freed is used and no call is answered twice,
  and the runners bring every accepted call to its answer. C5 to C9: the same accounting while
  the update thread works, how far the damage of an update goes, what a deletion loses, and
  that a pass in sections implements the pass in one step. C10 to C12: updates under load and
  a missing configuration section, where the code does not do what it means to. C13 to C20:
  the end of the process, which a signal can always bring about and which answers the calls it
  found; the parts of the stop, each of which returns and is safe in the order the code uses;
  and the status and health calls. C21 to C25: a pass over the repository implements the
  specification \<open>reconcile\<close>, the threads of the manager implement its loop, and the loop keeps
  the ownership of backends. C26 to C31: the scheduler, its timed wait and its queue. C32 to
  C36: payloads, and what a backend writes is what a client reads, and the other way round.
  C37 and C38: backends. C39: the status call. C40: a signal that is missed.

  \<^bold>\<open>Arguments of the model\<close>, which stand for code that is not in the repository: \<open>yaml_api\<close> for
  yaml-cpp, \<open>boost_fs\<close> for boost filesystem and file streams, \<open>parse\<close> for the text format
  of protobuf, \<open>bind_port\<close> for the outcome of binding an address, \<open>rpc\<close> and \<open>stub\<close> for a
  client's channel.
  Of gRPC the step relations use what its documentation promises: a requested call arrives
  or is cancelled once the server shuts down, each \<open>Finish\<close> gives one event,
  \<open>Server::Shutdown\<close> returns when every call has been answered, and a queue that is shut
  down ends the loop when it is empty. Memory is read through lists of the bytes that are
  there; what C++ leaves undefined is a result of its own (\<open>Undefined\<close>, \<open>Dangling\<close>,
  \<open>Out_of_bounds\<close>), an exception that nobody catches is \<open>Aborts\<close> or \<open>Inl\<close>.

  \<^bold>\<open>Atomicity.\<close> A step is the code between two points where another thread can interfere: a
  section under a mutex, one access to an atomic flag, one call. \<open>Server_System\<close> has no
  update thread, nor have \<open>Core_System\<close> and \<open>Process_System\<close>; \<open>Live_Update\<close> adds it, and follows
  a deleted model through its destruction. In \<open>Update_Threads\<close> a pass is one step, since \<open>Stop\<close>
  does not touch the map before it has joined the thread. A
  step that uses freed memory is not taken: the relations stop where C++ gives no meaning,
  and C6 says which steps these are. The test and the assignment of
  \<open>signalHandler\<close> are one step. \<open>Handler::Start\<close> and \<open>Handler::Stop\<close> have no return statement;
  the model lets them return.

  \<^bold>\<open>Termination.\<close> No definition uses fuel. \<open>UploadLoop\<close> is given the repository at each of its
  turns; the runner loop and the event loops are step relations, and that they come to rest
  is proved with the measures \<open>server_wait\<close>, \<open>sched_rank\<close>, \<open>stop_left\<close> and the length of the queue.

  \<^bold>\<open>Not modelled.\<close> Of \<open>clients/infer_rpc_client.h\<close>, which does not compile, all but the call; command
  line flags and the texts of log messages; generated protobuf and gRPC code; message fields no
  code reads. The clock of \<open>Timer\<close> is an argument, and the scheduler's steps take the milliseconds it
  shows as given.
\<close>

section \<open>The running server\<close>

text \<open>
  C1. Every inference call is accounted for. In every reachable state of the server, a call
  the event loop handed over is in exactly one queue or runner, once; a call that is not in
  progress is in none; no call is answered twice; and a call whose state was freed was
  answered, unless the server is shutting down.
\<close>

theorem infer_calls_accounted:
  assumes "server_reachable B parse cfg (mm, h)"
  shows "count (image_mset pl_on_infer_completed_func (map_work (mm_model_map mm))) t =
      (if step_of h t = Some PROCESS then 1 else 0) \<and>
    distinct (answered h) \<and>
    (\<forall>u < h_next h. step_of h u = None \<longrightarrow> u \<in> set (answered h) \<or> srv_shut h)"
  using server_reachable_ok [OF assms]
  by (simp add: server_ok_def handler_ok_def answers_ok_def)

theorem infer_calls_accounted_witness:
  "count (image_mset pl_on_infer_completed_func (map_work (mm_model_map (fst (demo_run 2 4))))) 0 = 1"
proof -
  have "step_of (snd (demo_run 2 4)) 0 = Some PROCESS"
    by code_simp
  then show ?thesis
    using infer_calls_accounted [of demo_fs "demo_parse 2" "demo_server_config 4"
        "fst (demo_run 2 4)" "snd (demo_run 2 4)" 0] demo_run_reachable [of 2] by simp
qed

text \<open>
  C2. While the repository is not updated, no thread uses freed memory and no exception
  leaves a runner: a runner's step never dereferences a freed backend or call state, never
  indexes past the contexts of the backend, and never throws; and an event of the queue
  never carries the tag of a freed call state.
\<close>

theorem server_memory_safe:
  assumes "server_reachable B parse cfg (mm, h)"
  shows "model_runner n i (mm, h) \<noteq> Dangling \<and> model_runner n i (mm, h) \<noteq> Aborts e \<and>
    (cq_events h = (t, ok) # es \<longrightarrow>
      Process Infer_TakeAction t ok (mm, h\<lparr>cq_events := es\<rparr>) \<noteq> Dangling)"
proof -
  note ok = server_reachable_ok [OF assms]
  have "Process Infer_TakeAction t ok (mm, h\<lparr>cq_events := es\<rparr>) \<noteq> Dangling"
    if "cq_events h = (t, ok) # es"
    using infer_h.process_live [OF _ that] ok by (simp add: server_ok_def)
  then show ?thesis
    using model_runner_ok [OF ok, of n i] by auto
qed

theorem server_memory_safe_witness:
  "model_runner ''demo'' 0 (demo_run 4 4) \<noteq> Dangling \<and>
   Process Infer_TakeAction 0 True (fst (demo_arrived 4), snd (demo_arrived 4)\<lparr>cq_events := []\<rparr>) \<noteq> Dangling"
proof
  show "model_runner ''demo'' 0 (demo_run 4 4) \<noteq> Dangling"
    using server_memory_safe [of demo_fs "demo_parse 2" "demo_server_config 4"
        "fst (demo_run 4 4)" "snd (demo_run 4 4)"] demo_run_reachable [of 4] by simp
  have "cq_events (snd (demo_arrived 4)) = [(0, True)]"
    by code_simp
  then show "Process Infer_TakeAction 0 True
      (fst (demo_arrived 4), snd (demo_arrived 4)\<lparr>cq_events := []\<rparr>) \<noteq> Dangling"
    using server_memory_safe [of demo_fs "demo_parse 2" "demo_server_config 4"
        "fst (demo_arrived 4)" "snd (demo_arrived 4)"] request_arrived_reachable [OF demo_manager_eq(1)]
    by simp
qed

text \<open>
  C3. Every accepted call is answered. From any reachable state in which every served model
  has a runner, the runners alone can finish: no payload is left, and every call that was
  in progress has been answered.
\<close>

theorem accepted_calls_are_answered:
  assumes "server_reachable B parse cfg (mm, h)" "has_runners mm"
  shows "\<exists>mm' h'. runner_moves\<^sup>*\<^sup>* (mm, h) (mm', h') \<and> map_work (mm_model_map mm') = {#} \<and>
    (\<forall>t. step_of h t = Some PROCESS \<longrightarrow> step_of h' t = Some FINISH \<and> t \<in> set (answered h'))"
proof -
  from runners_finish [OF server_reachable_ok [OF assms(1)]] assms(2) obtain sh' where
    sh': "runner_moves\<^sup>*\<^sup>* (mm, h) sh'" "map_work (mm_model_map (fst sh')) = {#}" "server_ok sh'"
    "\<forall>t. step_of h t = Some PROCESS \<longrightarrow> step_of (snd sh') t = Some FINISH"
    by auto
  have "\<forall>t. step_of (snd sh') t = Some FINISH \<longrightarrow> t \<in> set (answered (snd sh'))"
    using sh'(3) by (cases sh') (simp add: server_ok_def handler_ok_def answers_ok_def)
  then show ?thesis
    using sh' by (intro exI [of _ "fst sh'"] exI [of _ "snd sh'"]) simp
qed

theorem accepted_calls_are_answered_witness:
  "\<exists>mm' h'. runner_moves\<^sup>*\<^sup>* (demo_run 0 4) (mm', h') \<and> 0 \<in> set (answered h')"
proof -
  have "has_runners (fst (demo_run 0 4))" "step_of (snd (demo_run 0 4)) 0 = Some PROCESS"
    unfolding has_runners_def by code_simp+
  then show ?thesis
    using accepted_calls_are_answered [of demo_fs "demo_parse 2" "demo_server_config 4"
        "fst (demo_run 0 4)" "snd (demo_run 0 4)"] demo_run_reachable [of 0] by auto
qed



section \<open>Updates while requests run\<close>

text \<open>
  C5. Every inference call is accounted for while the repository is updated, too. Wherever the
  update thread is in a pass, a call the event loop handed over is exactly once in a queue or
  runner of a served model, in the scheduler of a model being destroyed, or lost with one; no
  call is answered twice; and a call whose state was freed was answered, unless the server is
  shutting down.
\<close>

theorem live_calls_accounted:
  assumes "live_reachable B parse cfg l"
  shows "count (image_mset payload_tag (live_work l)) t =
      (if step_of (snd (lv_server l)) t = Some PROCESS then 1 else 0) \<and>
    distinct (answered (snd (lv_server l))) \<and>
    (\<forall>u < h_next (snd (lv_server l)). step_of (snd (lv_server l)) u = None \<longrightarrow>
      u \<in> set (answered (snd (lv_server l))) \<or> srv_shut (snd (lv_server l)))"
  using live_reachable_ok [OF assms]
  by (simp add: live_ok_def work_ok_def handler_ok_def answers_ok_def split_beta)

theorem live_calls_accounted_witness: "count (image_mset payload_tag (live_work demo_scanned)) 0 = 1"
proof -
  have "step_of (snd (lv_server demo_scanned)) 0 = Some PROCESS"
    by code_simp
  then show ?thesis
    using live_calls_accounted [OF demo_scanned_reaches, of 0] by simp
qed



text \<open>
  C7. A call that was lost with its model keeps the server from stopping: in no later state is
  it answered, and gRPC's shutdown, which waits for every call, does not end.
\<close>

theorem lost_call_blocks_shutdown:
  assumes "live_reachable B parse cfg l" "p \<in># lv_lost l" "(live_step parse)\<^sup>*\<^sup>* l l'"
  shows "step_of (snd (lv_server l')) (payload_tag p) = Some PROCESS \<and>
    payload_tag p \<notin> set (answered (snd (lv_server l'))) \<and> \<not> cq_shut (snd (lv_server l'))"
proof -
  have "live_ok l'"
    using live_reachable_ok [OF live_reachable_steps [OF assms(3,1)]] .
  moreover have "p \<in># lv_lost l'"
    using live_steps_lost_mono [OF assms(3)] assms(2) by (rule mset_subset_eqD)
  ultimately show ?thesis
    using lost_in_progress [of l' p "fst (lv_server l')" "snd (lv_server l')"] by simp
qed

theorem lost_call_blocks_shutdown_witness:
  "\<exists>l. demo_live_reachable l \<and> \<not> cq_shut (snd (lv_server l)) \<and> 0 \<notin> set (answered (snd (lv_server l)))"
proof -
  obtain l where l: "demo_live_reachable l" "image_mset payload_tag (lv_lost l) = {#0#}"
    using demo_lost by blast
  from l(2) obtain p where "p \<in># lv_lost l" "payload_tag p = 0"
    by (auto dest!: msed_map_invR)
  from lost_call_blocks_shutdown [OF l(1) this(1) rtranclp.rtrancl_refl] this(2) l(1) show ?thesis
    by auto
qed

text \<open>
  C8. Deleting a model ends, and loses what waits in its queue: from a state in which no runner
  of the model is in a call, the erased context can be destroyed to its end (the flag is
  lowered, the queue broken, the runners joined); the manager is then the one of the deletion
  in one step, and the lost payloads are exactly those that were in the queue, none of which a
  runner gets any more when none of them held a payload before.
\<close>

theorem deletion_loses_what_waits:
  assumes "live_reachable B parse cfg l" "lv_server l = (mm, h)" "lv_hand l = Empty_Handed"
    "lv_added l = []" "lv_updated l = []" "lv_deleted l = n # deleted"
    "um_find (mm_model_map mm) n = Some ctx" "quiet (rc_scheduler ctx)"
  shows "\<exists>h'. (live_step parse)\<^sup>*\<^sup>* l (l\<lparr>lv_server := (delete_model n mm, h'), lv_deleted := deleted,
      lv_lost := lv_lost l + mset (bq_buffer (sc_queue (rc_scheduler ctx)))\<rparr>) \<and>
    (handled (rc_scheduler ctx) = {#} \<longrightarrow> h' = h)"
  by (rule deletion_runs [OF live_reachable_ok [OF assms(1)] assms(2-)])

theorem deletion_loses_what_waits_witness:
  "\<exists>h'. (live_step (demo_parse 2))\<^sup>*\<^sup>* demo_scanned
     (demo_scanned\<lparr>lv_server := (delete_model ''demo'' (fst demo_taken), h'), lv_deleted := [],
        lv_lost := mset (bq_buffer (sc_queue (rc_scheduler demo_context)))\<rparr>)"
proof -
  have "lv_server demo_scanned = (fst demo_taken, snd demo_taken)"
    by (simp add: demo_scanned_def demo_live_def)
  from deletion_loses_what_waits [OF demo_scanned_reaches this _ _ _ _ demo_context_facts(1,2), of "[]"]
  show ?thesis
    by (auto simp: demo_scanned_def demo_live_facts)
qed

text \<open>
  C9. A pass over the repository in its sections implements the pass in one step: when no call
  is in progress, the update thread can go through the sections of a pass, among the steps of
  everybody else, and leave the manager that \<open>LoadModels\<close> computes at once.
\<close>

theorem update_pass_refines:
  assumes "live_reachable B parse cfg l" "lv_server l = (mm, h)" "lv_hand l = Empty_Handed"
    "lv_added l = []" "lv_updated l = []" "lv_deleted l = []" "mm_update_thread mm" "mm_running mm"
    "map_work (mm_model_map mm) = {#}" "LoadModels B' parse mm = Inr mm'"
  shows "(live_step parse)\<^sup>*\<^sup>* l (l\<lparr>lv_server := (mm', h)\<rparr>)"
  by (rule pass_is_LoadModels [OF live_reachable_ok [OF assms(1)] assms(2-)])

theorem update_pass_refines_witness:
  "\<exists>mm'. (live_step (demo_parse 2))\<^sup>*\<^sup>* (live_start demo_live_manager)
      ((live_start demo_live_manager)\<lparr>lv_server := (mm', new_infer_handler)\<rparr>) \<and>
     um_keys (mm_model_map mm') = []"
proof -
  have "case LoadModels empty_fs (demo_parse 2) demo_live_manager of
      Inr mm' \<Rightarrow> um_keys (mm_model_map mm') = [] | Inl e \<Rightarrow> False"
    by code_simp
  then obtain mm' where mm': "LoadModels empty_fs (demo_parse 2) demo_live_manager = Inr mm'"
    "um_keys (mm_model_map mm') = []"
    by (auto split: sum.splits)
  have run: "mm_update_thread demo_live_manager" "mm_running demo_live_manager"
    by code_simp+
  have "map_work (mm_model_map demo_live_manager) = {#}"
    using ModelManager_idle [OF demo_live_manager_eq] by (simp add: idle_manager_def)
  from update_pass_refines [OF live_reachable.start [OF demo_live_manager_eq] _ _ _ _ _ run this mm'(1)]
  have "(live_step (demo_parse 2))\<^sup>*\<^sup>* (live_start demo_live_manager)
      ((live_start demo_live_manager)\<lparr>lv_server := (mm', new_infer_handler)\<rparr>)"
    by (simp add: live_start_def)
  then show ?thesis
    using mm'(2) by blast
qed

text \<open>
  C10. An update does not wait for the runners: when a runner of the model is in a call
  while a new version is loaded, the manager frees the backend the call is in, and the
  runner's next step uses freed memory.
\<close>

theorem update_frees_backend_in_use:
  assumes "server_reachable B parse cfg (mm, h)" "um_find (mm_model_map mm) n = Some ctx"
    "i < length (sc_threads (rc_scheduler ctx))"
    "snd (sc_threads (rc_scheduler ctx) ! i) = In_Call p a"
    "loadable B' parse' (mm_server_cfg mm) n"
  shows "model_runner n i (update_model B' parse' (n, v) mm, h) = Dangling"
proof -
  have "a = bi_backend (rc_backend_info ctx)"
    using reachable_call_owned [OF assms(1,2) nth_mem [OF assms(3)]] assms(4) by blast
  then show ?thesis
    using update_frees_running_backend [OF _ assms(2,5,3)] server_reachable_wf [OF assms(1)] assms(4)
    by simp
qed

theorem update_frees_backend_in_use_witness:
  "model_runner ''demo'' 0 (update_model demo_fs (demo_parse 2) (''demo'', 4) (fst (demo_run 4 4)),
     snd (demo_run 4 4)) = Dangling"
proof -
  have "case um_find (mm_model_map (fst (demo_run 4 4))) ''demo'' of
      None \<Rightarrow> False
    | Some ctx \<Rightarrow> 0 < length (sc_threads (rc_scheduler ctx)) \<and>
        (case snd (sc_threads (rc_scheduler ctx) ! 0) of In_Call p a \<Rightarrow> True | _ \<Rightarrow> False)"
    by code_simp
  then obtain ctx p a where c: "um_find (mm_model_map (fst (demo_run 4 4))) ''demo'' = Some ctx"
    "0 < length (sc_threads (rc_scheduler ctx))" "snd (sc_threads (rc_scheduler ctx) ! 0) = In_Call p a"
    by (auto split: option.splits runner_pc.splits)
  have "loadable demo_fs (demo_parse 2) (mm_server_cfg (fst (demo_run 4 4))) ''demo''"
    by code_simp
  then show ?thesis
    using update_frees_backend_in_use [of demo_fs "demo_parse 2" "demo_server_config 4"
        "fst (demo_run 4 4)" "snd (demo_run 4 4)", OF _ c] demo_run_reachable [of 4] by simp
qed

text \<open>
  C11. An update does not change the number of runners: when the new version has fewer
  instances, the runner whose index is the new number of contexts gets through the index
  test of \<open>ModelBackend::Run\<close> and reads past the vector.
\<close>

theorem update_to_fewer_instances_overruns:
  assumes "server_reachable B parse cfg (mm, h)" "um_find (mm_model_map mm) n = Some ctx"
    "i < length (sc_threads (rc_scheduler ctx))"
    "sc_threads (rc_scheduler ctx) ! i = (idx, Copied p f)"
    "loadable B' parse' (mm_server_cfg mm) n"
    "read_config B' parse' (mm_server_cfg mm) n = Some config"
    "0 \<le> sint idx"
    "nat (sint idx) = sum_list (map (\<lambda>g. nat (sint (grp_count g))) (mc_instance_group config))"
  shows "\<exists>sh. model_runner n i (update_model B' parse' (n, v) mm, h) = Returns sh \<and>
     model_runner n i sh = Dangling"
  using update_fewer_instances [OF _ assms(2,5,3,4,6,7,8)] server_reachable_wf [OF assms(1)] by simp

theorem update_to_fewer_instances_overruns_witness:
  "\<exists>sh. model_runner ''demo'' 0 (update_model demo_fs (demo_parse 0) (''demo'', 4) (fst (demo_run 3 4)),
     snd (demo_run 3 4)) = Returns sh \<and> model_runner ''demo'' 0 sh = Dangling"
proof -
  have "case um_find (mm_model_map (fst (demo_run 3 4))) ''demo'' of
      None \<Rightarrow> False
    | Some ctx \<Rightarrow> 0 < length (sc_threads (rc_scheduler ctx)) \<and>
        fst (sc_threads (rc_scheduler ctx) ! 0) = 0 \<and>
        (case snd (sc_threads (rc_scheduler ctx) ! 0) of Copied p a \<Rightarrow> True | _ \<Rightarrow> False)"
    by code_simp
  then obtain ctx p a where c: "um_find (mm_model_map (fst (demo_run 3 4))) ''demo'' = Some ctx"
    "0 < length (sc_threads (rc_scheduler ctx))" "sc_threads (rc_scheduler ctx) ! 0 = (0, Copied p a)"
    by (auto simp: prod_eq_iff split: option.splits runner_pc.splits)
  have l: "loadable demo_fs (demo_parse 0) (mm_server_cfg (fst (demo_run 3 4))) ''demo''"
    "read_config demo_fs (demo_parse 0) (mm_server_cfg (fst (demo_run 3 4))) ''demo'' = Some (demo_config 0)"
    by code_simp+
  show ?thesis
    using update_to_fewer_instances_overruns [of demo_fs "demo_parse 2" "demo_server_config 4"
        "fst (demo_run 3 4)" "snd (demo_run 3 4)", OF _ c l] demo_run_reachable [of 3]
    by (simp add: demo_config_def)
qed

text \<open>
  C12. A configuration file without a \<open>scheduler\<close> section gives queues of size 0: the event
  loop of the infer handler blocks, with the mutex of the model map, at the first call for
  a served model.
\<close>

theorem no_scheduler_section_blocks:
  assumes "LoadServerConfig Y file = Some cfg" "LoadFile Y file = Some node"
    "yget Y node ''scheduler'' = Some sn" "\<not> ydefined Y sn"
    "server_reachable B parse cfg (mm, h)"
    "cq_events h = (t, True) # es" "h_states h t = Some st" "hs_step st = START"
    "irq_model_name (hs_request st) \<in> set (um_keys (mm_model_map mm))"
  shows "Process Infer_TakeAction t True (mm, h\<lparr>cq_events := es\<rparr>) = Blocks"
proof -
  from LoadServerConfig_Some [OF assms(1)] obtain node' sn' where
    "LoadFile Y file = Some node'" "yget Y node' ''scheduler'' = Some sn'"
    "load_scheduler Y sn' (scheduler_cfg zero_server_config) = Some (scheduler_cfg cfg)"
    by metis
  then have "scheduler_cfg cfg = scheduler_cfg zero_server_config"
    using assms(2-4) load_scheduler_Some(1) by simp
  then have "max_queue_size (scheduler_cfg cfg) = 0"
    by (simp add: zero_server_config_def)
  then show ?thesis
    using zero_queue_blocks [OF assms(5) _ assms(6-9)] by simp
qed

theorem no_scheduler_section_blocks_witness:
  "Process Infer_TakeAction 0 True (fst (demo_arrived 0), snd (demo_arrived 0)\<lparr>cq_events := []\<rparr>) = Blocks"
proof -
  have "case h_states (snd (demo_arrived 0)) 0 of
      None \<Rightarrow> False
    | Some st \<Rightarrow> hs_step st = START \<and> irq_model_name (hs_request st) = ''demo''"
    "cq_events (snd (demo_arrived 0)) = [(0, True)]"
    "um_keys (mm_model_map (fst (demo_arrived 0))) = [''demo'']"
    by code_simp+
  moreover from this(1) obtain st where "h_states (snd (demo_arrived 0)) 0 = Some st"
    "hs_step st = START" "irq_model_name (hs_request st) = ''demo''"
    by (auto split: option.splits)
  moreover have "LoadFile demo_yaml ''server.yaml'' = Some ''root''"
    "yget demo_yaml ''root'' ''scheduler'' = Some ''scheduler''" "\<not> ydefined demo_yaml ''scheduler''"
    by (simp_all add: demo_yaml_def)
  ultimately show ?thesis
    using no_scheduler_section_blocks [OF demo_yaml_config, of "''root''" "''scheduler''" demo_fs
        "demo_parse 2" "fst (demo_arrived 0)" "snd (demo_arrived 0)" 0 "[]"]
      request_arrived_reachable [OF demo_manager_eq(2)] by simp
qed

section \<open>Stopping the server\<close>





text \<open>
  C15. Stopping in the order of \<open>InferenceCore::Stop\<close> is safe: once gRPC has shut the queue of
  the infer handler, every queue is empty and every runner is at its loop test or waits, so
  none of them holds a backend; and stopping the manager then frees every backend.
\<close>

theorem stop_after_calls_is_safe:
  assumes "server_reachable B parse cfg (mm, h)" "cq_shut h"
  shows "(\<forall>(n, ctx) \<in> set (mm_model_map mm). bq_buffer (sc_queue (rc_scheduler ctx)) = [] \<and>
      (\<forall>t \<in> set (sc_threads (rc_scheduler ctx)). snd t = At_Test \<or> snd t = In_Pop)) \<and>
    mm_heap (snd (ModelManager_Stop mm)) a = None"
proof (intro conjI ballI)
  fix e
  assume "e \<in> set (mm_model_map mm)"
  then show "case e of (n, ctx) \<Rightarrow> bq_buffer (sc_queue (rc_scheduler ctx)) = [] \<and>
      (\<forall>t \<in> set (sc_threads (rc_scheduler ctx)). snd t = At_Test \<or> snd t = In_Pop)"
    using stop_runners_idle [OF assms] by (cases e rule: prod.exhaust) simp
next
  show "mm_heap (snd (ModelManager_Stop mm)) a = None"
    using Stop_frees_all server_reachable_wf [OF assms(1)] by simp
qed

theorem stop_after_calls_is_safe_witness:
  "mm_heap (fst demo_stopped) 0 \<noteq> None \<and>
   mm_heap (snd (ModelManager_Stop (fst demo_stopped))) 0 = None"
proof
  show "mm_heap (fst demo_stopped) 0 \<noteq> None"
    by code_simp
  have "cq_shut (snd demo_stopped)"
    by (simp add: demo_stopped_def)
  then show "mm_heap (snd (ModelManager_Stop (fst demo_stopped))) 0 = None"
    using stop_after_calls_is_safe [of demo_fs "demo_parse 2" "demo_server_config 4"
        "fst demo_stopped" "snd demo_stopped"] demo_stopped_reachable by simp
qed

text \<open>
  C16. The event loop adds no work to a completion queue that is shut down, provided it was
  in its loop when the shutdown began: from such a state no sequence of steps, whatever the
  runners do, calls \<open>Request\<close> or \<open>Finish\<close> on the queue after its shutdown. The proviso is
  needed: a server that is stopped between the creation of a handler's thread and its first
  request makes that request on a queue that is shut down.
\<close>

theorem no_work_after_shutdown:
  assumes "handler_reachable Infer_TakeAction cleared sh" "h_thread (snd sh) = Looping"
    "\<not> srv_shut (snd sh)" "(handler_step Infer_TakeAction)\<^sup>*\<^sup>* sh sh'"
  shows "\<not> cq_late (snd sh') \<and> (\<exists>s. handler_reachable Infer_TakeAction cleared s \<and> cq_late (snd s))"
proof
  have ok: "handler_ok (snd sh)"
    using infer_h.reachable_ok [of cleared "fst sh" "snd sh"] assms(1) by simp
  then have "\<not> cq_shut (snd sh)"
    using assms(3) by (auto simp: handler_ok_def shutdown_ok_def)
  then have "\<not> cq_late (snd sh)"
    using infer_h.reachable_late_shut [OF assms(1)] by blast
  then show "\<not> cq_late (snd sh')"
    using infer_h.steps_not_late [OF assms(4) ok] assms(2) by simp
qed (rule start_then_stop_requests_late)

theorem no_work_after_shutdown_witness: "\<not> cq_late (snd demo_stopped)"
proof -
  let ?sh = "(demo_manager 4, StartNewRequest (new_infer_handler\<lparr>h_thread := Looping\<rparr>))"
  note st = demo_stopped_steps [of Infer_TakeAction "demo_manager 4", THEN handler_step.queue]
  have r: "handler_reachable Infer_TakeAction (empty_infer_request, empty_infer_response) ?sh"
    using handler_reachable.step [OF handler_reachable.started st(1) [unfolded new_infer_handler_def]]
    by (simp add: new_infer_handler_def)
  have s: "(handler_step Infer_TakeAction)\<^sup>*\<^sup>* ?sh demo_stopped"
    unfolding demo_stopped_def using st(2,3) by (meson r_into_rtranclp rtranclp.rtrancl_into_rtrancl)
  have "h_thread (snd ?sh) = Looping" "\<not> srv_shut (snd ?sh)"
    by (simp_all add: new_infer_handler_def Handler_Start_def new_handler_def)
  then show ?thesis
    using no_work_after_shutdown [OF r] s by blast
qed

text \<open>
  C17. A queue that is shut down drains: the event loop can run to its end, no call state is
  left on the heap, and joining the thread returns.
\<close>

theorem event_loop_drains:
  assumes "handler_reachable Infer_TakeAction cleared (s, h)" "h_thread h = Looping" "cq_shut h"
  shows "\<exists>h'. (queue_step Infer_TakeAction)\<^sup>*\<^sup>* (s, h) (s, h') \<and> (\<forall>t. h_states h' t = None) \<and>
    Handler_Stop h' = Some (h'\<lparr>h_thread := No_Thread\<rparr>)"
  using infer_h.drains [OF infer_h.reachable_ok [OF assms(1)] assms(3,2), of s]
  by (auto simp: Handler_Stop_def)

theorem event_loop_drains_witness:
  "\<exists>h'. (queue_step Infer_TakeAction)\<^sup>*\<^sup>* demo_stopped (fst demo_stopped, h') \<and>
     Handler_Stop h' \<noteq> None"
proof -
  note st = demo_stopped_steps [of Infer_TakeAction "demo_manager 4", THEN handler_step.queue]
  have "handler_reachable Infer_TakeAction (empty_infer_request, empty_infer_response)
      (demo_manager 4, new_infer_handler)"
    unfolding new_infer_handler_def by (rule handler_reachable.started)
  then have "handler_reachable Infer_TakeAction (empty_infer_request, empty_infer_response) demo_stopped"
    unfolding demo_stopped_def using st by (blast intro: handler_reachable.step)
  moreover have "h_thread (snd demo_stopped) = Looping" "cq_shut (snd demo_stopped)"
    by (simp_all add: demo_stopped_def)
  ultimately show ?thesis
    using event_loop_drains [of "(empty_infer_request, empty_infer_response)" "fst demo_stopped"
        "snd demo_stopped"] by auto
qed



text \<open>
  C19. \<open>ModelManager::Stop\<close> returns. However it meets the update thread, from the moment the
  flag is lowered: as long as \<open>Stop\<close> has not returned one of the two threads can move (unless
  an exception of a pass has ended the update thread, and the process); every step, timeout and
  spurious wake-up makes the rest smaller, and there are at most nine; and while \<open>Stop\<close> joins
  the thread, the thread never sleeps, so a stop does not wait for the update interval.
\<close>

theorem manager_stop_returns:
  assumes "update_reachable parse mm s" "mm_running mm" "us_stop s \<notin> {Stop_Idle, Stop_Over}"
    "us_update s \<notin> range Upd_Died"
  shows "(\<exists>s'. update_step parse s s') \<and>
    (\<forall>s'. update_step parse s s' \<or> update_wake s s' \<longrightarrow> stop_left s' < stop_left s) \<and>
    stop_left s \<le> 9 \<and> (us_stop s = Stop_Joining \<longrightarrow> us_update s \<noteq> Upd_Asleep)"
proof -
  note ok = update_reachable_ok [OF assms(1,2)]
  have "us_stop s = Stop_Joining \<longrightarrow> us_update s \<noteq> Upd_Asleep"
    using ok by (auto simp: update_ok_def)
  then show ?thesis
    using stop_can_move [OF ok assms(3,4)] stop_left_decreases [OF ok] stop_left_bound [of s] assms(3)
    by auto
qed

theorem manager_stop_returns_witness:
  "(\<exists>s'. update_step (demo_parse 2) demo_asleep s') \<and> stop_left demo_asleep \<le> 9"
proof -
  have "us_stop demo_asleep \<notin> {Stop_Idle, Stop_Over}" "us_update demo_asleep \<notin> range Upd_Died"
    by (auto simp: demo_asleep_def)
  from manager_stop_returns [OF demo_asleep_reachable demo_live_manager_runs(2) this] show ?thesis
    by blast
qed



section \<open>The model repository\<close>

text \<open>
  C21. A pass over the repository implements its specification: afterwards each name is
  served at the version the repository asks for. A name that is not listed is not served;
  a listed one is served at its highest version directory if its configuration can be
  read and a backend created, and otherwise stays as it was.
\<close>

theorem repository_pass_reconciles:
  assumes "manager_wf mm" "LoadModels B parse mm = Inr mm'"
    "GetDirectorySubDirs B (model_repo_path (mm_server_cfg mm)) = Some names"
  shows "version_of mm' n = reconcile B parse (mm_server_cfg mm) names (version_of mm) n"
  by (rule LoadModels_version [OF assms])

theorem repository_pass_reconciles_witness:
  "version_of (demo_manager 4) ''demo'' = Some 3 \<and>
   (\<exists>mm'. LoadModels demo_fs (demo_parse 2) (demo_manager 4) = Inr mm' \<and> version_of mm' ''demo'' = Some 3)"
proof
  show v: "version_of (demo_manager 4) ''demo'' = Some 3"
    by code_simp
  have "\<not> isl (LoadModels demo_fs (demo_parse 2) (demo_manager 4))"
    by code_simp
  then obtain mm' where l: "LoadModels demo_fs (demo_parse 2) (demo_manager 4) = Inr mm'"
    by (auto simp: isl_def split: sum.splits intro: sum.exhaust_sel)
  have "GetDirectorySubDirs demo_fs (model_repo_path (mm_server_cfg (demo_manager 4))) = Some [''demo'']"
    "reconcile demo_fs (demo_parse 2) (mm_server_cfg (demo_manager 4)) [''demo'']
       (\<lambda>_. Some 3) ''demo'' = Some 3"
    by code_simp+
  moreover have "manager_wf (demo_manager 4)"
    using ModelManager_idle [OF demo_manager_eq(1)] by (simp add: idle_manager_def)
  ultimately have "version_of mm' ''demo'' = Some 3"
    using repository_pass_reconciles [OF _ l, of "[''demo'']" "''demo''"] v
    by (simp add: reconcile_def split: option.splits if_splits)
  then show "\<exists>mm'. LoadModels demo_fs (demo_parse 2) (demo_manager 4) = Inr mm' \<and>
      version_of mm' ''demo'' = Some 3"
    using l by blast
qed

text \<open>
  C22. The threads of the manager implement its loop. However the update thread and a thread in
  \<open>Stop\<close> interleave, with timeouts and spurious wake-ups, when \<open>Stop\<close> has returned the manager
  is the one that some number of passes and the end of \<open>Stop\<close> lead to: no pass is cut off and
  none comes after it.
\<close>

theorem update_threads_refine_loop:
  assumes "update_reachable parse mm s" "mm_running mm" "us_stop s = Stop_Over"
  shows "us_update s = No_Update_Thread \<and>
    (\<exists>Bs mm'. UploadLoop parse (map (\<lambda>B. (B, True)) Bs) mm = Inr mm' \<and>
      us_manager s = snd (ModelManager_Stop mm'))"
  using update_reachable_ok [OF assms(1,2)] assms(3) by (auto simp: update_ok_def after_passes_def)

theorem update_threads_refine_loop_witness:
  "\<exists>(s :: tag payload update_sys) Bs mm'. us_update s = No_Update_Thread \<and>
    UploadLoop (demo_parse 2) (map (\<lambda>B. (B, True)) Bs) demo_live_manager = Inr mm' \<and>
    us_manager s = snd (ModelManager_Stop mm')"
proof -
  obtain s where "demo_update_reachable s" "us_stop s = Stop_Over"
    using demo_update_stopped by blast
  from update_threads_refine_loop [OF this(1) demo_live_manager_runs(2) this(2)] show ?thesis
    by blast
qed

text \<open>
  C23. However often the repository changes, the manager owns its backends: through all
  turns of the update loop, every served model has a backend of its own name and recorded
  version, its scheduler is bound to that backend, no two models share one, and none leaks.
\<close>

theorem update_loop_keeps_ownership:
  assumes "ModelManager B parse cfg = Inr (mm :: core_manager)" "UploadLoop parse turns mm = Inr mm'"
  shows "distinct (owned (mm_model_map mm')) \<and> dom (mm_heap mm') = set (owned (mm_model_map mm')) \<and>
    (um_find (mm_model_map mm') n = Some ctx \<longrightarrow>
      sc_infer_func (rc_scheduler ctx) = bi_backend (rc_backend_info ctx) \<and>
      (\<exists>b. mm_heap mm' (bi_backend (rc_backend_info ctx)) = Some b \<and> mb_name b = n \<and>
        mb_version b = bi_model_version (rc_backend_info ctx)))"
proof -
  have wf: "manager_wf mm'"
    using UploadLoop_wf [OF _ assms(2)] ModelManager_idle [OF assms(1)] by (simp add: idle_manager_def)
  have "context_ok (mm_heap mm') (n, ctx)" if "um_find (mm_model_map mm') n = Some ctx"
    using manager_wfD(1,2) [OF wf] that um_find_set by metis
  then show ?thesis
    using manager_wfD(3,4) [OF wf] by (auto simp: context_ok_def Let_def)
qed

theorem update_loop_keeps_ownership_witness:
  "\<exists>mm'. UploadLoop (demo_parse 2) [(demo_fs, True), (demo_fs, False)] (demo_manager 4) = Inr mm' \<and>
     dom (mm_heap mm') = set (owned (mm_model_map mm'))"
proof -
  have "\<not> isl (UploadLoop (demo_parse 2) [(demo_fs, True), (demo_fs, False)] (demo_manager 4))"
    by code_simp
  then obtain mm' where "UploadLoop (demo_parse 2) [(demo_fs, True), (demo_fs, False)] (demo_manager 4) = Inr mm'"
    by (metis isl_def sum.exhaust)
  then show ?thesis
    using update_loop_keeps_ownership [OF demo_manager_eq(1)] by blast
qed

text \<open>
  C24. The update loop converges: as long as the repository stays as it is, a second pass
  changes the version of no model.
\<close>

theorem second_pass_changes_nothing:
  assumes "manager_wf mm" "LoadModels B parse mm = Inr mm1" "LoadModels B parse mm1 = Inr mm2"
  shows "version_of mm2 n = version_of mm1 n"
proof -
  have cfg: "mm_server_cfg mm1 = mm_server_cfg mm"
    by (rule LoadModels_cfg [OF assms(2)])
  from LoadModels_listed [OF assms(2)] obtain names where
    names: "GetDirectorySubDirs B (model_repo_path (mm_server_cfg mm)) = Some names"
    by metis
  have one: "version_of mm1 n = reconcile B parse (mm_server_cfg mm) names (version_of mm) n" for n
    by (rule LoadModels_version [OF assms(1,2) names])
  have "version_of mm2 n = reconcile B parse (mm_server_cfg mm) names (version_of mm1) n"
    using LoadModels_version [OF LoadModels_wf_aux [OF assms(1,2)] assms(3), of names n] names cfg by simp
  then show ?thesis
    unfolding one using reconcile_idem by (simp add: reconcile_def one split: option.split)
qed

theorem second_pass_changes_nothing_witness:
  "\<exists>mm1 mm2. LoadModels demo_fs (demo_parse 2) (demo_manager 4) = Inr mm1 \<and>
     LoadModels demo_fs (demo_parse 2) mm1 = Inr mm2 \<and> version_of mm2 ''demo'' = version_of mm1 ''demo''"
proof -
  have "case LoadModels demo_fs (demo_parse 2) (demo_manager 4) of
      Inl _ \<Rightarrow> False | Inr mm1 \<Rightarrow> \<not> isl (LoadModels demo_fs (demo_parse 2) mm1)"
    by code_simp
  then obtain mm1 mm2 where l: "LoadModels demo_fs (demo_parse 2) (demo_manager 4) = Inr mm1"
    "LoadModels demo_fs (demo_parse 2) mm1 = Inr mm2"
    by (metis (no_types, lifting) isl_def sum.case(1) sum.case(2) sum.exhaust)
  have "manager_wf (demo_manager 4)"
    using ModelManager_idle [OF demo_manager_eq(1)] by (simp add: idle_manager_def)
  from second_pass_changes_nothing [OF this l] show ?thesis
    using l by blast
qed

text \<open>
  C25. The version of a model is the highest number among its directories: of those whose
  name reads as an integer, the largest, and -1 when there is none above it.
\<close>

theorem highest_version_is_max:
  assumes "GetHighestVersion B cfg name = Inr v"
    "GetDirectorySubDirs B (CombinePath B (model_repo_path cfg) [name]) = Some dirs"
  shows "-1 \<le> v \<and> (v = -1 \<or> (\<exists>d \<in> set dirs. stoll d = Inr v)) \<and>
    (d \<in> set dirs \<longrightarrow> stoll d = Inr w \<longrightarrow> w \<le> v)"
  using assms highest_version_bounds [of "-1" dirs]
  by (fastforce simp: GetHighestVersion_def Let_def dir_version_def split: sum.splits)

theorem highest_version_is_max_witness:
  "GetHighestVersion demo_fs (demo_server_config 4) ''demo'' = Inr 3 \<and> stoll ''1'' = Inr 1 \<and> (1 :: int) \<le> 3"
proof -
  have h: "GetHighestVersion demo_fs (demo_server_config 4) ''demo'' = Inr 3"
    "GetDirectorySubDirs demo_fs (CombinePath demo_fs (model_repo_path (demo_server_config 4)) [''demo'']) =
       Some [''1'', ''3'', ''tmp'']" "stoll ''1'' = Inr 1"
    by code_simp+
  then show ?thesis
    using highest_version_is_max [OF h(1,2), of "''1''" 1] by simp
qed

section \<open>The scheduler\<close>

text \<open>
  C26. A scheduler loses nothing it stored. In every interleaving of runners, callers, the
  update of the inference function and the stop, the payloads stored in the queue are, each
  once, in the queue, in a runner, or completed.
\<close>

theorem scheduler_conserves_payloads:
  assumes "sched_reachable cfg n f callers s"
  shows "mset (sys_accepted s) = mset (bq_buffer (sc_queue (sys_sched s))) +
    handled (sys_sched s) + mset (map fst (sys_completed s))"
  using sched_reachable_ok [OF assms] by (simp add: conserved_def)

theorem scheduler_conserves_payloads_witness:
  "mset [7] = mset (bq_buffer (sc_queue (sys_sched (demo_sched 13)))) +
    handled (sys_sched (demo_sched 13)) + {#7#}"
  using scheduler_conserves_payloads [OF demo_sched_reachable [of 13]] by (simp add: demo_sched_end)

text \<open>
  C27. A stop that found the queue empty, with no caller between its test and its push,
  completes exactly what was accepted: each payload once.
\<close>

theorem drained_stop_completes_all:
  assumes "sched_reachable cfg n f callers s" "sys_stop s = Stopped" "sys_drained s"
  shows "mset (map fst (sys_completed s)) = mset (sys_accepted s)"
proof -
  have "conserved s" "all_exited (sys_sched s)" "bq_buffer (sc_queue (sys_sched s)) = []"
    using sched_reachable_ok [OF assms(1)] assms(2,3) by (auto simp: phase_ok_def)
  then show ?thesis
    using all_exited_handled [of "sys_sched s"] by (simp add: conserved_def)
qed

theorem drained_stop_completes_all_witness: "mset (map fst (sys_completed (demo_sched 13))) = {#7#}"
  using drained_stop_completes_all [OF demo_sched_reachable demo_sched_end(1,2)]
  by (simp add: demo_sched_end)

text \<open>
  C28. A stop terminates: once the queue is broken, the runners can make at most
  \<open>sched_rank\<close> more steps in any order, and some order brings all of them to their end, so
  that joining them returns.
\<close>

theorem stop_joins_all_runners:
  assumes "sched_reachable cfg n f callers s" "sys_stop s = Joining"
  shows "(run_runners sts (sys_sched s) = Some sc \<longrightarrow> length sts \<le> sched_rank (sys_sched s)) \<and>
    (\<exists>sts' sc'. run_runners sts' (sys_sched s) = Some sc' \<and> all_exited sc')"
proof -
  have "shut (sys_sched s)"
    using sched_reachable_ok [OF assms(1)] assms(2) by (auto simp: phase_ok_def shut_def)
  then show ?thesis
    using run_runners_shut [of "sys_sched s" sts sc] run_runners_finish by fastforce
qed

theorem stop_joins_all_runners_witness:
  "\<exists>sts' sc'. run_runners sts' (sys_sched (demo_sched 9)) = Some sc' \<and> all_exited sc'"
  using stop_joins_all_runners [OF demo_sched_reachable demo_sched_end(5)] by blast

text \<open>
  C29. How long a stop waits for the queue: while it is not empty, \<open>Stop\<close> goes on waiting only
  in the first 121 ms and gives up only after 120 ms, whatever the timer's conversion from
  nanoseconds through a double to an \<open>int\<close> rounds; and in the first 24 days that conversion
  has a value.
\<close>

theorem depletion_wait_is_bounded:
  assumes "tm_start tm \<le> now" "now < tm_start tm + 2 ^ 31 * 1000000" "0 < bq_size (sc_queue s)"
  shows "\<exists>ms. toc now tm = Some ms \<and> (Stop_waits ms s \<longrightarrow> now < tm_start tm + 121 * 1000000) \<and>
    (\<not> Stop_waits ms s \<longrightarrow> tm_start tm + 120 * 1000000 \<le> now)"
proof -
  obtain ms where ms: "toc now tm = Some ms" "(now - tm_start tm) div 1000000 - 1 \<le> ms"
    "ms \<le> (now - tm_start tm) div 1000000"
    using toc_accuracy [OF assms(1,2)] by blast
  show ?thesis
    using ms(1) Stop_waits_time [OF assms(3) ms] by blast
qed

theorem depletion_wait_is_bounded_witness:
  "\<exists>ms. toc 125000000 \<lparr>tm_start = 0\<rparr> = Some ms \<and> \<not> Stop_waits ms (sys_sched (demo_sched 3))"
proof -
  have "0 < bq_size (sc_queue (sys_sched (demo_sched 3)))"
    by code_simp
  from depletion_wait_is_bounded [of "\<lparr>tm_start = 0\<rparr>" 125000000, OF _ _ this] show ?thesis
    by auto
qed

text \<open>
  C30. The message of a completion fits its status: empty for success, and otherwise the
  text of the status, from which a client can read the numeric code.
\<close>

theorem completion_message_carries_code:
  assumes "sched_reachable cfg n f callers s" "(p, st, message) \<in> set (sys_completed s)"
  shows "if st = Success then message = '''' else stoll (drop 9 message) = Inr (int (status_code st))"
proof -
  have "message = completion_message st"
    using sched_reachable_ok [OF assms(1)] assms(2) by (auto simp: messages_ok_def)
  then show ?thesis
    using stoll_show_status [of st] by (simp add: completion_message_def)
qed

theorem completion_message_carries_code_witness:
  "(7, Failed_Generic, ''Status = 1'') \<in> set (sys_completed (demo_sched 13)) \<and>
   stoll (drop 9 ''Status = 1'') = Inr (int (status_code Failed_Generic))"
proof -
  have "(7, Failed_Generic, ''Status = 1'') \<in> set (sys_completed (demo_sched 13))"
    by (simp add: demo_sched_end)
  from completion_message_carries_code [OF demo_sched_reachable this] this show ?thesis
    by (simp only: status.distinct if_False simp_thms)
qed

text \<open>
  C31. The queue's threads: items leave in the order they were stored, the buffer never
  exceeds its capacity, and no wake-up is lost: when no thread is between a test and its
  wait, a consumer sleeps only at an empty queue, a producer only at a full one, and nobody
  at a broken one.
\<close>

theorem queue_monitor_correct:
  assumes "monitor_reachable cap n m"
  shows "mon_in m = mon_out m @ bq_buffer (mon_queue m) \<and>
    length (bq_buffer (mon_queue m)) \<le> unat cap \<and>
    (quiescent m \<longrightarrow> Pop_Asleep \<in> set (mon_threads m) \<longrightarrow>
       \<not> broken (mon_queue m) \<and> bq_buffer (mon_queue m) = []) \<and>
    (quiescent m \<longrightarrow> Push_Asleep x \<in> set (mon_threads m) \<longrightarrow>
       \<not> broken (mon_queue m) \<and> length (bq_buffer (mon_queue m)) = unat cap)"
  using monitor_invD(1,2) [OF monitor_reachable_inv [OF assms]] monitor_reachable_capacity [OF assms]
    quiescent_sleepers [OF assms] by simp

theorem queue_monitor_correct_witness:
  "\<exists>m :: nat monitor. monitor_reachable 1 2 m \<and> quiescent m \<and> Pop_Asleep \<in> set (mon_threads m) \<and>
     bq_buffer (mon_queue m) = []"
proof -
  let ?m0 = "monitor_init 1 2 :: nat monitor"
  let ?m1 = "?m0\<lparr>mon_threads := [Popping, Outside]\<rparr>"
  let ?m2 = "?m0\<lparr>mon_threads := [Pop_Asleep, Outside]\<rparr>"
  have "monitor_step ?m0 ?m1"
    using monitor_step.call_pop [of 0 ?m0] by (simp add: monitor_init_def eval_nat_numeral)
  moreover have "monitor_step ?m1 ?m2"
    using monitor_step.pop_wait [of 0 ?m1]
    by (simp add: monitor_init_def BlockingQueue_def pop_def pop_ready_def)
  ultimately have r: "monitor_reachable 1 2 ?m2"
    by (blast intro: monitor_reachable.intros)
  have "quiescent ?m2" "Pop_Asleep \<in> set (mon_threads ?m2)"
    by (simp_all add: quiescent_def)
  then show ?thesis
    using r queue_monitor_correct [OF r] by blast
qed

section \<open>Requests and responses\<close>







text \<open>
  C35. Inputs survive the way to the backend: the tensors a client adds in one call are the
  memory the payload hands to the backend, in the same order and with their exact sizes,
  under distinct default names when the client gives none.
\<close>

theorem backend_reads_client_input:
  assumes "\<forall>(raw, sz) \<in> set inputs. unat sz \<le> length raw" "length inputs = length shapes"
    "length inputs < 2 ^ 31" "i < length inputs"
  shows "\<exists>c ctx. AddInferInputs inputs shapes None new_client_context = Result True c \<and>
     GrpcInferRequestContext (cc_request c) resp f = Inr ctx \<and>
     GetInputMemory (word_of_nat i) (ctx_payload ctx) =
       Some \<lparr>mem_addr = take (unat (snd (inputs ! i))) (fst (inputs ! i)),
             mem_length = word_of_nat (unat (snd (inputs ! i)))\<rparr> \<and>
     distinct (map in_name (rq_input (irq_meta_data (cc_request c))))"
proof -
  have fit: "\<forall>j \<in> set [0..<length inputs]. unat (snd (inputs ! j)) \<le> length (fst (inputs ! j))"
    using assms(1) nth_mem by fastforce
  from add_inputs_spec [OF fit, of shapes None new_client_context] obtain c where
    c: "AddInferInputs inputs shapes None new_client_context = Result True c"
    "irq_raw_input (cc_request c) =
       map (\<lambda>j. take (unat (snd (inputs ! j))) (fst (inputs ! j))) [0..<length inputs]"
    "map in_name (rq_input (irq_meta_data (cc_request c))) = map default_input_name [0..<length inputs]"
    using assms(2)
    by (auto simp: AddInferInputs_def new_client_context_def empty_infer_request_def empty_request_header_def)
  obtain ctx where ctx: "GrpcInferRequestContext (cc_request c) resp f = Inr ctx"
    using GrpcInferRequestContext_Inr by metis
  have "unat (snd (inputs ! i)) \<le> length (fst (inputs ! i))"
    using fit assms(4) by simp
  then show ?thesis
    using c ctx input_memory_at [OF ctx, of i] assms(3,4) default_names_distinct by simp
qed

theorem backend_reads_client_input_witness:
  "\<exists>c ctx. AddInferInputs [([1, 2, 3], 2), ([4], 1)] [[2], [1]] None new_client_context = Result True c \<and>
     GrpcInferRequestContext (cc_request c) empty_infer_response () = Inr ctx \<and>
     GetInputMemory 0 (ctx_payload ctx) = Some \<lparr>mem_addr = [1, 2], mem_length = 2\<rparr>"
  using backend_reads_client_input [of "[([1, 2, 3], 2), ([4], 1)]" "[[2], [1]]" 0 empty_infer_response "()"]
  by auto


section \<open>Backends\<close>

text \<open>
  C37. Which configurations give a backend, and which one: the factory succeeds exactly when a
  platform is named, there is an instance group, and every group is a CPU group without devices
  or one of the two remaining kinds with no instance; otherwise it reports a load failure. The
  backend has as many execution contexts as the groups ask for together, with distinct names
  when the groups have distinct names.
\<close>

theorem backend_created_iff_config_ok:
  "(\<exists>b. DemoBackendFactory_CreateBackend sc name version path cfg = (Success, Some b)) = config_ok cfg \<and>
   (\<not> config_ok cfg \<longrightarrow>
    DemoBackendFactory_CreateBackend sc name version path cfg = (Failed_Model_Load, None)) \<and>
   (DemoBackendFactory_CreateBackend sc name version path cfg = (Success, Some b) \<longrightarrow>
    GetInstanceNum b = sum_list (map (\<lambda>g. nat (sint (grp_count g))) (mc_instance_group cfg)) \<and>
    (distinct (map grp_name (mc_instance_group cfg)) \<longrightarrow> distinct (map bc_name (mb_contexts b))))"
proof (intro conjI impI)
  show "(\<exists>b. DemoBackendFactory_CreateBackend sc name version path cfg = (Success, Some b)) = config_ok cfg"
    using DemoBackend_Inr [of sc name version path cfg]
    by (auto simp: DemoBackendFactory_CreateBackend_def split: sum.splits)
  show "DemoBackendFactory_CreateBackend sc name version path cfg = (Failed_Model_Load, None)"
    if "\<not> config_ok cfg"
    using that DemoBackend_Inr [of sc name version path cfg]
    by (auto simp: DemoBackendFactory_CreateBackend_def split: sum.splits)
  assume "DemoBackendFactory_CreateBackend sc name version path cfg = (Success, Some b)"
  then have b: "DemoBackend sc name version path cfg = Inr b"
    by (auto simp: DemoBackendFactory_CreateBackend_def split: sum.splits)
  show "GetInstanceNum b = sum_list (map (\<lambda>g. nat (sint (grp_count g))) (mc_instance_group cfg))"
    using length_contexts [OF b] by (simp add: GetInstanceNum_def)
  show "distinct (map bc_name (mb_contexts b))" if "distinct (map grp_name (mc_instance_group cfg))"
    using that DemoBackend_fields(8) [OF b] distinct_all_names by simp
qed

theorem backend_created_iff_config_ok_witness:
  "DemoBackendFactory_CreateBackend (demo_server_config 4) ''demo'' 1 ''repo/demo''
     ((demo_config 2)\<lparr>mc_platform := ''''\<rparr>) = (Failed_Model_Load, None) \<and>
   (\<exists>b. DemoBackendFactory_CreateBackend (demo_server_config 4) ''demo'' 3 ''repo/demo'' (demo_config 2) =
      (Success, Some b) \<and> GetInstanceNum b = 2)"
proof
  note spec = backend_created_iff_config_ok
  show "DemoBackendFactory_CreateBackend (demo_server_config 4) ''demo'' 1 ''repo/demo''
      ((demo_config 2)\<lparr>mc_platform := ''''\<rparr>) = (Failed_Model_Load, None)"
    by (rule spec [THEN conjunct2, THEN conjunct1, rule_format]) (simp add: config_ok_def)
  have "config_ok (demo_config 2)"
    by (simp add: config_ok_def demo_config_def group_ok_def kDemoPlatform_def)
  then obtain b where b: "DemoBackendFactory_CreateBackend (demo_server_config 4) ''demo'' 3
      ''repo/demo'' (demo_config 2) = (Success, Some b)"
    using spec [THEN conjunct1] by blast
  have "GetInstanceNum b = 2"
    using spec [THEN conjunct2, THEN conjunct2, rule_format, OF b] by (simp add: demo_config_def)
  then show "\<exists>b. DemoBackendFactory_CreateBackend (demo_server_config 4) ''demo'' 3 ''repo/demo''
      (demo_config 2) = (Success, Some b) \<and> GetInstanceNum b = 2"
    using b by blast
qed

text \<open>
  C38. Tensor lookup: a backend finds exactly the inputs and outputs of its configuration,
  the first one when a name occurs twice, and reports any other name.
\<close>

theorem backend_tensor_lookup:
  assumes "DemoBackend sc name version path cfg = Inr b"
  shows "GetInput n b = (case List.find (\<lambda>io. mi_name io = n) (mc_input cfg) of
      None \<Rightarrow> (Failed_Model_Config_IO_Not_Found, None) | Some io \<Rightarrow> (Success, Some io)) \<and>
    GetOutput n b = (case List.find (\<lambda>io. mo_name io = n) (mc_output cfg) of
      None \<Rightarrow> (Failed_Model_Config_IO_Not_Found, None) | Some io \<Rightarrow> (Success, Some io))"
  using DemoBackend_tensors [OF assms]
  by (simp add: GetInput_def GetOutput_def map_of_input_pairs map_of_output_pairs)

theorem backend_tensor_lookup_witness:
  "\<exists>b. DemoBackend (demo_server_config 4) ''demo'' 3 ''repo/demo'' (demo_config 2) = Inr b \<and>
     GetInput ''OUTPUT__0'' b = (Failed_Model_Config_IO_Not_Found, None)"
proof -
  have "config_ok (demo_config 2)"
    by (simp add: config_ok_def demo_config_def group_ok_def kDemoPlatform_def)
  then obtain b where b: "DemoBackend (demo_server_config 4) ''demo'' 3 ''repo/demo'' (demo_config 2) = Inr b"
    using DemoBackend_Inr by blast
  have "GetInput ''OUTPUT__0'' b = (Failed_Model_Config_IO_Not_Found, None)"
    using backend_tensor_lookup [OF b, of "''OUTPUT__0''"] by (simp add: demo_config_def)
  then show ?thesis
    using b by blast
qed

section \<open>Status and health\<close>

text \<open>
  C39. The status call reports, for each name, the version that is served, as ready; the
  client's question whether a model is ready is answered yes for every name as soon as the
  server has some model, because the name in the request is not read.
\<close>

theorem status_reports_served_versions:
  assumes "um_wf (mm_model_map mm)"
  shows "um_find (sst_model_status (srs_server_status
      (snd (GetStatus req empty_status_response mm)))) n =
      map_option (\<lambda>v. \<lparr>version_status = [(v, MODEL_READY)]\<rparr>) (version_of mm n) \<and>
    (ModelReady (\<lambda>r. Some (snd (GetStatus r empty_status_response mm))) name \<longleftrightarrow>
      (\<exists>m. version_of mm m \<noteq> None))"
proof -
  have "(\<exists>m. version_of mm m \<noteq> None) \<longleftrightarrow> mm_model_map mm \<noteq> []"
    using um_find_set [OF assms] by (cases "mm_model_map mm") (force simp: version_of_def)+
  then show ?thesis
    using GetModelStatus_find [OF assms, of n]
    by (simp add: GetStatus_def Let_def ModelReady_def GetNumberOfLiveModels_def)
qed

theorem status_reports_served_versions_witness:
  "ModelReady (\<lambda>r. Some (snd (GetStatus r empty_status_response (demo_manager 4)))) ''no such model''"
proof -
  have "version_of (demo_manager 4) ''demo'' = Some 3"
    by code_simp
  then have "\<exists>m. version_of (demo_manager 4) m \<noteq> None"
    by (metis option.distinct(1))
  moreover have "um_wf (mm_model_map (demo_manager 4))"
    using ModelManager_idle [OF demo_manager_eq(1)] by (simp add: idle_manager_def manager_wf_def)
  ultimately show ?thesis
    using status_reports_served_versions [of "demo_manager 4" "\<lparr>srq_model_name = ''x''\<rparr>" "''demo''"
        "''no such model''"] by simp
qed

section \<open>Signals\<close>



end
